(* ===== verification/Prelude.thy ===== *)
theory Prelude
  imports Main "HOL-Library.Word" "HOL-Library.List_Lexorder" "HOL-Library.Multiset"
begin

text \<open>
  Shared vocabulary of the development: machine integers, the outcome of running Rust code
  (a value, a panic, or an await that never completes), the pieces of the Rust standard
  library the sources use on vectors (\<open>Iterator::position\<close>, \<open>VecDeque::remove\<close>,
  \<open>Vec::truncate\<close>), the constants of \<open>constants.rs\<close>, and the generic facts on lists,
  sorting and bits that the component theories share.
\<close>

unbundle bit_operations_syntax

section \<open>Types\<close>

type_synonym u8 = "8 word"
type_synonym u16 = "16 word"
type_synonym u32 = "32 word"
type_synonym bytes = "u8 list"

text \<open>A point in time, in nanoseconds, for \<open>SystemTime\<close> and \<open>Instant\<close>.\<close>

type_synonym time = nat

text \<open>
  The outcome of a call that can fail to return a value: \<open>Panicked\<close> is a Rust panic,
  \<open>Blocked\<close> an \<open>await\<close> that is never completed. A \<open>Result\<close> is a sum with the error on
  the left.
\<close>

datatype 'a run = Ret 'a | Panicked | Blocked

fun bind_run :: "'a run \<Rightarrow> ('a \<Rightarrow> 'b run) \<Rightarrow> 'b run" where
  "bind_run (Ret x) f = f x"
| "bind_run Panicked f = Panicked"
| "bind_run Blocked f = Blocked"

section \<open>Constants (constants.rs)\<close>

definition K :: nat where "K = 20"

definition ALPHA :: nat where "ALPHA = 3"

definition MAX_FILE_SIZE_MB :: nat where "MAX_FILE_SIZE_MB = 4096"

definition CHUNK_DATA_SIZE_KB :: nat where "CHUNK_DATA_SIZE_KB = 1024"

definition MAX_SHARDS_STORED :: nat where "MAX_SHARDS_STORED = 1024"

definition MAX_DATA_STORED_MB :: nat where "MAX_DATA_STORED_MB = 4096"

definition DEFAULT_CHUNK_REUPLOAD_INTERVAL_S :: nat where
  "DEFAULT_CHUNK_REUPLOAD_INTERVAL_S = 3600"

definition DEFAULT_CHUNK_EXPIRE_TIME_S :: nat where
  "DEFAULT_CHUNK_EXPIRE_TIME_S = 86400"

definition LOOKUP_TIMEOUT_MILLISECONDS :: nat where "LOOKUP_TIMEOUT_MILLISECONDS = 2500"

definition BASIC_REQUEST_TIMEOUT_MILLISECONDS :: nat where
  "BASIC_REQUEST_TIMEOUT_MILLISECONDS = 1000"

definition TCP_TIMEOUT_MILLISECONDS :: nat where "TCP_TIMEOUT_MILLISECONDS = 5000"

section \<open>Vectors of the standard library\<close>

text \<open>\<open>Iterator::position\<close> and \<open>VecDeque::remove\<close>, which gives \<open>None\<close> out of range.\<close>

fun position :: "('a \<Rightarrow> bool) \<Rightarrow> 'a list \<Rightarrow> nat option" where
  "position P [] = None"
| "position P (x # xs) = (if P x then Some 0 else map_option Suc (position P xs))"

definition remove_at :: "nat \<Rightarrow> 'a list \<Rightarrow> 'a option \<times> 'a list" where
  "remove_at i xs =
     (if i < length xs then (Some (xs ! i), take i xs @ drop (Suc i) xs) else (None, xs))"

text \<open>
  What a caller expects of ``the \<open>n\<close> elements of \<open>xs\<close> with the smallest key'': a sorted
  part of \<open>xs\<close>, as long as possible up to \<open>n\<close>, such that nothing left out is smaller than
  anything taken.
\<close>

definition n_smallest :: "('a \<Rightarrow> 'k::linorder) \<Rightarrow> nat \<Rightarrow> 'a list \<Rightarrow> 'a list \<Rightarrow> bool" where
  "n_smallest f n xs ys \<longleftrightarrow>
     sorted (map f ys) \<and> mset ys \<subseteq># mset xs \<and> length ys = min n (length xs) \<and>
     (\<forall>y \<in> set ys. \<forall>x \<in># mset xs - mset ys. f y \<le> f x)"

section \<open>Collections of facts\<close>

named_theorems const_defs \<open>values of the constants\<close>
named_theorems key_simps \<open>rewriting of keys and distances\<close>
named_theorems inv_intros \<open>operations keep their component's invariant\<close>

declare
  K_def [const_defs] ALPHA_def [const_defs] MAX_FILE_SIZE_MB_def [const_defs]
  CHUNK_DATA_SIZE_KB_def [const_defs] MAX_SHARDS_STORED_def [const_defs]
  MAX_DATA_STORED_MB_def [const_defs]
  DEFAULT_CHUNK_REUPLOAD_INTERVAL_S_def [const_defs]
  DEFAULT_CHUNK_EXPIRE_TIME_S_def [const_defs]
  LOOKUP_TIMEOUT_MILLISECONDS_def [const_defs]
  BASIC_REQUEST_TIMEOUT_MILLISECONDS_def [const_defs]
  TCP_TIMEOUT_MILLISECONDS_def [const_defs]

section \<open>Running\<close>

lemma bind_run_Ret_iff: "bind_run m f = Ret y \<longleftrightarrow> (\<exists>x. m = Ret x \<and> f x = Ret y)"
  by (cases m) auto

lemma bind_run_assoc [simp]: "bind_run (bind_run m f) g = bind_run m (\<lambda>x. bind_run (f x) g)"
  by (cases m) auto

section \<open>Lists\<close>

lemma position_None_iff [simp]: "position P xs = None \<longleftrightarrow> (\<forall>x \<in> set xs. \<not> P x)"
  by (induction xs) auto

lemma position_SomeD:
  "position P xs = Some i \<Longrightarrow> i < length xs \<and> P (xs ! i) \<and> (\<forall>x \<in> set (take i xs). \<not> P x)"
  by (induction xs arbitrary: i) (auto split: if_splits)

lemma position_find: "map_option ((!) xs) (position P xs) = find P xs"
proof (induction xs)
  case (Cons x xs)
  then show ?case by (cases "position P xs") (auto simp del: position_None_iff)
qed simp

lemma list_all2_in_right: "list_all2 Q xs ys \<Longrightarrow> y \<in> set ys \<Longrightarrow> \<exists>x \<in> set xs. Q x y"
  by (induction rule: list_all2_induct) auto

lemma distinct_submset:
  assumes "mset xs \<subseteq># mset ys" "distinct ys"
  shows "distinct xs"
proof -
  obtain zs where "mset ys = mset (xs @ zs)"
    using assms(1) by (metis ex_mset mset_append subset_mset.le_iff_add)
  then have "distinct (xs @ zs)" using assms(2) mset_eq_imp_distinct_iff by blast
  then show ?thesis by simp
qed

lemma mset_remove_at:
  "i < length xs \<Longrightarrow> mset (take i xs @ drop (Suc i) xs) = mset xs - {#xs ! i#}"
  by (subst (3) id_take_nth_drop [of i xs]) auto

lemma split_at: "i < length xs \<Longrightarrow> xs = take i xs @ xs ! i # drop (Suc i) xs"
  by (rule id_take_nth_drop)

lemma take_sort_n_smallest: "n_smallest f n xs (take n (sort_key f xs))"
proof -
  let ?s = "sort_key f xs"
  have s: "sorted (map f ?s)" by simp
  have eq: "mset xs = mset (take n ?s) + mset (drop n ?s)"
    by (metis append_take_drop_id mset_append mset_sort)
  then have rest: "mset xs - mset (take n ?s) = mset (drop n ?s)" by simp
  have "f y \<le> f x" if "y \<in> set (take n ?s)" "x \<in> set (drop n ?s)" for x y
  proof -
    have "sorted (map f (take n ?s) @ map f (drop n ?s))"
      using s by (metis append_take_drop_id map_append)
    then show ?thesis using that by (auto simp: sorted_append)
  qed
  then show ?thesis
    unfolding n_smallest_def using s rest eq
    by (auto simp: take_map [symmetric] sorted_wrt_take simp flip: take_map)
qed

lemma sort_key_split:
  assumes "mset zs = mset xs + mset ys" "inj_on f (set zs)"
    and "\<And>x y. x \<in> set xs \<Longrightarrow> y \<in> set ys \<Longrightarrow> f x \<le> f y"
  shows "sort_key f zs = sort_key f xs @ sort_key f ys"
  by (rule sort_key_inj_key_eq) (use assms in \<open>auto simp: sorted_append\<close>)

section \<open>Bits of natural numbers\<close>

lemma nat_less_exp_iff_bits: "(x::nat) < 2 ^ n \<longleftrightarrow> (\<forall>i \<ge> n. \<not> bit x i)"
proof -
  have "x < 2 ^ n \<longleftrightarrow> take_bit n x = x"
    by (simp add: take_bit_nat_eq_self_iff)
  also have "\<dots> \<longleftrightarrow> (\<forall>i \<ge> n. \<not> bit x i)"
    by (simp add: bit_eq_iff bit_take_bit_iff) (meson not_le)
  finally show ?thesis .
qed

lemma nat_exp_le_of_bit: "bit (x::nat) n \<Longrightarrow> 2 ^ n \<le> x"
  using nat_less_exp_iff_bits [of x n] by (auto simp: not_less)

lemma nat_top_bit: "2 ^ n \<le> (x::nat) \<Longrightarrow> x < 2 ^ Suc n \<Longrightarrow> bit x n"
proof -
  assume "2 ^ n \<le> x" "x < 2 ^ Suc n"
  then have "\<not> (\<forall>i \<ge> n. \<not> bit x i)" and up: "\<forall>i \<ge> Suc n. \<not> bit x i"
    using nat_less_exp_iff_bits [of x n] nat_less_exp_iff_bits [of x "Suc n"] by auto
  then obtain i where "i \<ge> n" "bit x i" by blast
  moreover from this up have "\<not> Suc n \<le> i" by blast
  ultimately have "i = n" by simp
  with \<open>bit x i\<close> show "bit x n" by simp
qed

lemma xor_less_exp: "(x::nat) < 2 ^ n \<Longrightarrow> y < 2 ^ n \<Longrightarrow> x XOR y < 2 ^ n"
  by (simp add: nat_less_exp_iff_bits bit_xor_iff)

lemma bit_shift_add:
  assumes "(x::nat) < 2 ^ n"
  shows "bit (a * 2 ^ n + x) i \<longleftrightarrow> (if i < n then bit x i else bit a (i - n))"
proof (cases "i < n")
  case True
  then have p: "(2::nat) ^ n = 2 ^ i * 2 ^ (n - i)" by (simp flip: power_add)
  have "(a * 2 ^ n + x) div 2 ^ i = a * 2 ^ (n - i) + x div 2 ^ i"
    unfolding p mult.left_commute [of a] by (subst add.commute) simp
  then show ?thesis using True by (simp add: bit_iff_odd)
next
  case False
  then have p: "(2::nat) ^ i = 2 ^ n * 2 ^ (i - n)" by (simp flip: power_add)
  have "(a * 2 ^ n + x) div 2 ^ i = a div 2 ^ (i - n)"
    unfolding p using assms by (simp add: div_mult2_eq)
  then show ?thesis using False by (simp add: bit_iff_odd)
qed

lemma xor_shift_add:
  assumes "(x::nat) < 2 ^ n" "y < 2 ^ n"
  shows "(a * 2 ^ n + x) XOR (b * 2 ^ n + y) = (a XOR b) * 2 ^ n + (x XOR y)"
  by (rule bit_eqI)
    (auto simp: bit_xor_iff bit_shift_add assms xor_less_exp)

lemma xor_le_add: "(x::nat) XOR y \<le> x + y"
proof (induction x arbitrary: y rule: less_induct)
  case (less x)
  show ?case
  proof (cases "x = 0")
    case False
    then have "x div 2 XOR y div 2 \<le> x div 2 + y div 2" by (intro less.IH) simp
    then have "2 * (x div 2 XOR y div 2) + of_bool (odd x \<noteq> odd y) \<le> x + y"
      by (cases "odd x"; cases "odd y") (auto elim!: oddE evenE)
    then show ?thesis by (subst xor_rec) simp
  qed simp
qed

lemma find_SomeD: "find P xs = Some x \<Longrightarrow> x \<in> set xs \<and> P x"
  by (auto simp: find_Some_iff)

end
