(* ===== verification/Key.thy ===== *)
theory Key
  imports Prelude
begin

text \<open>
  \<open>core/key.rs\<close>: the 160-bit identifiers of nodes and chunks, the XOR distance between
  them, the number of leading zero bits of a distance, and the hexadecimal notation. A key is
  read as a big-endian number (\<open>be_num\<close>) to state what the byte-wise operations compute:
  the distance is a metric, the derived order of byte arrays is the numeric order, and the
  leading zeros give the power of two the distance lies in.
\<close>

section \<open>Definitions\<close>

datatype key = Key (key_value: bytes)

text \<open>\<open>KeyValue = [u8; K]\<close>: the array type fixes the length.\<close>

definition wf_key :: "key \<Rightarrow> bool" where
  "wf_key k \<longleftrightarrow> length (key_value k) = K"

datatype 'h key_error =
    InvalidHexLength nat
  | DecodeHexError 'h
  | WrongHexStringLength nat nat

text \<open>\<open>Key::new_random\<close>: the bytes the generator fills the array with are the argument.\<close>

definition Key_new_random :: "bytes \<Rightarrow> key" where
  "Key_new_random rng = Key rng"

definition Key_from_bytes :: "bytes \<Rightarrow> key" where
  "Key_from_bytes bs = Key bs"

definition Key_from_hex_str :: "(string \<Rightarrow> 'h + bytes) \<Rightarrow> string \<Rightarrow> 'h key_error + key" where
  "Key_from_hex_str hex_decode hex_str =
     (if length hex_str \<noteq> K * 2 then Inl (WrongHexStringLength (K * 2) (length hex_str))
      else case hex_decode hex_str of
             Inr decoded \<Rightarrow>
               (if length decoded \<noteq> K then Inl (InvalidHexLength (length decoded))
                else Inr (Key decoded))
           | Inl e \<Rightarrow> Inl (DecodeHexError e))"

text \<open>\<open>Key::from_input\<close>; the digest is a parameter, a 20-byte array by its type.\<close>

definition Key_from_input :: "(bytes \<Rightarrow> bytes) \<Rightarrow> bytes \<Rightarrow> key" where
  "Key_from_input sha1 input = Key (take K (sha1 input))"

text \<open>The format \<open>{:02x}\<close> of a byte.\<close>

definition hex_digit :: "nat \<Rightarrow> char" where
  "hex_digit n = ''0123456789abcdef'' ! n"

definition fmt_02x :: "u8 \<Rightarrow> string" where
  "fmt_02x b = [hex_digit (unat b div 16), hex_digit (unat b mod 16)]"

definition Key_lower_hex :: "key \<Rightarrow> string" where
  "Key_lower_hex k = concat (map fmt_02x (key_value k))"

definition Key_to_hex_string :: "key \<Rightarrow> string" where
  "Key_to_hex_string k = Key_lower_hex k"

definition Key_display :: "key \<Rightarrow> string" where
  "Key_display k = concat (map fmt_02x (key_value k))"

definition Key_serialize :: "key \<Rightarrow> string" where
  "Key_serialize k = Key_to_hex_string k"

definition Key_deserialize :: "(string \<Rightarrow> 'h + bytes) \<Rightarrow> string \<Rightarrow> 'h key_error + key" where
  "Key_deserialize hex_decode hex_str = Key_from_hex_str hex_decode hex_str"

definition Key_distance :: "key \<Rightarrow> key \<Rightarrow> bytes" where
  "Key_distance a b = map2 (XOR) (key_value a) (key_value b)"

text \<open>\<open>u8::leading_zeros\<close>.\<close>

definition u8_leading_zeros :: "u8 \<Rightarrow> nat" where
  "u8_leading_zeros w = length (takeWhile (\<lambda>i. \<not> bit w i) [7, 6, 5, 4, 3, 2, 1, 0])"

fun count_leading_zeros :: "bytes \<Rightarrow> nat" where
  "count_leading_zeros [] = 0"
| "count_leading_zeros (b # bs) =
     (if b = 0 then 8 + count_leading_zeros bs else u8_leading_zeros b)"

definition Key_leading_zeros_in_distance :: "key \<Rightarrow> key \<Rightarrow> nat" where
  "Key_leading_zeros_in_distance a b = count_leading_zeros (Key_distance a b)"

text \<open>
  \<open>make_exactly_n_same_leading_bits_as\<close>: the \<open>for _ in 0..K\<close> loop over the bytes written,
  the remaining bit count and \<open>byte_i\<close>, then the inversion of the next bit.
\<close>

definition prefix_mask :: "nat \<Rightarrow> u8" where
  "prefix_mask n = fold (\<lambda>bit_i mask. mask OR push_bit (7 - bit_i) 1) [0..<n] 0"

fun copy_bits_loop :: "nat \<Rightarrow> bytes \<Rightarrow> bytes \<Rightarrow> nat \<Rightarrow> nat \<Rightarrow> bytes \<times> nat \<times> nat" where
  "copy_bits_loop 0 yours mine n_bits byte_i = (mine, n_bits, byte_i)"
| "copy_bits_loop (Suc m) yours mine n_bits byte_i =
     (if n_bits \<ge> 8
      then copy_bits_loop m yours (mine[byte_i := yours ! byte_i]) (n_bits - 8) (Suc byte_i)
      else let mask = prefix_mask n_bits in
           copy_bits_loop m yours
             (mine[byte_i := (mask AND yours ! byte_i) OR (mine ! byte_i AND NOT mask)])
             n_bits byte_i)"

definition Key_make_exactly_n_same_leading_bits_as :: "key \<Rightarrow> key \<Rightarrow> nat \<Rightarrow> key" where
  "Key_make_exactly_n_same_leading_bits_as self k n =
     (let (v, n_bits, byte_i) = copy_bits_loop K (key_value k) (key_value self) n 0 in
      if byte_i < K
      then let mask = push_bit (7 - n_bits) 1;
               your_bit_neg = mask AND NOT (key_value k ! byte_i)
           in Key (v[byte_i := your_bit_neg OR (v ! byte_i AND NOT mask)])
      else Key v)"

text \<open>\<open>impl Ord for Key\<close>: the order of the byte arrays.\<close>

datatype ordering = Less | Equal | Greater

definition Key_cmp :: "key \<Rightarrow> key \<Rightarrow> ordering" where
  "Key_cmp self other =
     (if key_value self < key_value other then Less
      else if key_value self = key_value other then Equal else Greater)"

definition Key_partial_cmp :: "key \<Rightarrow> key \<Rightarrow> ordering option" where
  "Key_partial_cmp self other = Some (Key_cmp self other)"

instantiation key :: linorder
begin

definition less_eq_key :: "key \<Rightarrow> key \<Rightarrow> bool" where
  "less_eq_key a b \<longleftrightarrow> Key_cmp a b \<noteq> Greater"

definition less_key :: "key \<Rightarrow> key \<Rightarrow> bool" where
  "less_key a b \<longleftrightarrow> Key_cmp a b = Less"

instance
  by standard (auto simp: less_eq_key_def less_key_def Key_cmp_def key.expand split: if_splits)

end

text \<open>The big-endian number a byte string stands for.\<close>

fun be_num :: "bytes \<Rightarrow> nat" where
  "be_num [] = 0"
| "be_num (b # bs) = unat b * 2 ^ (8 * length bs) + be_num bs"

abbreviation key_num :: "key \<Rightarrow> nat" where
  "key_num k \<equiv> be_num (key_value k)"

abbreviation dist_num :: "key \<Rightarrow> key \<Rightarrow> nat" where
  "dist_num a b \<equiv> be_num (Key_distance a b)"

text \<open>
  What \<open>from_hex_str\<close> relies on of the \<open>hex\<close> crate: decoding lower-case digit pairs gives
  the bytes, and a decoded string had two digits for each byte.
\<close>

definition hex_decode_spec :: "(string \<Rightarrow> 'h + bytes) \<Rightarrow> bool" where
  "hex_decode_spec hex_decode \<longleftrightarrow>
     (\<forall>bs. hex_decode (concat (map fmt_02x bs)) = Inr bs) \<and>
     (\<forall>s bs. hex_decode s = Inr bs \<longrightarrow> length s = 2 * length bs)"


section \<open>Big-endian numbers\<close>

lemma be_num_less: "be_num bs < 2 ^ (8 * length bs)"
proof (induction bs)
  case (Cons b bs)
  have "unat b < 2 ^ 8" using unsigned_less [of b] by simp
  then have le: "Suc (unat b) * 2 ^ (8 * length bs) \<le> 2 ^ 8 * 2 ^ (8 * length bs)"
    by (intro mult_le_mono1) simp
  have "be_num (b # bs) < Suc (unat b) * 2 ^ (8 * length bs)" using Cons by simp
  also note le
  also have "2 ^ 8 * 2 ^ (8 * length bs) = (2::nat) ^ (8 * length (b # bs))"
    by (simp add: power_add)
  finally show ?case .
qed simp

lemma be_num_append: "be_num (xs @ ys) = be_num xs * 2 ^ (8 * length ys) + be_num ys"
  by (induction xs) (auto simp: algebra_simps power_add)

lemma shift_less_iff:
  assumes "x < c" "y < c"
  shows "a * c + x < b * c + y \<longleftrightarrow> a < b \<or> (a = b \<and> x < (y::nat))"
proof -
  have "a * c + x < b * c + y" if "a < b"
  proof -
    have "Suc a * c \<le> b * c" using that by (intro mult_le_mono1) simp
    then show ?thesis using assms by simp
  qed
  moreover have "b * c + y < a * c + x" if "b < a"
  proof -
    have "Suc b * c \<le> a * c" using that by (intro mult_le_mono1) simp
    then show ?thesis using assms by simp
  qed
  ultimately show ?thesis by (cases a b rule: linorder_cases) auto
qed

lemma be_num_less_iff:
  "length xs = length ys \<Longrightarrow> xs < ys \<longleftrightarrow> be_num xs < be_num ys"
proof (induction xs ys rule: list_induct2)
  case (Cons x xs y ys)
  then show ?case
    using be_num_less [of xs] be_num_less [of ys]
    by (simp add: shift_less_iff word_less_nat_alt word_unat_eq_iff)
qed simp

lemma be_num_inj: "length xs = length ys \<Longrightarrow> be_num xs = be_num ys \<longleftrightarrow> xs = ys"
  using be_num_less_iff [of xs ys] be_num_less_iff [of ys xs] by force

lemma be_num_eq_0_iff: "be_num bs = 0 \<longleftrightarrow> (\<forall>b \<in> set bs. b = 0)"
  by (induction bs) (auto simp: unat_eq_zero)

lemma be_num_xor:
  "length xs = length ys \<Longrightarrow> be_num (map2 (XOR) xs ys) = be_num xs XOR be_num ys"
proof (induction xs ys rule: list_induct2)
  case (Cons x xs y ys)
  then show ?case
    using be_num_less [of xs] be_num_less [of ys]
    by (simp add: xor_shift_add unsigned_xor_eq)
qed simp

section \<open>The XOR metric\<close>

lemma length_distance [key_simps]:
  "wf_key a \<Longrightarrow> wf_key b \<Longrightarrow> length (Key_distance a b) = K"
  by (simp add: Key_distance_def wf_key_def)

lemma dist_num_xor [key_simps]:
  "wf_key a \<Longrightarrow> wf_key b \<Longrightarrow> dist_num a b = key_num a XOR key_num b"
  by (simp add: Key_distance_def wf_key_def be_num_xor)

lemma key_num_less: "wf_key a \<Longrightarrow> key_num a < 2 ^ (8 * K)"
  using be_num_less [of "key_value a"] by (simp add: wf_key_def)

lemma key_num_inj: "wf_key a \<Longrightarrow> wf_key b \<Longrightarrow> key_num a = key_num b \<longleftrightarrow> a = b"
  by (simp add: wf_key_def be_num_inj key.expand key.expand [of a b])
    (metis key.expand)

lemma distance_commute: "Key_distance a b = Key_distance b a"
  unfolding Key_distance_def
  by (rule nth_equalityI) (auto simp: xor.commute)

lemma xor_nat_eq_0_iff: "(x::nat) XOR y = 0 \<longleftrightarrow> x = y"
  by (auto simp: bit_eq_iff bit_xor_iff)

lemma dist_num_eq_0_iff: "wf_key a \<Longrightarrow> wf_key b \<Longrightarrow> dist_num a b = 0 \<longleftrightarrow> a = b"
  by (simp add: dist_num_xor xor_nat_eq_0_iff key_num_inj)

lemma dist_num_self: "wf_key a \<Longrightarrow> dist_num a a = 0"
  by (simp add: dist_num_eq_0_iff)

lemma dist_num_triangle:
  assumes "wf_key a" "wf_key b" "wf_key c"
  shows "dist_num a c \<le> dist_num a b + dist_num b c"
proof -
  have "dist_num a c = dist_num a b XOR dist_num b c"
    using assms by (simp add: dist_num_xor) (metis xor.assoc xor.left_commute xor_self_eq
      xor.right_neutral)
  then show ?thesis using xor_le_add by simp
qed

lemma dist_num_relay:
  "wf_key a \<Longrightarrow> wf_key b \<Longrightarrow> wf_key c \<Longrightarrow> dist_num a b = dist_num c a XOR dist_num c b"
  by (simp add: dist_num_xor) (metis xor.assoc xor.left_commute xor_self_eq xor.left_neutral)

lemma dist_num_unique:
  assumes "wf_key a" "wf_key b" "wf_key c" "dist_num a b = dist_num a c"
  shows "b = c"
proof -
  have "dist_num b c = dist_num a b XOR dist_num a c"
    by (rule dist_num_relay [OF assms(2,3,1)])
  then show ?thesis using assms by (simp add: dist_num_eq_0_iff)
qed

lemma distance_less_iff:
  assumes "wf_key a" "wf_key b" "wf_key c" "wf_key d"
  shows "Key_distance a b < Key_distance c d \<longleftrightarrow> dist_num a b < dist_num c d"
  by (rule be_num_less_iff) (simp add: assms length_distance)

lemma distance_le_iff:
  assumes "wf_key a" "wf_key b" "wf_key c" "wf_key d"
  shows "Key_distance a b \<le> Key_distance c d \<longleftrightarrow> dist_num a b \<le> dist_num c d"
  using distance_less_iff [of c d a b] assms by (simp add: not_less [symmetric])

lemma distance_eq_iff:
  "wf_key a \<Longrightarrow> wf_key b \<Longrightarrow> wf_key c \<Longrightarrow> Key_distance a c = Key_distance b c \<longleftrightarrow> a = b"
  by (metis distance_commute dist_num_unique)

section \<open>Leading zeros\<close>

lemma u8_leading_zeros_eqI:
  assumes "r < 8" "bit w (7 - r)" "\<And>j. 7 - r < j \<Longrightarrow> j < 8 \<Longrightarrow> \<not> bit w j"
  shows "u8_leading_zeros w = r"
proof -
  have "r = 0 \<or> r = 1 \<or> r = 2 \<or> r = 3 \<or> r = 4 \<or> r = 5 \<or> r = 6 \<or> r = 7"
    using assms(1) by arith
  then show ?thesis
    using assms(2,3) by (elim disjE) (simp_all add: u8_leading_zeros_def)
qed

lemma u8_highest_bit:
  assumes "w \<noteq> (0 :: u8)"
  obtains r where "r < 8" "bit w (7 - r)" "\<And>j. 7 - r < j \<Longrightarrow> j < 8 \<Longrightarrow> \<not> bit w j"
proof -
  define i where "i = Max {j. j < 8 \<and> bit w j}"
  have ne: "{j. j < 8 \<and> bit w j} \<noteq> {}"
    using assms bit_imp_le_length [of w] by (auto simp: bit_eq_iff)
  then have "i \<in> {j. j < 8 \<and> bit w j}" unfolding i_def by (intro Max_in) auto
  then have i: "i < 8" "bit w i" by auto
  have "\<not> bit w j" if "i < j" "j < 8" for j
  proof
    assume "bit w j"
    then have "j \<le> i" unfolding i_def using that by (intro Max_ge) auto
    with that show False by simp
  qed
  with i show ?thesis using that [of "7 - i"] by simp
qed

lemma unat_less_exp_iff_bits: "unat (w :: u8) < 2 ^ n \<longleftrightarrow> (\<forall>i \<ge> n. \<not> bit w i)"
  by (simp only: nat_less_exp_iff_bits bit_unsigned_iff) auto

lemma u8_leading_zeros_bounds:
  assumes "w \<noteq> 0"
  shows "u8_leading_zeros w < 8" (is ?A)
    and "2 ^ (7 - u8_leading_zeros w) \<le> unat w" (is ?B)
    and "unat w < 2 ^ (8 - u8_leading_zeros w)" (is ?C)
proof -
  obtain r where r: "r < 8" "bit w (7 - r)" "\<And>j. 7 - r < j \<Longrightarrow> j < 8 \<Longrightarrow> \<not> bit w j"
    using u8_highest_bit [OF assms] by blast
  have eq: "u8_leading_zeros w = r" by (rule u8_leading_zeros_eqI) (use r in auto)
  show ?A using eq r by simp
  have "\<not> bit w j" if "8 - r \<le> j" for j
    using r(3) [of j] that \<open>r < 8\<close> bit_imp_le_length [of w j] by (cases "j < 8") auto
  then show ?C using eq by (simp add: unat_less_exp_iff_bits)
  show ?B using r(2) eq by (intro nat_exp_le_of_bit) (simp add: bit_unsigned_iff)
qed

lemma count_leading_zeros_le: "count_leading_zeros bs \<le> 8 * length bs"
  by (induction bs) (use u8_leading_zeros_bounds(1) in \<open>auto simp: less_imp_le trans_le_add1\<close>)

lemma count_leading_zeros_zero: "be_num bs = 0 \<Longrightarrow> count_leading_zeros bs = 8 * length bs"
  by (induction bs) (auto simp: unat_eq_zero)

lemma count_leading_zeros_bounds:
  assumes "be_num bs \<noteq> 0"
  shows "count_leading_zeros bs < 8 * length bs \<and>
     2 ^ (8 * length bs - 1 - count_leading_zeros bs) \<le> be_num bs \<and>
     be_num bs < 2 ^ (8 * length bs - count_leading_zeros bs)"
  using assms
proof (induction bs)
  case (Cons b bs)
  show ?case
  proof (cases "b = 0")
    case True
    with Cons show ?thesis by simp
  next
    case False
    let ?z = "u8_leading_zeros b" and ?n = "8 * length bs"
    note z = u8_leading_zeros_bounds [OF False]
    have "2 ^ (7 - ?z) * 2 ^ ?n \<le> unat b * 2 ^ ?n" using z(2) by simp
    then have lo: "2 ^ (7 - ?z + ?n) \<le> be_num (b # bs)"
      unfolding power_add be_num.simps by (rule trans_le_add1)
    have "Suc (unat b) * 2 ^ ?n \<le> 2 ^ (8 - ?z) * 2 ^ ?n"
      using z(3) by (intro mult_le_mono1) simp
    then have hi: "be_num (b # bs) < 2 ^ (8 - ?z + ?n)"
      using be_num_less [of bs] by (simp add: power_add)
    show ?thesis using lo hi z(1) False by (simp add: add.commute)
  qed
qed simp

lemma leading_zeros_le: "wf_key a \<Longrightarrow> wf_key b \<Longrightarrow> Key_leading_zeros_in_distance a b \<le> 8 * K"
  using count_leading_zeros_le [of "Key_distance a b"]
  by (simp add: Key_leading_zeros_in_distance_def length_distance)

lemma leading_zeros_eq_max_iff:
  assumes "wf_key a" "wf_key b"
  shows "Key_leading_zeros_in_distance a b = 8 * K \<longleftrightarrow> a = b"
proof (cases "dist_num a b = 0")
  case True
  then show ?thesis
    using assms count_leading_zeros_zero [of "Key_distance a b"]
    by (simp add: Key_leading_zeros_in_distance_def length_distance dist_num_eq_0_iff)
next
  case False
  then show ?thesis
    using assms count_leading_zeros_bounds [OF False] dist_num_eq_0_iff [of a b]
    by (simp add: Key_leading_zeros_in_distance_def length_distance)
qed

lemma leading_zeros_bounds:
  assumes "wf_key a" "wf_key b" "a \<noteq> b"
  shows "Key_leading_zeros_in_distance a b < 8 * K"
    and "2 ^ (8 * K - 1 - Key_leading_zeros_in_distance a b) \<le> dist_num a b"
    and "dist_num a b < 2 ^ (8 * K - Key_leading_zeros_in_distance a b)"
  using assms count_leading_zeros_bounds [of "Key_distance a b"]
  by (simp_all add: Key_leading_zeros_in_distance_def length_distance dist_num_eq_0_iff)


section \<open>Keys with a given common prefix\<close>

lemma count_leading_zeros_nth:
  "(\<And>j. j < i \<Longrightarrow> bs ! j = 0) \<Longrightarrow> i < length bs \<Longrightarrow> bs ! i \<noteq> 0 \<Longrightarrow>
     count_leading_zeros bs = 8 * i + u8_leading_zeros (bs ! i)"
proof (induction i arbitrary: bs)
  case 0
  then show ?case by (cases bs) auto
next
  case (Suc i)
  then obtain b bs' where bs: "bs = b # bs'" by (cases bs) auto
  have "bs' ! j = 0" if "j < i" for j using Suc.prems(1) [of "Suc j"] that bs by simp
  then have "count_leading_zeros bs' = 8 * i + u8_leading_zeros (bs' ! i)"
    using Suc bs by simp
  with Suc.prems(1) [of 0] bs show ?case by simp
qed

lemma bit_u8_exp: "b < 8 \<Longrightarrow> bit (2 ^ n :: u8) b \<longleftrightarrow> b = n"
  by (auto simp: bit_exp_iff)

lemma bit_prefix_mask: "n \<le> 8 \<Longrightarrow> b < 8 \<Longrightarrow> bit (prefix_mask n) b \<longleftrightarrow> 7 < b + n"
proof (induction n)
  case (Suc n)
  have "prefix_mask (Suc n) = prefix_mask n OR push_bit (7 - n) 1"
    by (simp add: prefix_mask_def)
  with Suc show ?case by (auto simp: bit_or_iff bit_u8_exp)
qed (simp add: prefix_mask_def)

definition mix_byte :: "nat \<Rightarrow> u8 \<Rightarrow> u8 \<Rightarrow> u8" where
  "mix_byte n yours mine = (prefix_mask n AND yours) OR (mine AND NOT (prefix_mask n))"

lemma mix_byte_idem [simp]: "mix_byte n y (mix_byte n y x) = mix_byte n y x"
  by (rule bit_eqI) (auto simp: mix_byte_def bit_simps)

lemma copy_bits_loop_short:
  "n < 8 \<Longrightarrow> i < length mine \<Longrightarrow>
     copy_bits_loop (Suc m) yours mine n i = (mine[i := mix_byte n (yours ! i) (mine ! i)], n, i)"
proof (induction m arbitrary: mine)
  case (Suc m)
  let ?mine = "mine[i := mix_byte n (yours ! i) (mine ! i)]"
  have "copy_bits_loop (Suc (Suc m)) yours mine n i = copy_bits_loop (Suc m) yours ?mine n i"
    using Suc.prems by (simp add: Let_def mix_byte_def)
  also have "\<dots> = (?mine[i := mix_byte n (yours ! i) (?mine ! i)], n, i)"
    using Suc.IH [of ?mine] Suc.prems by (simp del: copy_bits_loop.simps)
  finally show ?case using Suc.prems by simp
qed (simp add: Let_def mix_byte_def)

lemma copy_bits_loop_nth:
  assumes "copy_bits_loop m yours mine n i = (v, n', i')" "i + m = length mine" "n < 8 * m"
  shows "n' = n mod 8 \<and> i' = i + n div 8 \<and> length v = length mine \<and>
     (\<forall>j < length mine. v ! j =
        (if i \<le> j \<and> j < i' then yours ! j
         else if j = i' then mix_byte n' (yours ! j) (mine ! j) else mine ! j))"
  using assms
proof (induction m arbitrary: mine n i)
  case (Suc m)
  show ?case
  proof (cases "n < 8")
    case True
    then show ?thesis using Suc.prems copy_bits_loop_short [OF True, of i mine m yours]
      by (auto simp: nth_list_update)
  next
    case False
    let ?mine = "mine[i := yours ! i]"
    have "copy_bits_loop m yours ?mine (n - 8) (Suc i) = (v, n', i')"
      using Suc.prems(1) False by simp
    from Suc.IH [OF this] Suc.prems False
    have IH: "n' = (n - 8) mod 8 \<and> i' = Suc i + (n - 8) div 8 \<and> length v = length mine \<and>
       (\<forall>j < length mine. v ! j =
          (if Suc i \<le> j \<and> j < i' then yours ! j
           else if j = i' then mix_byte n' (yours ! j) (?mine ! j) else ?mine ! j))"
      by simp
    moreover have "(n - 8) mod 8 = n mod 8" "Suc i + (n - 8) div 8 = i + n div 8"
      using False by (simp_all add: le_mod_geq le_div_geq not_less)
    ultimately show ?thesis
      by (auto simp: nth_list_update Suc_le_eq not_less dest: le_antisym)
  qed
qed simp

lemma copy_bits_loop_all:
  assumes "copy_bits_loop m yours mine n i = (v, n', i')" "i + m = length mine" "8 * m \<le> n"
  shows "i' = i + m \<and> length v = length mine \<and>
     (\<forall>j < length mine. v ! j = (if i \<le> j then yours ! j else mine ! j))"
  using assms
proof (induction m arbitrary: mine n i)
  case (Suc m)
  let ?mine = "mine[i := yours ! i]"
  have "copy_bits_loop m yours ?mine (n - 8) (Suc i) = (v, n', i')" using Suc.prems by simp
  from Suc.IH [OF this] Suc.prems
  have "i' = Suc i + m \<and> length v = length mine \<and>
     (\<forall>j < length mine. v ! j = (if Suc i \<le> j then yours ! j else ?mine ! j))"
    by simp
  then show ?case by (auto simp: nth_list_update Suc_le_eq not_less dest: le_antisym)
qed auto

lemma flipped_byte_leading_zeros:
  assumes "r < 8"
    and "w = ((push_bit (7 - r) 1 AND NOT y) OR (mix_byte r y x AND NOT (push_bit (7 - r) 1))) XOR y"
  shows "w \<noteq> 0" and "u8_leading_zeros w = r"
proof -
  have b: "bit w j \<longleftrightarrow> j = 7 - r" if "j < 8" "7 - r \<le> j" for j
    using that assms(1) bit_prefix_mask [of r j]
    by (auto simp: assms(2) mix_byte_def bit_xor_iff bit_or_iff bit_and_iff bit_not_iff
        bit_u8_exp)
  from b [of "7 - r"] have "bit w (7 - r)" by simp
  then show "w \<noteq> 0" by auto
  show "u8_leading_zeros w = r"
    by (rule u8_leading_zeros_eqI) (use b assms(1) in auto)
qed


lemma same_leading_bits_shape:
  assumes "wf_key a" "wf_key k" "n < 8 * K"
  defines "i \<equiv> n div 8"
  defines "msk \<equiv> push_bit (7 - n mod 8) 1"
  obtains v where "Key_make_exactly_n_same_leading_bits_as a k n = Key v" "length v = K" "i < K"
    "\<And>j. j < i \<Longrightarrow> v ! j = key_value k ! j"
    "v ! i = (msk AND NOT (key_value k ! i)) OR
             (mix_byte (n mod 8) (key_value k ! i) (key_value a ! i) AND NOT msk)"
    "\<And>j. i < j \<Longrightarrow> j < K \<Longrightarrow> v ! j = key_value a ! j"
proof -
  obtain u n' i' where c: "copy_bits_loop K (key_value k) (key_value a) n 0 = (u, n', i')"
    by (cases "copy_bits_loop K (key_value k) (key_value a) n 0")
  have iK: "i < K" using assms(3) by (simp add: i_def less_mult_imp_div_less mult.commute)
  from copy_bits_loop_nth [OF c] assms(1,3) i_def
  have sh: "n' = n mod 8" "i' = i" "length u = K"
    and nth: "\<And>j. j < K \<Longrightarrow> u ! j =
        (if j < i then key_value k ! j
         else if j = i then mix_byte (n mod 8) (key_value k ! j) (key_value a ! j)
         else key_value a ! j)"
    by (auto simp: wf_key_def)
  define v where "v = u[i := (msk AND NOT (key_value k ! i)) OR (u ! i AND NOT msk)]"
  have eq: "Key_make_exactly_n_same_leading_bits_as a k n = Key v"
    unfolding Key_make_exactly_n_same_leading_bits_as_def c
    using sh iK by (simp add: v_def msk_def Let_def)
  show ?thesis
    by (rule that [OF eq]) (use sh iK nth in \<open>auto simp: v_def\<close>)
qed

lemma wf_same_leading_bits:
  assumes "wf_key a" "wf_key k" "n < 8 * K"
  shows "wf_key (Key_make_exactly_n_same_leading_bits_as a k n)"
  by (rule same_leading_bits_shape [OF assms]) (simp add: wf_key_def)

lemma same_leading_bits_leading_zeros:
  assumes "wf_key a" "wf_key k" "n < 8 * K"
  shows "Key_leading_zeros_in_distance k (Key_make_exactly_n_same_leading_bits_as a k n) = n"
proof -
  obtain v where v: "Key_make_exactly_n_same_leading_bits_as a k n = Key v" "length v = K"
      "n div 8 < K" "\<And>j. j < n div 8 \<Longrightarrow> v ! j = key_value k ! j"
      "v ! (n div 8) = (push_bit (7 - n mod 8) 1 AND NOT (key_value k ! (n div 8))) OR
         (mix_byte (n mod 8) (key_value k ! (n div 8)) (key_value a ! (n div 8))
            AND NOT (push_bit (7 - n mod 8) 1))"
    using same_leading_bits_shape [OF assms] by metis
  let ?d = "Key_distance (Key v) k" and ?w = "v ! (n div 8) XOR key_value k ! (n div 8)"
  have len: "length ?d = K" using v(2) assms(2) by (simp add: length_distance wf_key_def)
  have nth: "?d ! j = v ! j XOR key_value k ! j" if "j < K" for j
    using that v(2) assms(2) by (simp add: Key_distance_def wf_key_def)
  have w: "?w \<noteq> 0" "u8_leading_zeros ?w = n mod 8"
    using flipped_byte_leading_zeros [of "n mod 8" ?w "key_value k ! (n div 8)"
        "key_value a ! (n div 8)"] v(5) by simp_all
  have "count_leading_zeros ?d = 8 * (n div 8) + u8_leading_zeros (?d ! (n div 8))"
    by (rule count_leading_zeros_nth) (use v(3,4) w nth len in auto)
  then have "count_leading_zeros ?d = n" using w nth v(3) by simp
  then show ?thesis
    by (simp add: Key_leading_zeros_in_distance_def v(1) distance_commute [of k])
qed

lemma same_leading_bits_all:
  assumes "wf_key a" "wf_key k" "8 * K \<le> n"
  shows "Key_make_exactly_n_same_leading_bits_as a k n = k"
proof -
  obtain u n' i' where c: "copy_bits_loop K (key_value k) (key_value a) n 0 = (u, n', i')"
    by (cases "copy_bits_loop K (key_value k) (key_value a) n 0")
  from copy_bits_loop_all [OF c] assms have "i' = K" "u = key_value k"
    by (auto simp: wf_key_def intro: nth_equalityI)
  then show ?thesis by (simp add: Key_make_exactly_n_same_leading_bits_as_def c)
qed

section \<open>Hexadecimal notation\<close>

lemma length_fmt_02x [simp]: "length (fmt_02x b) = 2"
  by (simp add: fmt_02x_def)

lemma length_concat_fmt_02x [simp]: "length (concat (map fmt_02x bs)) = 2 * length bs"
  by (induction bs) auto

lemma hex_digit_inj: "i < 16 \<Longrightarrow> j < 16 \<Longrightarrow> hex_digit i = hex_digit j \<longleftrightarrow> i = j"
  unfolding hex_digit_def by (rule nth_eq_iff_index_eq) simp_all

lemma u8_high_digit: "unat (w :: u8) div 16 < 16"
proof -
  have "unat w < 2 ^ 8" using unsigned_less [of w] by simp
  then show ?thesis by (simp add: less_mult_imp_div_less)
qed

lemma fmt_02x_inj: "fmt_02x a = fmt_02x b \<longleftrightarrow> a = b"
proof
  assume "fmt_02x a = fmt_02x b"
  then have "unat a div 16 = unat b div 16" "unat a mod 16 = unat b mod 16"
    using u8_high_digit by (simp_all add: fmt_02x_def hex_digit_inj)
  then have "unat a = unat b" by (metis mult_div_mod_eq)
  then show "a = b" by (simp add: word_unat_eq_iff)
qed simp

lemma Key_display_inj:
  assumes "wf_key a" "wf_key b"
  shows "Key_display a = Key_display b \<longleftrightarrow> a = b"
proof
  assume "Key_display a = Key_display b"
  then have "concat (map fmt_02x (key_value a)) = concat (map fmt_02x (key_value b))"
    by (simp add: Key_display_def)
  then have "map fmt_02x (key_value a) = map fmt_02x (key_value b)"
    by (subst (asm) concat_eq_concat_iff)
      (use assms in \<open>auto simp: wf_key_def fmt_02x_def in_set_zip\<close>)
  moreover have "inj fmt_02x" by (simp add: inj_def fmt_02x_inj)
  ultimately show "a = b" by (simp add: key.expand inj_map_eq_map)
qed simp

lemma hex_decode_specD:
  assumes "hex_decode_spec dec"
  shows "dec (concat (map fmt_02x bs)) = Inr bs" and "dec s = Inr bs \<Longrightarrow> length s = 2 * length bs"
  using assms by (auto simp: hex_decode_spec_def)

lemma from_hex_str_to_hex_string:
  assumes "hex_decode_spec dec" "wf_key k"
  shows "Key_from_hex_str dec (Key_to_hex_string k) = Inr k"
  using assms hex_decode_specD(1) [OF assms(1), of "key_value k"]
  by (simp add: Key_from_hex_str_def Key_to_hex_string_def Key_lower_hex_def wf_key_def)

lemma from_hex_str_wf: "Key_from_hex_str dec s = Inr k \<Longrightarrow> wf_key k"
  by (auto simp: Key_from_hex_str_def wf_key_def split: if_splits sum.splits)

lemma from_hex_str_no_length_error:
  assumes "hex_decode_spec dec"
  shows "Key_from_hex_str dec s \<noteq> Inl (InvalidHexLength n)"
  using hex_decode_specD(2) [OF assms, of s]
  by (auto simp: Key_from_hex_str_def split: if_splits sum.splits)

section \<open>Main results\<close>

text \<open>Claim C28. \<open>Key::distance\<close> is a metric on the 160-bit keys: zero exactly for equal keys,
  symmetric, with the triangle inequality; from a fixed key each distance is taken by one key
  only; and the comparison of the byte arrays the callers sort by is the numeric comparison.\<close>

theorem distance_metric:
  assumes "wf_key a" "wf_key b" "wf_key c"
  shows "(dist_num a b = 0 \<longleftrightarrow> a = b) \<and> Key_distance a b = Key_distance b a \<and>
    dist_num a c \<le> dist_num a b + dist_num b c \<and> (Key_distance a b = Key_distance a c \<longrightarrow> b = c) \<and>
    (Key_distance a b < Key_distance a c \<longleftrightarrow> dist_num a b < dist_num a c) \<and> dist_num a b < 2 ^ 160"
proof (intro conjI impI)
  show "b = c" if "Key_distance a b = Key_distance a c"
    using assms that by (intro dist_num_unique [of a b c]) simp_all
  show "dist_num a b < 2 ^ 160"
    using be_num_less [of "Key_distance a b"] assms by (simp add: key_simps K_def)
qed (use assms dist_num_eq_0_iff distance_commute dist_num_triangle distance_less_iff in auto)

theorem distance_metric_witness:
  "wf_key (Key (replicate 20 0)) \<and> wf_key (Key (replicate 19 0 @ [5])) \<and>
   dist_num (Key (replicate 20 0)) (Key (replicate 19 0 @ [9]))
     \<le> dist_num (Key (replicate 20 0)) (Key (replicate 19 0 @ [5])) +
       dist_num (Key (replicate 19 0 @ [5])) (Key (replicate 19 0 @ [9]))"
proof -
  have wf: "wf_key (Key (replicate 20 0))" "wf_key (Key (replicate 19 0 @ [5]))"
      "wf_key (Key (replicate 19 0 @ [9]))"
    by (simp_all add: wf_key_def K_def)
  show ?thesis using distance_metric [OF wf] wf by blast
qed

text \<open>\<open>leading_zeros_in_distance\<close> never exceeds 160, is 160 exactly for equal keys,
  and otherwise is the position of the highest bit of the distance: a distance with \<open>lz\<close>
  leading zeros lies between \<open>2 ^ (159 - lz)\<close> and \<open>2 ^ (160 - lz)\<close>.\<close>

lemma leading_zeros_position:
  assumes "wf_key a" "wf_key b"
  shows "Key_leading_zeros_in_distance a b \<le> 160 \<and>
    (Key_leading_zeros_in_distance a b = 160 \<longleftrightarrow> a = b) \<and>
    (a \<noteq> b \<longrightarrow> 2 ^ (159 - Key_leading_zeros_in_distance a b) \<le> dist_num a b \<and>
       dist_num a b < 2 ^ (160 - Key_leading_zeros_in_distance a b))"
  using leading_zeros_le [OF assms] leading_zeros_eq_max_iff [OF assms] leading_zeros_bounds [OF assms]
  by (simp add: K_def)

text \<open>\<open>make_exactly_n_same_leading_bits_as\<close> keeps a key a key, and the result shares
  exactly its first \<open>n\<close> bits with the given key (\<open>n\<close> below 160); the bytes after the one that
  holds the inverted bit are those of the receiver; from 160 bits on it is the given key.\<close>

lemma same_leading_bits_exact:
  assumes "wf_key a" "wf_key k"
  shows "let r = Key_make_exactly_n_same_leading_bits_as a k n in
    wf_key r \<and> (n < 160 \<longrightarrow> Key_leading_zeros_in_distance k r = n \<and>
      (\<forall>j. n div 8 < j \<and> j < 20 \<longrightarrow> key_value r ! j = key_value a ! j)) \<and> (160 \<le> n \<longrightarrow> r = k)"
proof (cases "n < 8 * K")
  case True
  note lz = same_leading_bits_leading_zeros [OF assms True]
    and wf = wf_same_leading_bits [OF assms True]
  obtain v where "Key_make_exactly_n_same_leading_bits_as a k n = Key v"
      "\<And>j. n div 8 < j \<Longrightarrow> j < K \<Longrightarrow> v ! j = key_value a ! j"
    using same_leading_bits_shape [OF assms True] by metis
  with lz wf True show ?thesis by (simp add: K_def)
next
  case False
  then show ?thesis using same_leading_bits_all [OF assms] assms by (simp add: K_def)
qed

text \<open>A decoder of lower-case digit pairs, as the \<open>hex\<close> crate has one.\<close>

definition hex_value :: "char \<Rightarrow> u8 option" where
  "hex_value c = map_option of_nat (position (\<lambda>d. d = c) ''0123456789abcdef'')"

fun hex_pairs :: "string \<Rightarrow> unit + bytes" where
  "hex_pairs [] = Inr []"
| "hex_pairs [c] = Inl ()"
| "hex_pairs (c # d # cs) =
     (case (hex_value c, hex_value d, hex_pairs cs) of
        (Some x, Some y, Inr bs) \<Rightarrow> Inr ((x * 16 + y) # bs)
      | _ \<Rightarrow> Inl ())"

lemma hex_value_digit: "n < 16 \<Longrightarrow> hex_value (hex_digit n) = Some (of_nat n)"
proof -
  have "\<forall>n \<in> set [0..<16]. hex_value (hex_digit n) = Some (of_nat n)"
    by (simp add: upt_rec hex_value_def hex_digit_def)
  then show "n < 16 \<Longrightarrow> ?thesis" by simp
qed

lemma hex_pairs_fmt: "hex_pairs (concat (map fmt_02x bs)) = Inr bs"
proof (induction bs)
  case (Cons b bs)
  have "unat b < 256" using unsigned_less [of b] by simp
  moreover have "of_nat (unat b div 16) * 16 + of_nat (unat b mod 16) = b"
    by (metis div_mult_mod_eq of_nat_add of_nat_mult of_nat_numeral of_nat_unat ucast_id)
  ultimately show ?case using Cons by (simp add: fmt_02x_def hex_value_digit)
qed simp

lemma hex_pairs_length: "hex_pairs s = Inr bs \<Longrightarrow> length s = 2 * length bs"
  by (induction s arbitrary: bs rule: hex_pairs.induct) (auto split: option.splits sum.splits)

lemma hex_pairs_spec: "hex_decode_spec hex_pairs"
  by (auto simp: hex_decode_spec_def hex_pairs_fmt hex_pairs_length)

text \<open>Claim C31. The hexadecimal notation round-trips: reading what \<open>serialize\<close> wrote gives the
  key back; whatever is read is a full 20-byte key; a text that is not 40 characters long is
  refused with the expected and the actual length, and no other length error can occur.\<close>

theorem hex_round_trip:
  assumes "hex_decode_spec dec"
  shows "(wf_key k \<longrightarrow> length (Key_serialize k) = 40 \<and> Key_deserialize dec (Key_serialize k) = Inr k) \<and>
    (Key_deserialize dec s = Inr k \<longrightarrow> wf_key k \<and> length s = 40) \<and>
    (length s \<noteq> 40 \<longrightarrow> Key_deserialize dec s = Inl (WrongHexStringLength 40 (length s))) \<and>
    Key_deserialize dec s \<noteq> Inl (InvalidHexLength m)"
  using from_hex_str_to_hex_string [OF assms] from_hex_str_wf from_hex_str_no_length_error [OF assms]
  by (auto simp: Key_serialize_def Key_deserialize_def Key_to_hex_string_def Key_lower_hex_def
      wf_key_def Key_from_hex_str_def K_def split: sum.splits if_splits)

theorem hex_round_trip_witness:
  "hex_decode_spec hex_pairs \<and>
   Key_deserialize hex_pairs (Key_serialize (Key (replicate 20 171))) = Inr (Key (replicate 20 171)) \<and>
   Key_deserialize hex_pairs ''ab'' = Inl (WrongHexStringLength 40 2)"
  using hex_round_trip [OF hex_pairs_spec, of "Key (replicate 20 171)" "''ab''"] hex_pairs_spec
  by (simp add: wf_key_def K_def)

end
