(* ===== verification/Messages.thy ===== *)
theory Messages
  imports Key
begin

text \<open>
  \<open>networking/node_info.rs\<close>, \<open>networking/messages.rs\<close> and
  \<open>networking/message_dispatcher.rs\<close>: contacts, requests and responses, and the dispatcher
  that serialises a message, checks its size and hands it to the UDP socket. The JSON
  serialiser, the identifier generator and the socket are fields of the environment \<open>env\<close>,
  functions over an abstract state of the outside world.
\<close>

section \<open>Contacts and messages\<close>

text \<open>\<open>std::net::SocketAddr\<close>; a version 6 address carries a flow label and a scope.\<close>

datatype ip_addr = V4 "32 word" | V6 "128 word"

datatype socket_addr = SocketAddrV4 "32 word" u16 | SocketAddrV6 "128 word" u16 u32 u32

fun SocketAddr_ip :: "socket_addr \<Rightarrow> ip_addr" where
  "SocketAddr_ip (SocketAddrV4 a p) = V4 a"
| "SocketAddr_ip (SocketAddrV6 a p fl sc) = V6 a"

record node_info =
  ni_id :: key
  ni_address :: socket_addr

definition NodeInfo_new :: "key \<Rightarrow> socket_addr \<Rightarrow> node_info" where
  "NodeInfo_new k addr = \<lparr>ni_id = k, ni_address = addr\<rparr>"

definition wf_node :: "node_info \<Rightarrow> bool" where
  "wf_node n \<longleftrightarrow> wf_key (ni_id n)"

text \<open>\<open>size_of::<SocketAddr>()\<close> is 32 bytes on the 64-bit targets.\<close>

definition size_of_SocketAddr :: nat where "size_of_SocketAddr = 32"

definition MAX_NODEINFO_SERIALIZED_SIZE :: nat where
  "MAX_NODEINFO_SERIALIZED_SIZE = K + size_of_SocketAddr"

definition OVERHEAD_SIZE :: nat where "OVERHEAD_SIZE = 128"

definition MAX_MESSAGE_SIZE :: nat where
  "MAX_MESSAGE_SIZE = OVERHEAD_SIZE + K * MAX_NODEINFO_SERIALIZED_SIZE"

type_synonym request_id = "128 word"

datatype request_type =
    Ping
  | FindNode key
  | FindValue key
  | Store key
  | GetPort key
  | GetValue key u16

datatype response_type =
    Pong
  | Nodes "node_info list"
  | StoreChunkUpdated
  | StoreOK
  | PortOK u16
  | HasValue key

datatype new_nodes_error = MoreThanKNodes

definition ResponseType_new_nodes :: "node_info list \<Rightarrow> new_nodes_error + response_type" where
  "ResponseType_new_nodes nodes =
     (if length nodes > K then Inl MoreThanKNodes else Inr (Nodes nodes))"

record request =
  rq_request_type :: request_type
  rq_sender :: node_info
  rq_receiver :: node_info
  rq_request_id :: request_id

record response =
  rs_response_type :: response_type
  rs_sender :: node_info
  rs_receiver :: node_info
  rs_request_id :: request_id

section \<open>The environment\<close>

text \<open>
  What the await of a response channel can end with: a response arrives, the sending half is
  dropped, or the timeout elapses first.
\<close>

datatype await_result = Delivered response | ChannelClosed | TimedOut

record 'w env =
  env_new_v4 :: "'w \<Rightarrow> request_id \<times> 'w"
  env_json_request :: "request \<Rightarrow> bytes option"
  env_json_response :: "response \<Rightarrow> bytes option"
  env_udp_send :: "bytes \<Rightarrow> socket_addr \<Rightarrow> 'w \<Rightarrow> nat option \<times> 'w"
  env_await :: "request_id \<Rightarrow> nat \<Rightarrow> 'w \<Rightarrow> await_result \<times> 'w"

definition Request_new ::
  "('w, 'z) env_scheme \<Rightarrow> request_type \<Rightarrow> node_info \<Rightarrow> node_info \<Rightarrow> 'w \<Rightarrow> request \<times> 'w" where
  "Request_new env rt sender receiver w =
     (let (uuid, w') = env_new_v4 env w in
      (\<lparr>rq_request_type = rt, rq_sender = sender, rq_receiver = receiver,
         rq_request_id = uuid\<rparr>, w'))"

definition Response_new ::
  "response_type \<Rightarrow> node_info \<Rightarrow> node_info \<Rightarrow> request_id \<Rightarrow> response" where
  "Response_new rt sender receiver rid =
     \<lparr>rs_response_type = rt, rs_sender = sender, rs_receiver = receiver, rs_request_id = rid\<rparr>"

section \<open>The dispatcher\<close>

datatype dispatch_error =
    SenderIsReceiver
  | SerializeFailed
  | MessageTooLarge nat nat
  | SendFailed

definition MessageDispatcher_send_request ::
  "('w, 'z) env_scheme \<Rightarrow> request \<Rightarrow> 'w \<Rightarrow> (dispatch_error + nat) \<times> 'w" where
  "MessageDispatcher_send_request env request w =
     (if rq_receiver request = rq_sender request then (Inl SenderIsReceiver, w)
      else case env_json_request env request of
             None \<Rightarrow> (Inl SerializeFailed, w)
           | Some serialized \<Rightarrow>
               if length serialized > MAX_MESSAGE_SIZE
               then (Inl (MessageTooLarge (length serialized) MAX_MESSAGE_SIZE), w)
               else case env_udp_send env serialized (ni_address (rq_receiver request)) w of
                      (None, w') \<Rightarrow> (Inl SendFailed, w')
                    | (Some len, w') \<Rightarrow> (Inr len, w'))"

definition MessageDispatcher_send_response ::
  "('w, 'z) env_scheme \<Rightarrow> response \<Rightarrow> 'w \<Rightarrow> (dispatch_error + nat) \<times> 'w" where
  "MessageDispatcher_send_response env response w =
     (case env_json_response env response of
        None \<Rightarrow> (Inl SerializeFailed, w)
      | Some serialized \<Rightarrow>
          if length serialized > MAX_MESSAGE_SIZE
          then (Inl (MessageTooLarge (length serialized) MAX_MESSAGE_SIZE), w)
          else case env_udp_send env serialized (ni_address (rs_receiver response)) w of
                 (None, w') \<Rightarrow> (Inl SendFailed, w')
               | (Some len, w') \<Rightarrow> (Inr len, w'))"

text \<open>
  The JSON text of a \<open>Nodes\<close> response holds, for the sender, the receiver and each contact
  listed, the object \<^verbatim>\<open>{"id":"...","address":"..."}\<close> with a 40-digit key and an address of
  at least six characters (\<^verbatim>\<open>[::]:0\<close>): at least 68 bytes for each of them.
\<close>

definition json_node_min :: nat where "json_node_min = 68"

definition json_response_spec :: "(response \<Rightarrow> bytes option) \<Rightarrow> bool" where
  "json_response_spec ser \<longleftrightarrow>
     (\<forall>r nodes bs. rs_response_type r = Nodes nodes \<longrightarrow>
        (\<forall>n \<in> set (rs_sender r # rs_receiver r # nodes). wf_node n) \<longrightarrow>
        ser r = Some bs \<longrightarrow> json_node_min * (length nodes + 2) \<le> length bs)"

declare MAX_NODEINFO_SERIALIZED_SIZE_def [const_defs] OVERHEAD_SIZE_def [const_defs]
  MAX_MESSAGE_SIZE_def [const_defs] size_of_SocketAddr_def [const_defs]
  json_node_min_def [const_defs]

section \<open>Facts\<close>

lemma MAX_MESSAGE_SIZE_eq: "MAX_MESSAGE_SIZE = 1168"
  by (simp add: const_defs)

lemma send_request_self:
  "rq_receiver r = rq_sender r \<Longrightarrow>
     MessageDispatcher_send_request env r w = (Inl SenderIsReceiver, w)"
  by (simp add: MessageDispatcher_send_request_def)

lemma new_nodes_ok_iff:
  "ResponseType_new_nodes ns = Inr rt \<longleftrightarrow> length ns \<le> K \<and> rt = Nodes ns"
  by (auto simp: ResponseType_new_nodes_def)

lemma send_response_too_large:
  assumes "json_response_spec (env_json_response env)"
    and "rs_response_type r = Nodes nodes" "16 \<le> length nodes"
    and "\<forall>n \<in> set (rs_sender r # rs_receiver r # nodes). wf_node n"
  shows "\<exists>e. MessageDispatcher_send_response env r w = (Inl e, w)"
proof (cases "env_json_response env r")
  case (Some bs)
  with assms have "json_node_min * (length nodes + 2) \<le> length bs"
    unfolding json_response_spec_def by blast
  with assms(3) have "MAX_MESSAGE_SIZE < length bs"
    by (simp add: MAX_MESSAGE_SIZE_eq json_node_min_def)
  then show ?thesis by (simp add: MessageDispatcher_send_response_def Some)
qed (simp add: MessageDispatcher_send_response_def)

end
