(* ===== verification/KBucket.thy ===== *)
theory KBucket
  imports Messages
begin

text \<open>
  \<open>routing/kbucket.rs\<close>: the bounded list of contacts of one distance range, kept from
  least to most recently seen. Adding to a full bucket pings the least recently seen contact;
  the ping is a parameter, an operation over the state of the outside world that may return a
  response, a \<open>NodeError\<close>, or never return.
\<close>

section \<open>Definitions\<close>

datatype kbucket_error = NotEnoughSpace | FailedToAdd

datatype routing_table_error =
    Empty
  | BucketNotFoundForId key
  | BucketNotFound
  | KBucketFailed kbucket_error
  | AttempStoreSelf

datatype node_error =
    BadResponse
  | ResponseTimeout
  | UnableToSend
  | PingMissingNode
  | RoutingTableFailed routing_table_error

type_synonym 'w pinger = "key \<Rightarrow> 'w \<Rightarrow> ((node_error + response) \<times> 'w) run"

record kbucket =
  kb_nodes :: "node_info list"
  kb_capacity :: nat
  kb_last_lookup_at :: time

definition KBucket_new :: "time \<Rightarrow> kbucket" where
  "KBucket_new now = \<lparr>kb_nodes = [], kb_capacity = K, kb_last_lookup_at = now\<rparr>"

definition KBucket_set_last_lookup_now :: "time \<Rightarrow> kbucket \<Rightarrow> kbucket" where
  "KBucket_set_last_lookup_now now b = b\<lparr>kb_last_lookup_at := now\<rparr>"

definition KBucket_get_last_lookup :: "kbucket \<Rightarrow> time" where
  "KBucket_get_last_lookup b = kb_last_lookup_at b"

definition KBucket_remove_nodeinfo :: "key \<Rightarrow> kbucket \<Rightarrow> node_info option \<times> kbucket" where
  "KBucket_remove_nodeinfo k b =
     (case position (\<lambda>n. ni_id n = k) (kb_nodes b) of
        Some pos \<Rightarrow> (let (removed, rest) = remove_at pos (kb_nodes b) in
                     (removed, b\<lparr>kb_nodes := rest\<rparr>))
      | None \<Rightarrow> (None, b))"

definition KBucket_add_nodeinfo ::
  "'w pinger \<Rightarrow> node_info \<Rightarrow> kbucket \<Rightarrow> 'w \<Rightarrow> ((kbucket_error + unit) \<times> kbucket \<times> 'w) run" where
  "KBucket_add_nodeinfo ping node_info_new b0 w =
     (let b = snd (KBucket_remove_nodeinfo (ni_id node_info_new) b0) in
      if length (kb_nodes b) < kb_capacity b
      then Ret (Inr (), b\<lparr>kb_nodes := kb_nodes b @ [node_info_new]\<rparr>, w)
      else case remove_at 0 (kb_nodes b) of
             (None, _) \<Rightarrow> Panicked
           | (Some head, rest) \<Rightarrow>
               bind_run (ping (ni_id head) w) (\<lambda>(reply, w').
                 Ret (case reply of
                        Inr _ \<Rightarrow> (Inr (), b\<lparr>kb_nodes := rest @ [head]\<rparr>, w')
                      | Inl ResponseTimeout \<Rightarrow>
                          (Inr (), b\<lparr>kb_nodes := rest @ [node_info_new]\<rparr>, w')
                      | Inl BadResponse \<Rightarrow>
                          (Inr (), b\<lparr>kb_nodes := rest @ [node_info_new]\<rparr>, w')
                      | Inl _ \<Rightarrow> (Inl FailedToAdd, b\<lparr>kb_nodes := rest\<rparr>, w'))))"

definition KBucket_get_nodeinfo :: "key \<Rightarrow> kbucket \<Rightarrow> node_info option" where
  "KBucket_get_nodeinfo k b = find (\<lambda>n. ni_id n = k) (kb_nodes b)"

definition KBucket_get_nodeinfos :: "kbucket \<Rightarrow> node_info list" where
  "KBucket_get_nodeinfos b = kb_nodes b"

text \<open>The variant of the unit tests: a full bucket is an error.\<close>

definition KBucket_add_nodeinfo_limited ::
  "node_info \<Rightarrow> kbucket \<Rightarrow> (kbucket_error + unit) \<times> kbucket" where
  "KBucket_add_nodeinfo_limited node_info b0 =
     (let b = snd (KBucket_remove_nodeinfo (ni_id node_info) b0) in
      if length (kb_nodes b) < kb_capacity b
      then (Inr (), b\<lparr>kb_nodes := kb_nodes b @ [node_info]\<rparr>)
      else (Inl NotEnoughSpace, b))"

section \<open>The invariant\<close>

text \<open>At most \<open>K\<close> contacts, no identifier twice.\<close>

definition kb_inv :: "kbucket \<Rightarrow> bool" where
  "kb_inv b \<longleftrightarrow> kb_capacity b = K \<and> length (kb_nodes b) \<le> K \<and> distinct (map ni_id (kb_nodes b))"

lemma kb_inv_new [inv_intros]: "kb_inv (KBucket_new now)"
  by (simp add: kb_inv_def KBucket_new_def)

lemma kb_inv_set_last_lookup [inv_intros]:
  "kb_inv b \<Longrightarrow> kb_inv (KBucket_set_last_lookup_now now b)"
  by (simp add: kb_inv_def KBucket_set_last_lookup_now_def)

text \<open>With unique identifiers, removal is a filter.\<close>

lemma distinct_filter_split:
  assumes "distinct (map f (xs @ y # ys))"
  shows "filter (\<lambda>x. f x \<noteq> f y) (xs @ y # ys) = xs @ ys"
proof -
  have "filter (\<lambda>x. f x \<noteq> f y) xs = xs"
    using assms by (auto simp: filter_id_conv) (metis image_eqI)
  moreover have "filter (\<lambda>x. f x \<noteq> f y) ys = ys"
    using assms by (auto simp: filter_id_conv) (metis image_eqI)
  ultimately show ?thesis by simp
qed

lemma remove_nodeinfo_filter:
  assumes "distinct (map ni_id (kb_nodes b))"
  shows "snd (KBucket_remove_nodeinfo k b) = b\<lparr>kb_nodes := filter (\<lambda>n. ni_id n \<noteq> k) (kb_nodes b)\<rparr>"
proof (cases "position (\<lambda>n. ni_id n = k) (kb_nodes b)")
  case None
  then have "filter (\<lambda>n. ni_id n \<noteq> k) (kb_nodes b) = kb_nodes b" by (simp add: filter_id_conv)
  then show ?thesis by (simp add: KBucket_remove_nodeinfo_def None)
next
  case (Some i)
  then have i: "i < length (kb_nodes b)" "ni_id (kb_nodes b ! i) = k"
    using position_SomeD [OF Some] by auto
  then have "filter (\<lambda>n. ni_id n \<noteq> k) (kb_nodes b) = take i (kb_nodes b) @ drop (Suc i) (kb_nodes b)"
    using distinct_filter_split [of ni_id "take i (kb_nodes b)" "kb_nodes b ! i"
        "drop (Suc i) (kb_nodes b)"] assms
    by (simp flip: split_at [OF i(1)] add: i(2))
  then show ?thesis using i by (simp add: KBucket_remove_nodeinfo_def Some remove_at_def)
qed

lemma remove_nodeinfo_returns: "fst (KBucket_remove_nodeinfo k b) = KBucket_get_nodeinfo k b"
  unfolding KBucket_remove_nodeinfo_def KBucket_get_nodeinfo_def position_find [symmetric]
  by (auto simp: remove_at_def dest: position_SomeD split: option.splits)

section \<open>Adding a contact\<close>

text \<open>What the bucket holds apart from the new identifier.\<close>

definition others :: "node_info \<Rightarrow> kbucket \<Rightarrow> node_info list" where
  "others n b = filter (\<lambda>m. ni_id m \<noteq> ni_id n) (kb_nodes b)"

lemma add_nodeinfo_space:
  assumes "kb_inv b" "length (others n b) < K"
  shows "KBucket_add_nodeinfo ping n b w = Ret (Inr (), b\<lparr>kb_nodes := others n b @ [n]\<rparr>, w)"
  using assms
  by (simp add: KBucket_add_nodeinfo_def remove_nodeinfo_filter kb_inv_def others_def Let_def)

lemma others_full_eq:
  assumes "kb_inv b" "\<not> length (others n b) < K"
  shows "others n b = kb_nodes b" "length (kb_nodes b) = K"
proof -
  have "length (others n b) \<le> length (kb_nodes b)" by (simp add: others_def)
  with assms have len: "length (kb_nodes b) = K" "length (others n b) = length (kb_nodes b)"
    by (auto simp: kb_inv_def)
  have "ni_id m \<noteq> ni_id n" if "m \<in> set (kb_nodes b)" for m
    using length_filter_less [OF that, of "\<lambda>m. ni_id m \<noteq> ni_id n"] len by (auto simp: others_def)
  then show "others n b = kb_nodes b" by (simp add: others_def filter_id_conv)
  show "length (kb_nodes b) = K" by (rule len)
qed

lemma add_nodeinfo_full:
  assumes "kb_inv b" "\<not> length (others n b) < K" "kb_nodes b = head # rest"
  shows "KBucket_add_nodeinfo ping n b w =
     bind_run (ping (ni_id head) w) (\<lambda>(reply, w').
       Ret (case reply of
              Inr _ \<Rightarrow> (Inr (), b\<lparr>kb_nodes := rest @ [head]\<rparr>, w')
            | Inl ResponseTimeout \<Rightarrow> (Inr (), b\<lparr>kb_nodes := rest @ [n]\<rparr>, w')
            | Inl BadResponse \<Rightarrow> (Inr (), b\<lparr>kb_nodes := rest @ [n]\<rparr>, w')
            | Inl _ \<Rightarrow> (Inl FailedToAdd, b\<lparr>kb_nodes := rest\<rparr>, w')))"
proof -
  have "snd (KBucket_remove_nodeinfo (ni_id n) b) = b"
    using assms(1) others_full_eq(1) [OF assms(1,2)]
    by (simp add: remove_nodeinfo_filter kb_inv_def others_def)
  then show ?thesis
    using assms others_full_eq [OF assms(1,2)]
    by (simp add: KBucket_add_nodeinfo_def Let_def remove_at_def kb_inv_def)
qed

lemma kb_full_obtain:
  assumes "kb_inv b" "\<not> length (others n b) < K"
  obtains head rest where "kb_nodes b = head # rest" "length rest = K - 1"
    "ni_id n \<notin> ni_id ` set (kb_nodes b)"
proof -
  have "kb_nodes b \<noteq> []" using others_full_eq [OF assms] by (auto simp: K_def)
  moreover have "ni_id n \<notin> ni_id ` set (kb_nodes b)"
    using others_full_eq(1) [OF assms] by (auto simp: others_def filter_id_conv)
  ultimately show ?thesis
    using that others_full_eq(2) [OF assms] by (cases "kb_nodes b") auto
qed

text \<open>The possible contents after an addition that returned.\<close>

lemma add_nodeinfo_cases:
  assumes "kb_inv b" "KBucket_add_nodeinfo ping n b w = Ret (res, b', w')"
  obtains (added) "res = Inr ()" "length (others n b) < K" "b' = b\<lparr>kb_nodes := others n b @ [n]\<rparr>"
  | (kept) head rest where "res = Inr ()" "kb_nodes b = head # rest" "length rest = K - 1"
      "ni_id n \<notin> ni_id ` set (kb_nodes b)" "b' = b\<lparr>kb_nodes := rest @ [head]\<rparr>"
  | (replaced) head rest where "res = Inr ()" "kb_nodes b = head # rest" "length rest = K - 1"
      "ni_id n \<notin> ni_id ` set (kb_nodes b)" "b' = b\<lparr>kb_nodes := rest @ [n]\<rparr>"
  | (dropped) head rest where "res = Inl FailedToAdd" "kb_nodes b = head # rest"
      "length rest = K - 1" "ni_id n \<notin> ni_id ` set (kb_nodes b)" "b' = b\<lparr>kb_nodes := rest\<rparr>"
proof (cases "length (others n b) < K")
  case True
  then show ?thesis using added assms by (simp add: add_nodeinfo_space)
next
  case False
  obtain head rest where hr: "kb_nodes b = head # rest" "length rest = K - 1"
      "ni_id n \<notin> ni_id ` set (kb_nodes b)"
    using kb_full_obtain [OF assms(1) False] .
  note full = add_nodeinfo_full [OF assms(1) False hr(1), of ping w]
  obtain reply w1 where "ping (ni_id head) w = Ret (reply, w1)"
    using assms(2) full by (cases "ping (ni_id head) w") auto
  then have "(case reply of
        Inr _ \<Rightarrow> (Inr (), b\<lparr>kb_nodes := rest @ [head]\<rparr>, w1)
      | Inl ResponseTimeout \<Rightarrow> (Inr (), b\<lparr>kb_nodes := rest @ [n]\<rparr>, w1)
      | Inl BadResponse \<Rightarrow> (Inr (), b\<lparr>kb_nodes := rest @ [n]\<rparr>, w1)
      | Inl _ \<Rightarrow> (Inl FailedToAdd, b\<lparr>kb_nodes := rest\<rparr>, w1)) = (res, b', w')"
    using assms(2) full by simp
  then show ?thesis
    using kept [OF _ hr] replaced [OF _ hr] dropped [OF _ hr]
    by (auto split: sum.splits node_error.splits)
qed

lemma kb_inv_add [inv_intros]:
  assumes "kb_inv b" "KBucket_add_nodeinfo ping n b w = Ret (res, b', w')"
  shows "kb_inv b'"
  using assms
proof (cases rule: add_nodeinfo_cases)
  case added
  moreover have "distinct (map ni_id (others n b))"
    using assms(1) by (simp add: kb_inv_def others_def distinct_map_filter)
  ultimately show ?thesis using assms(1) by (auto simp: kb_inv_def others_def)
qed (use assms(1) in \<open>auto simp: kb_inv_def\<close>)

lemma add_nodeinfo_ids:
  assumes "kb_inv b" "KBucket_add_nodeinfo ping n b w = Ret (res, b', w')"
  shows "set (kb_nodes b') \<subseteq> insert n (set (kb_nodes b))"
  using assms by (cases rule: add_nodeinfo_cases) (auto simp: others_def)

lemma kb_inv_add_limited [inv_intros]:
  assumes "kb_inv b"
  shows "kb_inv (snd (KBucket_add_nodeinfo_limited n b))"
proof -
  have "length (others n b) \<le> K"
    using assms unfolding kb_inv_def others_def by (blast intro: order_trans [OF length_filter_le])
  moreover have "distinct (map ni_id (others n b))" "ni_id n \<notin> ni_id ` set (others n b)"
    using assms by (auto simp: kb_inv_def others_def distinct_map_filter)
  ultimately show ?thesis
    using assms
    by (simp add: KBucket_add_nodeinfo_limited_def remove_nodeinfo_filter kb_inv_def Let_def
        flip: others_def)
qed

lemma get_nodeinfo_SomeD: "KBucket_get_nodeinfo k b = Some n \<Longrightarrow> n \<in> set (kb_nodes b) \<and> ni_id n = k"
  by (auto simp: KBucket_get_nodeinfo_def find_Some_iff)

lemma get_nodeinfo_mem:
  assumes "distinct (map ni_id (kb_nodes b))" "n \<in> set (kb_nodes b)"
  shows "KBucket_get_nodeinfo (ni_id n) b = Some n"
proof -
  obtain m where m: "KBucket_get_nodeinfo (ni_id n) b = Some m"
    using assms(2) by (cases "KBucket_get_nodeinfo (ni_id n) b")
      (auto simp: KBucket_get_nodeinfo_def find_None_iff)
  then have "m = n"
    using assms get_nodeinfo_SomeD [OF m] by (auto simp: distinct_map inj_on_def)
  with m show ?thesis by simp
qed

section \<open>Main results\<close>

text \<open>Claim C21. What \<open>KBucket::add_nodeinfo\<close> does on every path: with room, the contact ends
  up last and an older entry with its identifier is gone; a full bucket pings its head and, when
  the head answers, moves it to the back and forgets the new contact, when the head times out or
  answers badly, puts the new contact in its place, and for any other error drops the head and
  reports \<open>FailedToAdd\<close>; a ping that never returns blocks it. The bucket keeps at most \<open>K\<close>
  contacts with distinct identifiers, and the removal of the head never panics.\<close>

theorem bucket_add_outcome:
  assumes "kb_inv b"
  shows "(length (others n b) < K \<longrightarrow>
      KBucket_add_nodeinfo ping n b w = Ret (Inr (), b\<lparr>kb_nodes := others n b @ [n]\<rparr>, w)) \<and>
    (K \<le> length (others n b) \<longrightarrow> (\<exists>head rest. kb_nodes b = head # rest \<and>
      (\<forall>resp w'. ping (ni_id head) w = Ret (Inr resp, w') \<longrightarrow>
        KBucket_add_nodeinfo ping n b w = Ret (Inr (), b\<lparr>kb_nodes := rest @ [head]\<rparr>, w')) \<and>
      (\<forall>e w'. ping (ni_id head) w = Ret (Inl e, w') \<longrightarrow> KBucket_add_nodeinfo ping n b w =
        Ret (if e = ResponseTimeout \<or> e = BadResponse then (Inr (), b\<lparr>kb_nodes := rest @ [n]\<rparr>, w')
             else (Inl FailedToAdd, b\<lparr>kb_nodes := rest\<rparr>, w'))) \<and>
      (ping (ni_id head) w = Blocked \<longrightarrow> KBucket_add_nodeinfo ping n b w = Blocked))) \<and>
    (\<forall>r b' w'. KBucket_add_nodeinfo ping n b w = Ret (r, b', w') \<longrightarrow> kb_inv b') \<and>
    ((\<forall>k. ping k w \<noteq> Panicked) \<longrightarrow> KBucket_add_nodeinfo ping n b w \<noteq> Panicked)"
proof (cases "length (others n b) < K")
  case True
  then show ?thesis
    using add_nodeinfo_space [OF assms True, of ping w] kb_inv_add [OF assms, of ping n w] by simp
next
  case False
  obtain head rest where hr: "kb_nodes b = head # rest"
    using kb_full_obtain [OF assms False] by metis
  note full = add_nodeinfo_full [OF assms False hr, of ping w]
  have "KBucket_add_nodeinfo ping n b w \<noteq> Panicked" if "\<forall>k. ping k w \<noteq> Panicked"
    using that full by (cases "ping (ni_id head) w") auto
  then show ?thesis
    using False hr full kb_inv_add [OF assms, of ping n w]
    by (auto split: node_error.splits)
qed

text \<open>A bucket with \<open>K\<close> contacts.\<close>

definition bucket_contact :: "nat \<Rightarrow> node_info" where
  "bucket_contact i = NodeInfo_new (Key (replicate 20 (of_nat i))) (SocketAddrV4 0 0)"

definition full_bucket :: kbucket where
  "full_bucket = (KBucket_new 0)\<lparr>kb_nodes := map bucket_contact [0..<20]\<rparr>"

theorem bucket_add_outcome_witness:
  "kb_inv full_bucket \<and> K \<le> length (others (bucket_contact 20) full_bucket) \<and>
   KBucket_add_nodeinfo (\<lambda>k w. Ret (Inl ResponseTimeout, w)) (bucket_contact 20) full_bucket ()
     = Ret (Inr (), full_bucket\<lparr>kb_nodes := map bucket_contact [1..<20] @ [bucket_contact 20]\<rparr>, ())"
proof -
  have inv: "kb_inv full_bucket" by code_simp
  have full: "K \<le> length (others (bucket_contact 20) full_bucket)" by code_simp
  have "kb_nodes full_bucket = bucket_contact 0 # map bucket_contact [1..<20]" by code_simp
  with bucket_add_outcome [OF inv, of "bucket_contact 20" "\<lambda>k w. Ret (Inl ResponseTimeout, w)" "()"] full
  have "KBucket_add_nodeinfo (\<lambda>k w. Ret (Inl ResponseTimeout, w)) (bucket_contact 20) full_bucket ()
     = Ret (Inr (), full_bucket\<lparr>kb_nodes := map bucket_contact [1..<20] @ [bucket_contact 20]\<rparr>, ())" by simp
  with inv full show ?thesis by blast
qed

end
