(* ===== verification/Routing_Table.thy ===== *)
theory Routing_Table
  imports KBucket
begin

text \<open>
  \<open>routing/routing_table.rs\<close>: one bucket for each of the 160 distance ranges. Bucket
  \<open>i\<close> holds the contacts whose distance to this node lies in \<open>[2 ^ i, 2 ^ (i + 1))\<close>; the
  invariant \<open>rt_inv\<close> says so. \<open>get_n_closest\<close> is the widening search of the source, over
  the buckets above and below the one of the target, with its two loops.
\<close>

section \<open>Definitions\<close>

definition DEFAULT_BUCKET_REFRESH_INTERVAL_S :: nat where
  "DEFAULT_BUCKET_REFRESH_INTERVAL_S = 3600"

definition NUM_BUCKETS :: nat where "NUM_BUCKETS = K * 8"

declare DEFAULT_BUCKET_REFRESH_INTERVAL_S_def [const_defs] NUM_BUCKETS_def [const_defs]

record routing_table =
  rt_id :: key
  rt_buckets :: "kbucket list"

definition RoutingTable_new :: "time \<Rightarrow> key \<Rightarrow> routing_table" where
  "RoutingTable_new now k = \<lparr>rt_id = k, rt_buckets = replicate NUM_BUCKETS (KBucket_new now)\<rparr>"

definition RoutingTable_get_bucket_index :: "routing_table \<Rightarrow> key \<Rightarrow> routing_table_error + nat" where
  "RoutingTable_get_bucket_index rt k =
     (let lz = Key_leading_zeros_in_distance (rt_id rt) k in
      if lz = NUM_BUCKETS then Inl AttempStoreSelf
      else if lz > NUM_BUCKETS then Inl (BucketNotFoundForId k)
      else Inr (NUM_BUCKETS - 1 - lz))"

definition RoutingTable_store_nodeinfo ::
  "'w pinger \<Rightarrow> node_info \<Rightarrow> routing_table \<Rightarrow> 'w \<Rightarrow>
     ((routing_table_error + unit) \<times> routing_table \<times> 'w) run" where
  "RoutingTable_store_nodeinfo ping n rt w =
     (case RoutingTable_get_bucket_index rt (ni_id n) of
        Inl e \<Rightarrow> Ret (Inl e, rt, w)
      | Inr i \<Rightarrow>
          if i < length (rt_buckets rt)
          then bind_run (KBucket_add_nodeinfo ping n (rt_buckets rt ! i) w) (\<lambda>(r, b, w').
                 Ret (case r of Inl e \<Rightarrow> Inl (KBucketFailed e) | Inr _ \<Rightarrow> Inr (),
                      rt\<lparr>rt_buckets := (rt_buckets rt)[i := b]\<rparr>, w'))
          else Ret (Inl (BucketNotFoundForId (ni_id n)), rt, w))"

fun RoutingTable_store_nodeinfo_multiple ::
  "'w pinger \<Rightarrow> node_info list \<Rightarrow> routing_table \<Rightarrow> 'w \<Rightarrow>
     ((routing_table_error + unit) \<times> routing_table \<times> 'w) run" where
  "RoutingTable_store_nodeinfo_multiple ping [] rt w = Ret (Inr (), rt, w)"
| "RoutingTable_store_nodeinfo_multiple ping (n # ns) rt w =
     bind_run (RoutingTable_store_nodeinfo ping n rt w) (\<lambda>(r, rt', w').
       case r of
         Inl e \<Rightarrow> Ret (Inl e, rt', w')
       | Inr _ \<Rightarrow> RoutingTable_store_nodeinfo_multiple ping ns rt' w')"

definition RoutingTable_get_nodeinfo ::
  "routing_table \<Rightarrow> key \<Rightarrow> (routing_table_error + node_info option) run" where
  "RoutingTable_get_nodeinfo rt k =
     (case RoutingTable_get_bucket_index rt k of
        Inl e \<Rightarrow> Ret (Inl e)
      | Inr i \<Rightarrow> if i < length (rt_buckets rt)
                 then Ret (Inr (KBucket_get_nodeinfo k (rt_buckets rt ! i)))
                 else Panicked)"

text \<open>
  The inner loop of \<open>get_n_closest\<close>: take buckets downwards until as many contacts are taken
  as from the bucket above.
\<close>

function take_down :: "kbucket list \<Rightarrow> nat \<Rightarrow> nat \<Rightarrow> node_info list \<Rightarrow> int \<Rightarrow> node_info list \<times> int" where
  "take_down bs got_u_len got_d_len result i_down =
     (if got_d_len < got_u_len \<and> i_down \<ge> 0
      then let got_d = KBucket_get_nodeinfos (bs ! nat i_down) in
           take_down bs got_u_len (got_d_len + length got_d) (result @ got_d) (i_down - 1)
      else (result, i_down))"
  by pat_completeness auto
termination
  by (relation "measure (\<lambda>(bs, u, d, result, i_down). nat (i_down + 1))") auto

declare take_down.simps [simp del]

text \<open>
  One round of the outer loop: the bucket above, if there is one, then the buckets below.
  \<open>i_up\<close> starts at the index plus one and only grows, so its cast to \<open>usize\<close> is the
  identity; \<open>i_down\<close> is signed.
\<close>

definition closest_round ::
  "kbucket list \<Rightarrow> node_info list \<times> nat \<times> int \<Rightarrow> bool \<times> node_info list \<times> nat \<times> int" where
  "closest_round bs = (\<lambda>(result, i_up, i_down).
     let (taken_u, got_u, i_up') =
           (if i_up < length bs then (True, KBucket_get_nodeinfos (bs ! i_up), i_up + 1)
            else (False, [], i_up));
         result1 = result @ got_u
     in if i_down \<ge> 0
        then let got_d = KBucket_get_nodeinfos (bs ! nat i_down);
                 (result2, i_down') =
                   take_down bs (length got_u) (length got_d) (result1 @ got_d) (i_down - 1)
             in (True, result2, i_up', i_down')
        else (taken_u, result1, i_up', i_down))"

lemma take_down_le: "take_down bs u d result i_down = (result', i') \<Longrightarrow> i' \<le> i_down"
proof (induction bs u d result i_down rule: take_down.induct)
  case (1 bs u d result i_down)
  show ?case
  proof (cases "d < u \<and> i_down \<ge> 0")
    case True
    with "1.prems" have "take_down bs u (d + length (KBucket_get_nodeinfos (bs ! nat i_down)))
        (result @ KBucket_get_nodeinfos (bs ! nat i_down)) (i_down - 1) = (result', i')"
      by (simp add: take_down.simps [of bs u d] Let_def)
    from "1.IH" [OF True refl this] show ?thesis by simp
  next
    case False
    then show ?thesis using "1.prems" by (auto simp: take_down.simps [of bs u d])
  qed
qed

lemma closest_round_progress:
  assumes "closest_round bs (result, i_up, i_down) = (taken, result', i_up', i_down')"
  shows "nat (int (length bs) - int i_up') + nat (i_down' + 1) + of_bool taken
     < nat (int (length bs) - int i_up) + nat (i_down + 1) + 1"
  using assms
  by (auto simp: closest_round_def Let_def split: if_splits prod.splits dest!: take_down_le)

function closest_loop ::
  "kbucket list \<Rightarrow> nat \<Rightarrow> bool \<Rightarrow> node_info list \<times> nat \<times> int \<Rightarrow> node_info list" where
  "closest_loop bs n taken_some (result, i_up, i_down) =
     (if length result < n \<and> taken_some
      then let (taken, st) = closest_round bs (result, i_up, i_down)
           in closest_loop bs n taken st
      else result)"
  by pat_completeness auto
termination
proof (relation "measure (\<lambda>(bs, n, taken, (result, i_up, i_down)).
    nat (int (length bs) - int i_up) + nat (i_down + 1) + of_bool taken)", goal_cases)
  case 1
  show ?case by simp
next
  case (2 bs n taken_some result i_up i_down x taken st)
  obtain result' i_up' i_down' where st: "st = (result', i_up', i_down')" by (cases st)
  from 2 st have "closest_round bs (result, i_up, i_down) = (taken, result', i_up', i_down')"
    by simp
  from closest_round_progress [OF this] 2(1) st show ?case by simp
qed

declare closest_loop.simps [simp del]

definition RoutingTable_get_n_closest ::
  "routing_table \<Rightarrow> key \<Rightarrow> nat \<Rightarrow> (routing_table_error + node_info list) run" where
  "RoutingTable_get_n_closest rt k n =
     (case RoutingTable_get_bucket_index rt k of
        Inl e \<Rightarrow> Ret (Inl e)
      | Inr i \<Rightarrow>
          if i < length (rt_buckets rt)
          then let result = closest_loop (rt_buckets rt) n True
                     (KBucket_get_nodeinfos (rt_buckets rt ! i), i + 1, int i - 1)
               in if result = [] then Ret (Inl Empty)
                  else Ret (Inr (take n (sort_key (\<lambda>m. Key_distance (ni_id m) k) result)))
          else Panicked)"

definition RoutingTable_get_alpha_closest ::
  "routing_table \<Rightarrow> key \<Rightarrow> (routing_table_error + node_info list) run" where
  "RoutingTable_get_alpha_closest rt k = RoutingTable_get_n_closest rt k ALPHA"

definition RoutingTable_get_k_closest ::
  "routing_table \<Rightarrow> key \<Rightarrow> (routing_table_error + node_info list) run" where
  "RoutingTable_get_k_closest rt k = RoutingTable_get_n_closest rt k K"

definition RoutingTable_lookup_get_n_closest ::
  "time \<Rightarrow> routing_table \<Rightarrow> key \<Rightarrow> nat \<Rightarrow>
     ((routing_table_error + node_info list) \<times> routing_table) run" where
  "RoutingTable_lookup_get_n_closest now rt k n =
     (case RoutingTable_get_bucket_index rt k of
        Inl e \<Rightarrow> Ret (Inl e, rt)
      | Inr i \<Rightarrow>
          if i < length (rt_buckets rt)
          then let rt' = rt\<lparr>rt_buckets :=
                     (rt_buckets rt)[i := KBucket_set_last_lookup_now now (rt_buckets rt ! i)]\<rparr>
               in bind_run (RoutingTable_get_n_closest rt' k n) (\<lambda>r. Ret (r, rt'))
          else Panicked)"

definition RoutingTable_lookup_get_alpha_closest ::
  "time \<Rightarrow> routing_table \<Rightarrow> key \<Rightarrow> ((routing_table_error + node_info list) \<times> routing_table) run" where
  "RoutingTable_lookup_get_alpha_closest now rt k = RoutingTable_lookup_get_n_closest now rt k ALPHA"

definition RoutingTable_lookup_get_k_closest ::
  "time \<Rightarrow> routing_table \<Rightarrow> key \<Rightarrow> ((routing_table_error + node_info list) \<times> routing_table) run" where
  "RoutingTable_lookup_get_k_closest now rt k = RoutingTable_lookup_get_n_closest now rt k K"

definition RoutingTable_get_all_nodeinfos :: "routing_table \<Rightarrow> node_info list" where
  "RoutingTable_get_all_nodeinfos rt = concat (map KBucket_get_nodeinfos (rt_buckets rt))"

definition RoutingTable_get_random_id_for_bucket :: "routing_table \<Rightarrow> bytes \<Rightarrow> nat \<Rightarrow> key" where
  "RoutingTable_get_random_id_for_bucket rt rng bucket_i =
     Key_make_exactly_n_same_leading_bits_as (Key_new_random rng) (rt_id rt) (160 - bucket_i - 1)"

text \<open>
  \<open>SystemTime::elapsed\<close> fails, and its \<open>unwrap\<close> panics, when the clock is behind the
  recorded time. \<open>rng i\<close> are the random bytes drawn for bucket \<open>i\<close>.
\<close>

definition RoutingTable_get_node_ids_for_refresh ::
  "time \<Rightarrow> (nat \<Rightarrow> bytes) \<Rightarrow> routing_table \<Rightarrow> key list run" where
  "RoutingTable_get_node_ids_for_refresh now rng rt =
     (if \<forall>b \<in> set (rt_buckets rt). KBucket_get_last_lookup b \<le> now
      then Ret (map (\<lambda>i. RoutingTable_get_random_id_for_bucket rt (rng i) i)
             (filter (\<lambda>i. (now - KBucket_get_last_lookup (rt_buckets rt ! i)) div 10 ^ 9
                          \<ge> DEFAULT_BUCKET_REFRESH_INTERVAL_S)
               [0..<length (rt_buckets rt)]))
      else Panicked)"

text \<open>The reference search of the unit tests: sort everything.\<close>

definition RoutingTable_get_n_closest_slow ::
  "routing_table \<Rightarrow> key \<Rightarrow> nat \<Rightarrow> routing_table_error + node_info list" where
  "RoutingTable_get_n_closest_slow rt k n =
     (let all_nodes = concat (map KBucket_get_nodeinfos (rt_buckets rt)) in
      if all_nodes = [] then Inl Empty
      else Inr (take n (sort_key (\<lambda>m. Key_distance (ni_id m) k) all_nodes)))"

definition RoutingTable_store_nodeinfo_limited ::
  "node_info \<Rightarrow> routing_table \<Rightarrow> (routing_table_error + unit) \<times> routing_table" where
  "RoutingTable_store_nodeinfo_limited n rt =
     (case RoutingTable_get_bucket_index rt (ni_id n) of
        Inl e \<Rightarrow> (Inl e, rt)
      | Inr i \<Rightarrow>
          if i < length (rt_buckets rt)
          then let (r, b) = KBucket_add_nodeinfo_limited n (rt_buckets rt ! i)
               in (case r of Inl e \<Rightarrow> Inl (KBucketFailed e) | Inr _ \<Rightarrow> Inr (),
                   rt\<lparr>rt_buckets := (rt_buckets rt)[i := b]\<rparr>)
          else (Inl (BucketNotFoundForId (ni_id n)), rt))"


section \<open>Bucket ranges\<close>

lemma exp_interval_unique:
  assumes "2 ^ i \<le> (x::nat)" "x < 2 ^ Suc i" "2 ^ j \<le> x" "x < 2 ^ Suc j"
  shows "i = j"
proof -
  have "(2::nat) ^ i < 2 ^ Suc j" and "(2::nat) ^ j < 2 ^ Suc i" using assms by linarith+
  then have "i < Suc j" and "j < Suc i"
    by (auto intro: power_less_imp_less_exp [of "2::nat"] simp del: power_Suc)
  then show ?thesis by simp
qed

lemma get_bucket_index_self:
  "wf_key (rt_id rt) \<Longrightarrow> RoutingTable_get_bucket_index rt (rt_id rt) = Inl AttempStoreSelf"
  using leading_zeros_eq_max_iff [of "rt_id rt" "rt_id rt"]
  by (simp add: RoutingTable_get_bucket_index_def NUM_BUCKETS_def mult.commute)

lemma get_bucket_index_other:
  assumes "wf_key (rt_id rt)" "wf_key k" "k \<noteq> rt_id rt"
  obtains i where "RoutingTable_get_bucket_index rt k = Inr i" "i < NUM_BUCKETS"
    "2 ^ i \<le> dist_num (rt_id rt) k" "dist_num (rt_id rt) k < 2 ^ Suc i"
proof -
  let ?lz = "Key_leading_zeros_in_distance (rt_id rt) k"
  note b = leading_zeros_bounds [OF assms(1,2) assms(3) [symmetric]]
  have "RoutingTable_get_bucket_index rt k = Inr (NUM_BUCKETS - 1 - ?lz)"
    using b(1) by (simp add: RoutingTable_get_bucket_index_def NUM_BUCKETS_def mult.commute)
  moreover have "Suc (NUM_BUCKETS - 1 - ?lz) = 8 * K - ?lz"
    using b(1) by (simp add: NUM_BUCKETS_def)
  ultimately show ?thesis
    using that [of "NUM_BUCKETS - 1 - ?lz"] b by (simp add: NUM_BUCKETS_def mult.commute)
qed

lemma get_bucket_index_iff:
  assumes "wf_key (rt_id rt)" "wf_key k"
  shows "RoutingTable_get_bucket_index rt k = Inr i \<longleftrightarrow>
     2 ^ i \<le> dist_num (rt_id rt) k \<and> dist_num (rt_id rt) k < 2 ^ Suc i"
proof (cases "k = rt_id rt")
  case True
  then show ?thesis using assms by (simp add: get_bucket_index_self dist_num_self)
next
  case False
  obtain j where "RoutingTable_get_bucket_index rt k = Inr j"
      "2 ^ j \<le> dist_num (rt_id rt) k" "dist_num (rt_id rt) k < 2 ^ Suc j"
    using get_bucket_index_other [OF assms False] .
  then show ?thesis using exp_interval_unique by auto
qed

lemma get_bucket_index_bound:
  assumes "wf_key (rt_id rt)" "wf_key k" "RoutingTable_get_bucket_index rt k = Inr i"
  shows "i < NUM_BUCKETS" "k \<noteq> rt_id rt"
proof -
  show ne: "k \<noteq> rt_id rt" using assms get_bucket_index_self by force
  show "i < NUM_BUCKETS"
    by (rule get_bucket_index_other [OF assms(1,2) ne]) (use assms(3) in auto)
qed

lemma get_bucket_index_cases:
  assumes "wf_key (rt_id rt)" "wf_key k"
  obtains (self) "k = rt_id rt" "RoutingTable_get_bucket_index rt k = Inl AttempStoreSelf"
  | (bucket) i where "k \<noteq> rt_id rt" "RoutingTable_get_bucket_index rt k = Inr i" "i < NUM_BUCKETS"
  using assms get_bucket_index_self get_bucket_index_other by metis

text \<open>
  Where the contacts of each bucket lie seen from a target in bucket \<open>j\<close>: those of the same
  bucket nearer than \<open>2 ^ j\<close>, those of the lower buckets between \<open>2 ^ j\<close> and
  \<open>2 ^ (j + 1)\<close>, those of a higher bucket \<open>i\<close> beyond \<open>2 ^ i\<close>.
\<close>

lemma xor_same_interval:
  assumes "2 ^ j \<le> (x::nat)" "x < 2 ^ Suc j" "2 ^ j \<le> y" "y < 2 ^ Suc j"
  shows "x XOR y < 2 ^ j"
proof -
  have "\<not> bit (x XOR y) i" if "j \<le> i" for i
  proof (cases "i = j")
    case True
    then show ?thesis using assms by (simp add: bit_xor_iff nat_top_bit)
  next
    case False
    then have "Suc j \<le> i" using that by simp
    then show ?thesis
      using assms(2,4) nat_less_exp_iff_bits [of x "Suc j"] nat_less_exp_iff_bits [of y "Suc j"]
      by (simp add: bit_xor_iff)
  qed
  then show ?thesis by (simp add: nat_less_exp_iff_bits)
qed

lemma xor_lower_interval:
  assumes "(x::nat) < 2 ^ j" "2 ^ j \<le> y" "y < 2 ^ Suc j"
  shows "2 ^ j \<le> x XOR y" "x XOR y < 2 ^ Suc j"
proof -
  have "\<not> bit x j" using assms(1) nat_less_exp_iff_bits [of x j] by simp
  then have "bit (x XOR y) j" using assms by (simp add: bit_xor_iff nat_top_bit)
  then show "2 ^ j \<le> x XOR y" by (rule nat_exp_le_of_bit)
  have "x < 2 ^ Suc j" using assms(1) by simp
  then show "x XOR y < 2 ^ Suc j" using assms(3) by (rule xor_less_exp)
qed

lemma target_distance_same_bucket:
  assumes "wf_key (rt_id rt)" "wf_key t" "wf_key x"
    and "RoutingTable_get_bucket_index rt t = Inr j" "RoutingTable_get_bucket_index rt x = Inr j"
  shows "dist_num x t < 2 ^ j"
  using assms xor_same_interval [of j "dist_num (rt_id rt) x" "dist_num (rt_id rt) t"]
  by (simp add: get_bucket_index_iff dist_num_relay [of x t "rt_id rt"])

lemma target_distance_other_bucket:
  assumes "wf_key (rt_id rt)" "wf_key t" "wf_key x" "i \<noteq> j"
    and "RoutingTable_get_bucket_index rt t = Inr j" "RoutingTable_get_bucket_index rt x = Inr i"
  shows "2 ^ max i j \<le> dist_num x t" "dist_num x t < 2 ^ Suc (max i j)"
proof -
  let ?x = "dist_num (rt_id rt) x" and ?t = "dist_num (rt_id rt) t"
  have i: "2 ^ i \<le> ?x" "?x < 2 ^ Suc i" and j: "2 ^ j \<le> ?t" "?t < 2 ^ Suc j"
    using assms by (simp_all add: get_bucket_index_iff)
  have eq: "dist_num x t = ?x XOR ?t" using assms dist_num_relay by blast
  have "2 ^ max i j \<le> dist_num x t \<and> dist_num x t < 2 ^ Suc (max i j)"
  proof (cases "i < j")
    case True
    then have "(2::nat) ^ Suc i \<le> 2 ^ j" by (intro power_increasing) auto
    with i have "?x < 2 ^ j" by linarith
    with True show ?thesis using xor_lower_interval [OF _ j] eq by (simp add: max_def)
  next
    case False
    with assms(4) have "j < i" by simp
    then have "(2::nat) ^ Suc j \<le> 2 ^ i" by (intro power_increasing) auto
    with j have "?t < 2 ^ i" by linarith
    with \<open>j < i\<close> show ?thesis using xor_lower_interval [OF _ i] eq
      by (simp add: max_def xor.commute)
  qed
  then show "2 ^ max i j \<le> dist_num x t" "dist_num x t < 2 ^ Suc (max i j)" by auto
qed


section \<open>The invariant\<close>

definition rt_inv :: "routing_table \<Rightarrow> bool" where
  "rt_inv rt \<longleftrightarrow> wf_key (rt_id rt) \<and> length (rt_buckets rt) = NUM_BUCKETS \<and>
     (\<forall>i < NUM_BUCKETS. kb_inv (rt_buckets rt ! i) \<and>
        (\<forall>n \<in> set (kb_nodes (rt_buckets rt ! i)).
           wf_node n \<and> RoutingTable_get_bucket_index rt (ni_id n) = Inr i))"

lemma get_bucket_index_frame [simp]:
  "RoutingTable_get_bucket_index (rt\<lparr>rt_buckets := bs\<rparr>) k = RoutingTable_get_bucket_index rt k"
  by (simp add: RoutingTable_get_bucket_index_def)

lemma rt_invD:
  assumes "rt_inv rt"
  shows "wf_key (rt_id rt)" "length (rt_buckets rt) = NUM_BUCKETS"
    and "i < NUM_BUCKETS \<Longrightarrow> kb_inv (rt_buckets rt ! i)"
    and "i < NUM_BUCKETS \<Longrightarrow> n \<in> set (kb_nodes (rt_buckets rt ! i)) \<Longrightarrow> wf_node n"
    and "i < NUM_BUCKETS \<Longrightarrow> n \<in> set (kb_nodes (rt_buckets rt ! i)) \<Longrightarrow>
       RoutingTable_get_bucket_index rt (ni_id n) = Inr i"
  using assms by (auto simp: rt_inv_def)

lemma rt_inv_new [inv_intros]: "wf_key k \<Longrightarrow> rt_inv (RoutingTable_new now k)"
  using kb_inv_new by (auto simp: rt_inv_def RoutingTable_new_def KBucket_new_def)

lemma rt_inv_update:
  assumes "rt_inv rt" "i < NUM_BUCKETS" "kb_inv b"
    and "\<And>n. n \<in> set (kb_nodes b) \<Longrightarrow>
       wf_node n \<and> RoutingTable_get_bucket_index rt (ni_id n) = Inr i"
  shows "rt_inv (rt\<lparr>rt_buckets := (rt_buckets rt)[i := b]\<rparr>)"
  using assms by (auto simp: rt_inv_def nth_list_update)

text \<open>
  What storing a contact does, given the invariant: the node itself is refused, otherwise the
  contact's own bucket decides.
\<close>

lemma store_nodeinfo_self:
  "rt_inv rt \<Longrightarrow> ni_id n = rt_id rt \<Longrightarrow>
     RoutingTable_store_nodeinfo ping n rt w = Ret (Inl AttempStoreSelf, rt, w)"
  using get_bucket_index_self [of rt]
  by (simp add: RoutingTable_store_nodeinfo_def rt_invD(1))

lemma store_nodeinfo_bucket:
  assumes "rt_inv rt" "RoutingTable_get_bucket_index rt (ni_id n) = Inr i" "i < NUM_BUCKETS"
  shows "RoutingTable_store_nodeinfo ping n rt w =
     bind_run (KBucket_add_nodeinfo ping n (rt_buckets rt ! i) w) (\<lambda>(r, b, w').
       Ret (case r of Inl e \<Rightarrow> Inl (KBucketFailed e) | Inr _ \<Rightarrow> Inr (),
            rt\<lparr>rt_buckets := (rt_buckets rt)[i := b]\<rparr>, w'))"
  using assms by (simp add: RoutingTable_store_nodeinfo_def rt_invD(2))

lemma store_nodeinfo_cases:
  assumes "rt_inv rt" "wf_node n" "RoutingTable_store_nodeinfo ping n rt w = Ret (r, rt', w')"
  obtains (self) "ni_id n = rt_id rt" "r = Inl AttempStoreSelf" "rt' = rt"
  | (bucket) i b rb where "ni_id n \<noteq> rt_id rt"
      "RoutingTable_get_bucket_index rt (ni_id n) = Inr i" "i < NUM_BUCKETS"
      "KBucket_add_nodeinfo ping n (rt_buckets rt ! i) w = Ret (rb, b, w')"
      "r = (case rb of Inl e \<Rightarrow> Inl (KBucketFailed e) | Inr _ \<Rightarrow> Inr ())"
      "rt' = rt\<lparr>rt_buckets := (rt_buckets rt)[i := b]\<rparr>"
proof -
  have "wf_key (ni_id n)" using assms(2) by (simp add: wf_node_def)
  with rt_invD(1) [OF assms(1)] show ?thesis
  proof (cases rule: get_bucket_index_cases)
    case self
    then show ?thesis using that(1) assms(3) store_nodeinfo_self [OF assms(1) self(1), of ping w]
      by simp
  next
    case (bucket i)
    then show ?thesis
      using that(2) assms(3) store_nodeinfo_bucket [OF assms(1) bucket(2,3), of ping w]
      by (auto simp: bind_run_Ret_iff)
  qed
qed

lemma rt_inv_store [inv_intros]:
  assumes "rt_inv rt" "wf_node n" "RoutingTable_store_nodeinfo ping n rt w = Ret (r, rt', w')"
  shows "rt_inv rt'" "rt_id rt' = rt_id rt"
proof -
  have "rt_inv rt' \<and> rt_id rt' = rt_id rt"
    using assms
  proof (cases rule: store_nodeinfo_cases)
    case (bucket i b rb)
    note inv = rt_invD(3) [OF assms(1) bucket(3)]
    have "rt_inv rt'"
      unfolding bucket(6)
    proof (rule rt_inv_update [OF assms(1) bucket(3) kb_inv_add [OF inv bucket(4)]])
      fix m assume "m \<in> set (kb_nodes b)"
      then have "m = n \<or> m \<in> set (kb_nodes (rt_buckets rt ! i))"
        using add_nodeinfo_ids [OF inv bucket(4)] by auto
      then show "wf_node m \<and> RoutingTable_get_bucket_index rt (ni_id m) = Inr i"
        using assms(2) bucket(2) rt_invD(4,5) [OF assms(1) bucket(3)] by auto
    qed
    then show ?thesis using bucket(6) by simp
  qed (use assms in simp)
  then show "rt_inv rt'" "rt_id rt' = rt_id rt" by auto
qed

lemma rt_inv_store_multiple [inv_intros]:
  assumes "rt_inv rt" "\<forall>n \<in> set ns. wf_node n"
    and "RoutingTable_store_nodeinfo_multiple ping ns rt w = Ret (r, rt', w')"
  shows "rt_inv rt' \<and> rt_id rt' = rt_id rt"
  using assms
proof (induction ns arbitrary: rt w)
  case (Cons n ns)
  then obtain r1 rt1 w1 where st: "RoutingTable_store_nodeinfo ping n rt w = Ret (r1, rt1, w1)"
    by (auto simp: bind_run_Ret_iff)
  with Cons.prems have inv: "rt_inv rt1" "rt_id rt1 = rt_id rt"
    using rt_inv_store [OF _ _ st] by auto
  show ?case
    using Cons.IH [OF inv(1)] Cons.prems st inv by (cases r1) auto
qed simp

lemma rt_inv_lookup [inv_intros]:
  assumes "rt_inv rt" "wf_key k" "RoutingTable_lookup_get_n_closest now rt k n = Ret (r, rt')"
  shows "rt_inv rt' \<and> rt_id rt' = rt_id rt"
  using rt_invD(1) [OF assms(1)] assms(2)
proof (cases rule: get_bucket_index_cases)
  case (bucket i)
  have "rt_inv (rt\<lparr>rt_buckets := (rt_buckets rt)[i := KBucket_set_last_lookup_now now (rt_buckets rt ! i)]\<rparr>)"
    using rt_invD(3-5) [OF assms(1) bucket(3)] assms(1) bucket(3)
    by (intro rt_inv_update) (auto simp: KBucket_set_last_lookup_now_def kb_inv_def)
  then show ?thesis
    using assms(3) bucket
    by (auto simp: RoutingTable_lookup_get_n_closest_def bind_run_Ret_iff Let_def split: if_splits)
qed (use assms in \<open>auto simp: RoutingTable_lookup_get_n_closest_def\<close>)


section \<open>Looking up a contact\<close>

lemma get_nodeinfo_bucket:
  assumes "rt_inv rt" "RoutingTable_get_bucket_index rt k = Inr i" "i < NUM_BUCKETS"
  shows "RoutingTable_get_nodeinfo rt k = Ret (Inr (KBucket_get_nodeinfo k (rt_buckets rt ! i)))"
  using assms by (simp add: RoutingTable_get_nodeinfo_def rt_invD(2))

lemma get_nodeinfo_returns:
  assumes "rt_inv rt" "wf_key k"
  shows "RoutingTable_get_nodeinfo rt k = Ret (Inl AttempStoreSelf) \<and> k = rt_id rt \<or>
     (\<exists>r. RoutingTable_get_nodeinfo rt k = Ret (Inr r) \<and> k \<noteq> rt_id rt)"
  using rt_invD(1) [OF assms(1)] assms(2)
  by (cases rule: get_bucket_index_cases)
    (auto simp: rt_invD(2) [OF assms(1)] RoutingTable_get_nodeinfo_def)

text \<open>A contact that fits into its bucket is found afterwards, and no other lookup changes.\<close>

lemma store_nodeinfo_space:
  assumes "rt_inv rt" "RoutingTable_get_bucket_index rt (ni_id n) = Inr i" "i < NUM_BUCKETS"
    and "length (others n (rt_buckets rt ! i)) < K"
  shows "RoutingTable_store_nodeinfo ping n rt w =
     Ret (Inr (), rt\<lparr>rt_buckets := (rt_buckets rt)
       [i := (rt_buckets rt ! i)\<lparr>kb_nodes := others n (rt_buckets rt ! i) @ [n]\<rparr>]\<rparr>, w)"
  unfolding store_nodeinfo_bucket [OF assms(1-3)]
    add_nodeinfo_space [OF rt_invD(3) [OF assms(1,3)] assms(4)]
  by simp

lemma find_others:
  "k \<noteq> ni_id n \<Longrightarrow> find (\<lambda>m. ni_id m = k) (others n b @ [n]) = find (\<lambda>m. ni_id m = k) (kb_nodes b)"
proof -
  assume "k \<noteq> ni_id n"
  then have "find (\<lambda>m. ni_id m = k) (filter (\<lambda>m. ni_id m \<noteq> ni_id n) xs @ [n]) =
      find (\<lambda>m. ni_id m = k) xs" for xs
    by (induction xs) auto
  then show ?thesis by (simp add: others_def)
qed

lemma store_then_get:
  assumes "rt_inv rt" "wf_node n" "RoutingTable_get_bucket_index rt (ni_id n) = Inr i"
    and "i < NUM_BUCKETS" "length (others n (rt_buckets rt ! i)) < K"
    and "RoutingTable_store_nodeinfo ping n rt w = Ret (r, rt', w')"
  shows "r = Inr ()"
    and "RoutingTable_get_nodeinfo rt' (ni_id n) = Ret (Inr (Some n))"
    and "wf_key k \<Longrightarrow> k \<noteq> ni_id n \<Longrightarrow> RoutingTable_get_nodeinfo rt' k = RoutingTable_get_nodeinfo rt k"
proof -
  let ?b = "(rt_buckets rt ! i)\<lparr>kb_nodes := others n (rt_buckets rt ! i) @ [n]\<rparr>"
  have eq: "r = Inr ()" "rt' = rt\<lparr>rt_buckets := (rt_buckets rt)[i := ?b]\<rparr>"
    using assms(6) store_nodeinfo_space [OF assms(1,3,4,5), of ping w] by auto
  show "r = Inr ()" by (rule eq)
  have inv: "rt_inv rt'" "rt_id rt' = rt_id rt" using rt_inv_store [OF assms(1,2,6)] by auto
  have len: "length (rt_buckets rt) = NUM_BUCKETS" using assms(1) by (rule rt_invD)
  have b: "rt_buckets rt' ! i = ?b" using eq len assms(4) by simp
  have "distinct (map ni_id (kb_nodes ?b))"
    using rt_invD(3) [OF inv(1) assms(4)] b by (simp add: kb_inv_def)
  then have "KBucket_get_nodeinfo (ni_id n) ?b = Some n" by (rule get_nodeinfo_mem) simp
  then show "RoutingTable_get_nodeinfo rt' (ni_id n) = Ret (Inr (Some n))"
    using get_nodeinfo_bucket [OF inv(1) _ assms(4)] assms(3) b by (simp add: eq)
  assume k: "wf_key k" "k \<noteq> ni_id n"
  show "RoutingTable_get_nodeinfo rt' k = RoutingTable_get_nodeinfo rt k"
    using rt_invD(1) [OF assms(1)] k(1)
  proof (cases rule: get_bucket_index_cases)
    case (bucket j)
    show ?thesis
    proof (cases "j = i")
      case True
      then show ?thesis
        using get_nodeinfo_bucket [OF inv(1) _ assms(4), of k]
          get_nodeinfo_bucket [OF assms(1) _ assms(4), of k] bucket b find_others [OF k(2)]
        by (simp add: eq KBucket_get_nodeinfo_def)
    next
      case False
      then show ?thesis using bucket len by (simp add: RoutingTable_get_nodeinfo_def eq)
    qed
  qed (simp add: RoutingTable_get_nodeinfo_def eq)
qed

section \<open>The widening search\<close>

definition range_nodes :: "kbucket list \<Rightarrow> nat \<Rightarrow> nat \<Rightarrow> node_info list" where
  "range_nodes bs lo hi = concat (map (\<lambda>i. kb_nodes (bs ! i)) [lo..<hi])"

lemma range_nodes_split:
  "lo \<le> mid \<Longrightarrow> mid \<le> hi \<Longrightarrow> range_nodes bs lo hi = range_nodes bs lo mid @ range_nodes bs mid hi"
  unfolding range_nodes_def
  by (metis concat_append le_add_diff_inverse map_append upt_add_eq_append)

lemma range_nodes_empty [simp]: "range_nodes bs i i = []"
  by (simp add: range_nodes_def)

lemma range_nodes_single [simp]: "range_nodes bs i (Suc i) = kb_nodes (bs ! i)"
  by (simp add: range_nodes_def)

lemma set_range_nodes: "set (range_nodes bs lo hi) = (\<Union>i \<in> {lo..<hi}. set (kb_nodes (bs ! i)))"
  by (simp add: range_nodes_def)

lemma range_nodes_mono:
  "lo' \<le> lo \<Longrightarrow> hi \<le> hi' \<Longrightarrow> set (range_nodes bs lo hi) \<subseteq> set (range_nodes bs lo' hi')"
  unfolding set_range_nodes by (rule UN_mono) auto

lemma get_all_nodeinfos_range:
  "RoutingTable_get_all_nodeinfos rt = range_nodes (rt_buckets rt) 0 (length (rt_buckets rt))"
proof -
  have "map KBucket_get_nodeinfos bs = map (\<lambda>i. kb_nodes (bs ! i)) [0..<length bs]" for bs
    by (rule nth_equalityI) (auto simp: KBucket_get_nodeinfos_def)
  then show ?thesis by (simp add: RoutingTable_get_all_nodeinfos_def range_nodes_def)
qed

lemma take_down_range:
  assumes "take_down bs u d result i = (result', i')" "-1 \<le> i"
  shows "-1 \<le> i' \<and> i' \<le> i \<and>
     mset result' = mset result + mset (range_nodes bs (nat (i' + 1)) (nat (i + 1)))"
  using assms
proof (induction bs u d result i rule: take_down.induct)
  case (1 bs u d result i)
  let ?g = "KBucket_get_nodeinfos (bs ! nat i)"
  show ?case
  proof (cases "d < u \<and> i \<ge> 0")
    case True
    with "1.prems" have td: "take_down bs u (d + length ?g) (result @ ?g) (i - 1) = (result', i')"
      by (simp add: take_down.simps [of bs u d] Let_def)
    from "1.IH" [OF True refl td] True
    have IH: "-1 \<le> i'" "i' \<le> i - 1" "mset result' = mset result + mset ?g
        + mset (range_nodes bs (nat (i' + 1)) (nat i))"
      by auto
    moreover have "range_nodes bs (nat (i' + 1)) (nat (i + 1)) =
        range_nodes bs (nat (i' + 1)) (nat i) @ kb_nodes (bs ! nat i)"
      using IH True range_nodes_split [of "nat (i' + 1)" "nat i" "nat (i + 1)" bs]
      by (simp add: nat_add_distrib)
    ultimately show ?thesis by (simp add: KBucket_get_nodeinfos_def)
  next
    case False
    then show ?thesis using "1.prems" by (auto simp: take_down.simps [of bs u d])
  qed
qed

text \<open>The state of the search: the contacts of a contiguous range of buckets.\<close>

definition covers :: "kbucket list \<Rightarrow> node_info list \<times> nat \<times> int \<Rightarrow> bool" where
  "covers bs = (\<lambda>(result, i_up, i_down). -1 \<le> i_down \<and> i_down < int i_up \<and> i_up \<le> length bs \<and>
     mset result = mset (range_nodes bs (nat (i_down + 1)) i_up))"

lemma closest_round_covers:
  assumes "covers bs (result, i_up, i_down)"
    and "closest_round bs (result, i_up, i_down) = (taken, result', i_up', i_down')"
  shows "covers bs (result', i_up', i_down')" "i_up \<le> i_up'" "i_down' \<le> i_down"
    and "\<not> taken \<Longrightarrow> i_up' = length bs \<and> i_down' = -1"
proof -
  define got_u where "got_u = (if i_up < length bs then kb_nodes (bs ! i_up) else [])"
  define up where "up = (if i_up < length bs then i_up + 1 else i_up)"
  have c: "-1 \<le> i_down" "i_down < int i_up" "i_up \<le> length bs"
      "mset result = mset (range_nodes bs (nat (i_down + 1)) i_up)"
    using assms(1) by (auto simp: covers_def)
  have up: "i_up \<le> up" "up \<le> length bs" using c by (auto simp: up_def)
  have u: "mset (result @ got_u) = mset (range_nodes bs (nat (i_down + 1)) up)"
    using c range_nodes_split [of "nat (i_down + 1)" i_up "Suc i_up" bs]
    by (auto simp: got_u_def up_def)
  have "covers bs (result', i_up', i_down') \<and> i_up \<le> i_up' \<and> i_down' \<le> i_down \<and>
     (\<not> taken \<longrightarrow> i_up' = length bs \<and> i_down' = -1)"
  proof (cases "i_down \<ge> 0")
    case True
    let ?d = "kb_nodes (bs ! nat i_down)"
    obtain r2 i2 where td: "take_down bs (length got_u) (length ?d) ((result @ got_u) @ ?d)
        (i_down - 1) = (r2, i2)"
      by (cases "take_down bs (length got_u) (length ?d) ((result @ got_u) @ ?d) (i_down - 1)")
    have eq: "taken" "result' = r2" "i_up' = up" "i_down' = i2"
      using assms(2) True td
      by (auto simp: closest_round_def got_u_def up_def KBucket_get_nodeinfos_def Let_def
          split: if_splits)
    from take_down_range [OF td] True
    have r: "-1 \<le> i2" "i2 \<le> i_down - 1" "mset r2 = mset (result @ got_u) + mset ?d
        + mset (range_nodes bs (nat (i2 + 1)) (nat i_down))"
      by auto
    have "range_nodes bs (nat (i2 + 1)) up = range_nodes bs (nat (i2 + 1)) (nat i_down) @
        ?d @ range_nodes bs (nat (i_down + 1)) up"
      using range_nodes_split [of "nat (i2 + 1)" "nat i_down" up bs]
        range_nodes_split [of "nat i_down" "nat (i_down + 1)" up bs] r True c up
      by (simp add: nat_add_distrib)
    then show ?thesis using eq r u up c True by (auto simp: covers_def)
  next
    case False
    then have "taken = (i_up < length bs)" "result' = result @ got_u" "i_up' = up"
        "i_down' = i_down"
      using assms(2)
      by (auto simp: closest_round_def got_u_def up_def KBucket_get_nodeinfos_def Let_def
          split: if_splits)
    then show ?thesis using u up c False by (auto simp: covers_def up_def)
  qed
  then show "covers bs (result', i_up', i_down')" "i_up \<le> i_up'" "i_down' \<le> i_down"
    and "\<not> taken \<Longrightarrow> i_up' = length bs \<and> i_down' = -1" by auto
qed

lemma closest_loop_range:
  assumes "covers bs (result, i_up, i_down)"
    and "\<not> taken \<Longrightarrow> i_up = length bs \<and> i_down = -1"
  shows "\<exists>lo hi. lo \<le> nat (i_down + 1) \<and> i_up \<le> hi \<and> hi \<le> length bs \<and>
     mset (closest_loop bs n taken (result, i_up, i_down)) = mset (range_nodes bs lo hi) \<and>
     (length (range_nodes bs lo hi) < n \<longrightarrow> lo = 0 \<and> hi = length bs)"
  using assms
proof (induction bs n taken "(result, i_up, i_down)" arbitrary: result i_up i_down
    rule: closest_loop.induct)
  case (1 bs n taken result i_up i_down)
  show ?case
  proof (cases "length result < n \<and> taken")
    case True
    obtain t r u d where rd: "closest_round bs (result, i_up, i_down) = (t, r, u, d)"
      by (cases "closest_round bs (result, i_up, i_down)") auto
    note cr = closest_round_covers [OF "1.prems"(1) rd]
    have "closest_loop bs n taken (result, i_up, i_down) = closest_loop bs n t (r, u, d)"
      using True rd by (subst closest_loop.simps) simp
    moreover obtain lo hi where "lo \<le> nat (d + 1)" "u \<le> hi" "hi \<le> length bs"
        "mset (closest_loop bs n t (r, u, d)) = mset (range_nodes bs lo hi)"
        "length (range_nodes bs lo hi) < n \<longrightarrow> lo = 0 \<and> hi = length bs"
      using "1.hyps" [OF True rd [symmetric] refl cr(1) cr(4)] by auto
    moreover have "nat (d + 1) \<le> nat (i_down + 1)" using cr(3) by simp
    ultimately show ?thesis using cr(2) by (intro exI [of _ lo] exI [of _ hi]) auto
  next
    case False
    have len: "length (range_nodes bs (nat (i_down + 1)) i_up) = length result"
      using "1.prems"(1) by (auto simp: covers_def dest: mset_eq_length)
    have "closest_loop bs n taken (result, i_up, i_down) = result"
      by (subst closest_loop.simps) (simp only: False if_False)
    then show ?thesis
      using False "1.prems" len
      by (intro exI [of _ "nat (i_down + 1)"] exI [of _ i_up]) (auto simp: covers_def)
  qed
qed


section \<open>What the search returns\<close>

abbreviation dist_to :: "key \<Rightarrow> node_info \<Rightarrow> bytes" where
  "dist_to k \<equiv> (\<lambda>m. Key_distance (ni_id m) k)"

lemma all_nodes_wf:
  assumes "rt_inv rt" "m \<in> set (RoutingTable_get_all_nodeinfos rt)"
  shows "wf_node m"
  using assms rt_invD(2,4) [OF assms(1)] by (auto simp: get_all_nodeinfos_range set_range_nodes)

lemma all_nodes_distinct:
  assumes "rt_inv rt"
  shows "distinct (map ni_id (RoutingTable_get_all_nodeinfos rt))"
proof -
  have "distinct (map ni_id (range_nodes (rt_buckets rt) 0 hi))" if "hi \<le> NUM_BUCKETS" for hi
    using that
  proof (induction hi)
    case (Suc hi)
    have "ni_id m \<noteq> ni_id m'" if "i < hi" "m \<in> set (kb_nodes (rt_buckets rt ! i))"
        "m' \<in> set (kb_nodes (rt_buckets rt ! hi))" for i m m'
      using rt_invD(5) [OF assms, of i m] rt_invD(5) [OF assms, of hi m'] that Suc.prems by auto
    then have "ni_id ` set (range_nodes (rt_buckets rt) 0 hi) \<inter>
        ni_id ` set (kb_nodes (rt_buckets rt ! hi)) = {}"
      by (auto simp: set_range_nodes)
    then show ?case
      using Suc rt_invD(3) [OF assms, of hi] range_nodes_split [of 0 hi "Suc hi" "rt_buckets rt"]
      by (simp add: kb_inv_def)
  qed simp
  then show ?thesis by (simp add: get_all_nodeinfos_range rt_invD(2) [OF assms])
qed

lemma dist_to_inj:
  assumes "rt_inv rt" "wf_key k"
  shows "inj_on (dist_to k) (set (RoutingTable_get_all_nodeinfos rt))"
proof (rule inj_onI)
  fix x y
  assume xy: "x \<in> set (RoutingTable_get_all_nodeinfos rt)"
      "y \<in> set (RoutingTable_get_all_nodeinfos rt)" "dist_to k x = dist_to k y"
  then have "ni_id x = ni_id y"
    using all_nodes_wf [OF assms(1)] assms(2) by (simp add: wf_node_def distance_eq_iff)
  then show "x = y" using all_nodes_distinct [OF assms(1)] xy by (auto simp: distinct_map inj_on_def)
qed

lemma get_n_closest_range:
  assumes "rt_inv rt" "RoutingTable_get_bucket_index rt k = Inr j" "j < NUM_BUCKETS"
  obtains lo hi where "lo \<le> j" "j < hi" "hi \<le> NUM_BUCKETS"
    "mset (closest_loop (rt_buckets rt) n True
       (KBucket_get_nodeinfos (rt_buckets rt ! j), j + 1, int j - 1))
       = mset (range_nodes (rt_buckets rt) lo hi)"
    "length (range_nodes (rt_buckets rt) lo hi) < n \<longrightarrow> lo = 0 \<and> hi = NUM_BUCKETS"
proof -
  have "covers (rt_buckets rt) (KBucket_get_nodeinfos (rt_buckets rt ! j), j + 1, int j - 1)"
    using assms rt_invD(2) [OF assms(1)] by (simp add: covers_def KBucket_get_nodeinfos_def)
  from closest_loop_range [OF this, of True n] that rt_invD(2) [OF assms(1)]
  show ?thesis by (auto simp: Suc_le_eq)
qed

text \<open>
  The result is never a panic, is sorted by distance, is drawn without repetition from the
  stored contacts, and has as many of them as exist up to \<open>n\<close>.
\<close>

lemma get_n_closest_shape:
  assumes "rt_inv rt" "wf_key k" "k \<noteq> rt_id rt"
  shows "(RoutingTable_get_n_closest rt k n = Ret (Inl Empty) \<and> (n = 0 \<or> RoutingTable_get_all_nodeinfos rt = []))
    \<or> (\<exists>ms. RoutingTable_get_n_closest rt k n = Ret (Inr ms) \<and> sorted (map (dist_to k) ms) \<and>
         mset ms \<subseteq># mset (RoutingTable_get_all_nodeinfos rt) \<and>
         length ms = min n (length (RoutingTable_get_all_nodeinfos rt)))"
  using rt_invD(1) [OF assms(1)] assms(2)
proof (cases rule: get_bucket_index_cases)
  case (bucket j)
  let ?bs = "rt_buckets rt" and ?all = "RoutingTable_get_all_nodeinfos rt"
  define R where "R = closest_loop ?bs n True (KBucket_get_nodeinfos (?bs ! j), j + 1, int j - 1)"
  obtain lo hi where r: "lo \<le> j" "j < hi" "hi \<le> NUM_BUCKETS" "mset R = mset (range_nodes ?bs lo hi)"
      "length (range_nodes ?bs lo hi) < n \<longrightarrow> lo = 0 \<and> hi = NUM_BUCKETS"
    using get_n_closest_range [OF assms(1) bucket(2,3), of n] unfolding R_def by metis
  have len: "length R = length (range_nodes ?bs lo hi)" using r(4) by (rule mset_eq_length)
  have all: "?all = range_nodes ?bs 0 lo @ range_nodes ?bs lo hi @ range_nodes ?bs hi NUM_BUCKETS"
    using r(1-3) range_nodes_split [of 0 lo NUM_BUCKETS ?bs]
      range_nodes_split [of lo hi NUM_BUCKETS ?bs]
    by (simp add: get_all_nodeinfos_range rt_invD(2) [OF assms(1)])
  have sub: "mset R \<subseteq># mset ?all" unfolding all r(4) by simp
  have cov: "mset R = mset ?all" if "length R < n" using r(4,5) that len all by auto
  then have minlen: "min n (length R) = min n (length ?all)"
    using size_mset_mono [OF sub] by (cases "length R < n") (auto dest: mset_eq_length)
  have res: "RoutingTable_get_n_closest rt k n =
      (if R = [] then Ret (Inl Empty) else Ret (Inr (take n (sort_key (dist_to k) R))))"
    using bucket rt_invD(2) [OF assms(1)] by (simp add: RoutingTable_get_n_closest_def R_def Let_def)
  show ?thesis
  proof (cases "R = []")
    case True
    then show ?thesis using res cov by (cases n) auto
  next
    case False
    have "n_smallest (dist_to k) n R (take n (sort_key (dist_to k) R))"
      by (rule take_sort_n_smallest)
    then show ?thesis
      using False res sub minlen unfolding n_smallest_def
      by (auto intro: subset_mset.order_trans)
  qed
qed (use assms in simp)


text \<open>The contacts of the target's own bucket are nearer than all others.\<close>

lemma own_bucket_nearest:
  assumes "rt_inv rt" "wf_key k" "RoutingTable_get_bucket_index rt k = Inr j" "j < NUM_BUCKETS"
    and "x \<in> set (kb_nodes (rt_buckets rt ! j))"
    and "i < NUM_BUCKETS" "i \<noteq> j" "y \<in> set (kb_nodes (rt_buckets rt ! i))"
  shows "dist_to k x < dist_to k y"
proof -
  note w = rt_invD(1) [OF assms(1)] assms(2)
  have wx: "wf_key (ni_id x)" "RoutingTable_get_bucket_index rt (ni_id x) = Inr j"
    and wy: "wf_key (ni_id y)" "RoutingTable_get_bucket_index rt (ni_id y) = Inr i"
    using rt_invD(4,5) [OF assms(1)] assms by (auto simp: wf_node_def)
  have "dist_num (ni_id x) k < 2 ^ j"
    using target_distance_same_bucket [OF w wx(1) assms(3) wx(2)] .
  also have "(2::nat) ^ j \<le> 2 ^ max i j" by (intro power_increasing) auto
  also have "\<dots> \<le> dist_num (ni_id y) k"
    using target_distance_other_bucket(1) [OF w wy(1) assms(7,3) wy(2)] .
  finally show ?thesis using w(2) wx(1) wy(1) by (simp add: distance_less_iff)
qed

lemma range_nodes_around:
  assumes "lo \<le> j" "j < hi"
  shows "mset (range_nodes bs lo hi) = mset (kb_nodes (bs ! j))
     + mset (range_nodes bs lo j @ range_nodes bs (Suc j) hi)"
proof -
  have "range_nodes bs lo hi = range_nodes bs lo j @ kb_nodes (bs ! j) @ range_nodes bs (Suc j) hi"
    using assms range_nodes_split [of lo j hi bs] range_nodes_split [of j "Suc j" hi bs]
    by (simp add: Suc_le_eq)
  then show ?thesis by simp
qed

lemma own_bucket_sorted_first:
  assumes "rt_inv rt" "wf_key k" "RoutingTable_get_bucket_index rt k = Inr j"
    and "lo \<le> j" "j < hi" "hi \<le> NUM_BUCKETS" "mset R = mset (range_nodes (rt_buckets rt) lo hi)"
  shows "sort_key (dist_to k) R = sort_key (dist_to k) (kb_nodes (rt_buckets rt ! j)) @
     sort_key (dist_to k) (range_nodes (rt_buckets rt) lo j @ range_nodes (rt_buckets rt) (Suc j) hi)"
proof (rule sort_key_split)
  show "mset R = mset (kb_nodes (rt_buckets rt ! j)) +
      mset (range_nodes (rt_buckets rt) lo j @ range_nodes (rt_buckets rt) (Suc j) hi)"
    using assms(7) range_nodes_around [OF assms(4,5)] by simp
  have "set R \<subseteq> set (RoutingTable_get_all_nodeinfos rt)"
    unfolding get_all_nodeinfos_range mset_eq_setD [OF assms(7)]
    using assms(6) rt_invD(2) [OF assms(1)] by (intro range_nodes_mono) auto
  then show "inj_on (dist_to k) (set R)" using dist_to_inj [OF assms(1,2)] by (rule inj_on_subset [rotated])
next
  fix x y
  assume x: "x \<in> set (kb_nodes (rt_buckets rt ! j))"
    and "y \<in> set (range_nodes (rt_buckets rt) lo j @ range_nodes (rt_buckets rt) (Suc j) hi)"
  then obtain i where y: "y \<in> set (kb_nodes (rt_buckets rt ! i))"
      and "lo \<le> i \<and> i < j \<or> Suc j \<le> i \<and> i < hi"
    by (auto simp: set_range_nodes)
  then have "i < NUM_BUCKETS" "i \<noteq> j" using assms(5,6) by auto
  then show "dist_to k x \<le> dist_to k y"
    using own_bucket_nearest [OF assms(1-3) _ x _ _ y] assms(5,6) by (auto intro: less_imp_le)
qed

lemma get_n_closest_eq:
  assumes "rt_inv rt" "wf_key k" "RoutingTable_get_bucket_index rt k = Inr j" "j < NUM_BUCKETS"
  obtains R lo hi where "lo \<le> j" "j < hi" "hi \<le> NUM_BUCKETS"
    "mset R = mset (range_nodes (rt_buckets rt) lo hi)"
    "length R < n \<longrightarrow> lo = 0 \<and> hi = NUM_BUCKETS"
    "n \<le> length (kb_nodes (rt_buckets rt ! j)) \<longrightarrow> R = kb_nodes (rt_buckets rt ! j)"
    "RoutingTable_get_n_closest rt k n =
      (if R = [] then Ret (Inl Empty) else Ret (Inr (take n (sort_key (dist_to k) R))))"
proof -
  define R where "R = closest_loop (rt_buckets rt) n True
    (KBucket_get_nodeinfos (rt_buckets rt ! j), j + 1, int j - 1)"
  obtain lo hi where r: "lo \<le> j" "j < hi" "hi \<le> NUM_BUCKETS"
      "mset R = mset (range_nodes (rt_buckets rt) lo hi)"
      "length (range_nodes (rt_buckets rt) lo hi) < n \<longrightarrow> lo = 0 \<and> hi = NUM_BUCKETS"
    using get_n_closest_range [OF assms(1,3,4), of n] unfolding R_def by metis
  have "R = kb_nodes (rt_buckets rt ! j)" if "n \<le> length (kb_nodes (rt_buckets rt ! j))"
    using that unfolding R_def KBucket_get_nodeinfos_def by (subst closest_loop.simps) simp
  then show ?thesis
    using that [OF r(1-4)] r(5) mset_eq_length [OF r(4)] assms rt_invD(2) [OF assms(1)]
    by (simp add: RoutingTable_get_n_closest_def R_def Let_def)
qed

text \<open>
  The search is exact when the target's bucket alone has \<open>n\<close> contacts, and when the table
  has no more than \<open>n\<close>.
\<close>

lemma get_n_closest_exact:
  assumes "rt_inv rt" "wf_key k" "RoutingTable_get_bucket_index rt k = Inr j" "0 < n"
    and "n \<le> length (kb_nodes (rt_buckets rt ! j)) \<or> length (RoutingTable_get_all_nodeinfos rt) \<le> n"
  shows "RoutingTable_get_n_closest rt k n = Ret (RoutingTable_get_n_closest_slow rt k n)"
proof -
  let ?bs = "rt_buckets rt" and ?all = "RoutingTable_get_all_nodeinfos rt"
  have j: "j < NUM_BUCKETS" using get_bucket_index_bound [OF rt_invD(1) [OF assms(1)] assms(2,3)] by simp
  obtain R lo hi where r: "lo \<le> j" "j < hi" "hi \<le> NUM_BUCKETS" "mset R = mset (range_nodes ?bs lo hi)"
      "length R < n \<longrightarrow> lo = 0 \<and> hi = NUM_BUCKETS"
      "n \<le> length (kb_nodes (?bs ! j)) \<longrightarrow> R = kb_nodes (?bs ! j)"
      "RoutingTable_get_n_closest rt k n =
        (if R = [] then Ret (Inl Empty) else Ret (Inr (take n (sort_key (dist_to k) R))))"
    by (rule get_n_closest_eq [OF assms(1-3) j])
  have all: "?all = range_nodes ?bs 0 NUM_BUCKETS"
    by (simp add: get_all_nodeinfos_range rt_invD(2) [OF assms(1)])
  have slow: "RoutingTable_get_n_closest_slow rt k n =
      (if ?all = [] then Inl Empty else Inr (take n (sort_key (dist_to k) ?all)))"
    by (simp add: RoutingTable_get_n_closest_slow_def RoutingTable_get_all_nodeinfos_def Let_def)
  show ?thesis
  proof (cases "n \<le> length (kb_nodes (?bs ! j))")
    case True
    have "sort_key (dist_to k) ?all = sort_key (dist_to k) (kb_nodes (?bs ! j)) @
        sort_key (dist_to k) (range_nodes ?bs 0 j @ range_nodes ?bs (Suc j) NUM_BUCKETS)"
      by (rule own_bucket_sorted_first [OF assms(1-3)]) (use j all in auto)
    moreover have "?all \<noteq> []" "R \<noteq> []"
      using True assms(4) r(6) range_nodes_around [of 0 j NUM_BUCKETS ?bs] j all by auto
    ultimately show ?thesis using r(6,7) True slow by simp
  next
    case False
    with assms(5) have le: "length ?all \<le> n" by simp
    have sub: "mset R \<subseteq># mset ?all"
      using r(1-4) range_nodes_split [of 0 lo NUM_BUCKETS ?bs]
        range_nodes_split [of lo hi NUM_BUCKETS ?bs] all by simp
    have eq: "mset R = mset ?all"
    proof (cases "length R < n")
      case True
      then show ?thesis using r(4,5) all by simp
    next
      case False
      then have "size (mset ?all) \<le> size (mset R)" using le by simp
      then show ?thesis using sub by (metis mset_subset_size leD subset_mset.le_imp_less_or_eq)
    qed
    have "inj_on (dist_to k) (set R)"
      unfolding mset_eq_setD [OF eq] by (rule dist_to_inj [OF assms(1,2)])
    then have "sort_key (dist_to k) R = sort_key (dist_to k) ?all"
      by (intro sort_key_inj_key_eq) (simp_all add: eq)
    then show ?thesis using r(7) slow eq by auto
  qed
qed

text \<open>A stored contact whose identifier is the target comes first.\<close>

lemma get_n_closest_target_first:
  assumes "rt_inv rt" "wf_key k" "RoutingTable_get_nodeinfo rt k = Ret (Inr (Some m))" "0 < n"
  shows "\<exists>ms. RoutingTable_get_n_closest rt k n = Ret (Inr (m # ms))"
  using rt_invD(1) [OF assms(1)] assms(2)
proof (cases rule: get_bucket_index_cases)
  case (bucket j)
  let ?b = "rt_buckets rt ! j"
  have m: "m \<in> set (kb_nodes ?b)" "ni_id m = k"
    using assms(3) get_nodeinfo_bucket [OF assms(1) bucket(2,3)] get_nodeinfo_SomeD by auto
  obtain R lo hi where r: "lo \<le> j" "j < hi" "hi \<le> NUM_BUCKETS"
      "mset R = mset (range_nodes (rt_buckets rt) lo hi)"
      "RoutingTable_get_n_closest rt k n =
        (if R = [] then Ret (Inl Empty) else Ret (Inr (take n (sort_key (dist_to k) R))))"
    using get_n_closest_eq [OF assms(1,2) bucket(2,3), of n] by metis
  let ?s = "sort_key (dist_to k) R"
  have "m \<in> set ?s"
    using m(1) r(1-4) range_nodes_around [OF r(1,2), of "rt_buckets rt"] mset_eq_setD [OF r(4)]
    by (auto simp: set_range_nodes)
  then obtain x xs where s: "?s = x # xs" by (cases ?s) auto
  have "sorted (map (dist_to k) ?s)" by simp
  then have "dist_to k x \<le> dist_to k m" using \<open>m \<in> set ?s\<close> s by auto
  moreover have sub: "set R \<subseteq> set (RoutingTable_get_all_nodeinfos rt)"
    unfolding get_all_nodeinfos_range mset_eq_setD [OF r(4)]
    using r(3) rt_invD(2) [OF assms(1)] by (intro range_nodes_mono) auto
  have xin: "x \<in> set (RoutingTable_get_all_nodeinfos rt)"
    using s sub by (metis list.set_intros(1) set_sort subset_eq)
  ultimately have "dist_num (ni_id x) k \<le> 0"
    using all_nodes_wf [OF assms(1) xin] assms(2) m(2)
    by (simp add: distance_le_iff wf_node_def dist_num_self)
  then have "ni_id x = ni_id m"
    using all_nodes_wf [OF assms(1) xin] assms(2) m(2) by (simp add: wf_node_def dist_num_eq_0_iff)
  moreover have "m \<in> set (RoutingTable_get_all_nodeinfos rt)" using \<open>m \<in> set ?s\<close> sub by auto
  ultimately have "x = m"
    using all_nodes_distinct [OF assms(1)] xin by (auto simp: distinct_map inj_on_def)
  then show ?thesis using r(5) s assms(4) by (cases n) auto
qed (use assms in \<open>simp add: RoutingTable_get_nodeinfo_def\<close>)

section \<open>Refreshing buckets\<close>

lemma random_id_bucket:
  assumes "wf_key (rt_id rt)" "length rng = K" "i < NUM_BUCKETS"
  shows "RoutingTable_get_bucket_index rt (RoutingTable_get_random_id_for_bucket rt rng i) = Inr i"
proof -
  let ?n = "160 - i - 1"
  have n: "?n < 8 * K" "?n < NUM_BUCKETS" "NUM_BUCKETS - 1 - ?n = i"
    using assms(3) by (auto simp: NUM_BUCKETS_def K_def)
  have "wf_key (Key_new_random rng)" using assms(2) by (simp add: Key_new_random_def wf_key_def)
  from same_leading_bits_leading_zeros [OF this assms(1) n(1)]
  show ?thesis
    using n by (simp add: RoutingTable_get_bucket_index_def RoutingTable_get_random_id_for_bucket_def Let_def)
qed

end
