(* ===== verification/Lookup.thy ===== *)
theory Lookup
  imports Messages
begin

text \<open>
  \<open>core/lookup.rs\<close>: the buffer of an iterative lookup. It keeps the contacts seen so far
  with their \<open>queried\<close> and \<open>responded\<close> marks, sorted by distance to the target, hands out
  the next contacts to query and records a round of responses. The locale \<open>lookup_state\<close>
  states what the lookups of a node rely on; the loop over rounds that \<open>find_node\<close>,
  \<open>join_network\<close> and \<open>find_storer\<close> share is proved to end there.
\<close>

section \<open>Definitions\<close>

record lookup_node_info =
  ln_node_info :: node_info
  ln_queried :: bool
  ln_responded :: bool

definition LookupNodeInfo_new :: "node_info \<Rightarrow> lookup_node_info" where
  "LookupNodeInfo_new n = \<lparr>ln_node_info = n, ln_queried = False, ln_responded = False\<rparr>"

definition LookupNodeInfo_has_failed_to_respond :: "lookup_node_info \<Rightarrow> bool" where
  "LookupNodeInfo_has_failed_to_respond n \<longleftrightarrow> ln_queried n \<and> \<not> ln_responded n"

text \<open>\<open>impl PartialEq for LookupNodeInfo\<close>: the marks do not count.\<close>

definition LookupNodeInfo_eq :: "lookup_node_info \<Rightarrow> lookup_node_info \<Rightarrow> bool" where
  "LookupNodeInfo_eq a b \<longleftrightarrow> ln_node_info a = ln_node_info b"

datatype lookup_success_type = LookupValue | LookupNodes

record lookup_response =
  lr_resolver :: node_info
  lr_success :: bool
  lr_success_type :: "lookup_success_type option"
  lr_k_closest :: "node_info list"

definition LookupResponse_new_nodes_successful :: "node_info \<Rightarrow> node_info list \<Rightarrow> lookup_response" where
  "LookupResponse_new_nodes_successful resolver k_closest =
     \<lparr>lr_resolver = resolver, lr_success = True, lr_success_type = Some LookupNodes,
      lr_k_closest = k_closest\<rparr>"

definition LookupResponse_new_value_successful :: "node_info \<Rightarrow> lookup_response" where
  "LookupResponse_new_value_successful resolver =
     \<lparr>lr_resolver = resolver, lr_success = True, lr_success_type = Some LookupValue,
      lr_k_closest = []\<rparr>"

definition LookupResponse_new_failed :: "node_info \<Rightarrow> lookup_response" where
  "LookupResponse_new_failed resolver =
     \<lparr>lr_resolver = resolver, lr_success = False, lr_success_type = None, lr_k_closest = []\<rparr>"

record lookup_buffer =
  lb_nodes :: "lookup_node_info list"
  lb_target :: key
  lb_this_node :: node_info

definition target_distance :: "key \<Rightarrow> lookup_node_info \<Rightarrow> bytes" where
  "target_distance target n = Key_distance (ni_id (ln_node_info n)) target"

definition LookupBuffer_sort :: "lookup_buffer \<Rightarrow> lookup_buffer" where
  "LookupBuffer_sort b = b\<lparr>lb_nodes := sort_key (target_distance (lb_target b)) (lb_nodes b)\<rparr>"

definition LookupBuffer_new :: "key \<Rightarrow> node_info list \<Rightarrow> node_info \<Rightarrow> lookup_buffer" where
  "LookupBuffer_new target initial_nodes this_node =
     LookupBuffer_sort \<lparr>lb_nodes = map LookupNodeInfo_new initial_nodes, lb_target = target,
       lb_this_node = this_node\<rparr>"

definition LookupBuffer_mark_node_as_queried :: "key \<Rightarrow> lookup_buffer \<Rightarrow> lookup_buffer" where
  "LookupBuffer_mark_node_as_queried k b =
     b\<lparr>lb_nodes := map (\<lambda>n. if ni_id (ln_node_info n) = k then n\<lparr>ln_queried := True\<rparr> else n)
        (lb_nodes b)\<rparr>"

definition LookupBuffer_mark_node_as_responded :: "key \<Rightarrow> lookup_buffer \<Rightarrow> lookup_buffer" where
  "LookupBuffer_mark_node_as_responded k b =
     b\<lparr>lb_nodes := map (\<lambda>n. if ni_id (ln_node_info n) = k then n\<lparr>ln_responded := True\<rparr> else n)
        (lb_nodes b)\<rparr>"

definition LookupBuffer_get_resulting_vector :: "lookup_buffer \<Rightarrow> node_info list" where
  "LookupBuffer_get_resulting_vector b =
     map ln_node_info (take K (filter (\<lambda>n. \<not> LookupNodeInfo_has_failed_to_respond n) (lb_nodes b)))"

definition LookupBuffer_get_unqueried_resulting_nodes :: "lookup_buffer \<Rightarrow> node_info list" where
  "LookupBuffer_get_unqueried_resulting_nodes b =
     map ln_node_info (filter (\<lambda>n. \<not> ln_queried n) (take K (lb_nodes b)))"

definition LookupBuffer_get_alpha_unqueried_nodes :: "lookup_buffer \<Rightarrow> node_info list \<times> lookup_buffer" where
  "LookupBuffer_get_alpha_unqueried_nodes b =
     (let candidates = take ALPHA (map ln_node_info (filter (\<lambda>n. \<not> ln_queried n) (lb_nodes b)))
      in (candidates, fold (\<lambda>n. LookupBuffer_mark_node_as_queried (ni_id n)) candidates b))"

definition LookupBuffer_get_responsive_nodes :: "lookup_buffer \<Rightarrow> node_info list" where
  "LookupBuffer_get_responsive_nodes b =
     map ln_node_info (filter (\<lambda>n. ln_queried n \<and> ln_responded n) (lb_nodes b))"

text \<open>The contacts a response offers: push those not known and not this node.\<close>

definition push_node :: "node_info \<Rightarrow> lookup_buffer \<Rightarrow> lookup_buffer" where
  "push_node n b =
     (if (\<exists>m \<in> set (lb_nodes b). LookupNodeInfo_eq m (LookupNodeInfo_new n)) \<or> lb_this_node b = n
      then b else b\<lparr>lb_nodes := lb_nodes b @ [LookupNodeInfo_new n]\<rparr>)"

text \<open>
  The loop over the responses of a round; the first component is \<open>True\<close> when it returned
  early because a value was found.
\<close>

fun record_responses :: "bool \<Rightarrow> lookup_response list \<Rightarrow> lookup_buffer \<Rightarrow> bool \<times> lookup_buffer" where
  "record_responses for_value [] b = (False, b)"
| "record_responses for_value (r # rs) b =
     (if for_value \<and> lr_success_type r = Some LookupValue then (True, b)
      else if \<not> lr_success r \<or> (\<not> for_value \<and> lr_success_type r = Some LookupValue)
      then record_responses for_value rs (LookupBuffer_mark_node_as_queried (ni_id (lr_resolver r)) b)
      else record_responses for_value rs
             (LookupBuffer_mark_node_as_responded (ni_id (lr_resolver r))
               (fold push_node (lr_k_closest r) b)))"

definition LookupBuffer_record_lookup_round_responses ::
  "lookup_response list \<Rightarrow> bool \<Rightarrow> lookup_buffer \<Rightarrow> bool \<times> lookup_buffer" where
  "LookupBuffer_record_lookup_round_responses responses for_value b =
     (let previous_k_closest = LookupBuffer_get_resulting_vector b;
          (found, b1) = record_responses for_value responses b
      in if found then (True, b1)
         else let b2 = LookupBuffer_sort b1
              in (previous_k_closest \<noteq> LookupBuffer_get_resulting_vector b2, b2))"

text \<open>
  The rounds of a lookup: query the next contacts, record their responses, stop when nothing is
  left to query or a round does not improve the result. \<open>None\<close> is a lookup that never ends.
  The responses of the last round are kept, as \<open>find_storer\<close> does.
\<close>

partial_function (option) lookup_rounds ::
  "('b \<Rightarrow> 'n list \<times> 'b) \<Rightarrow> ('r list \<Rightarrow> 'b \<Rightarrow> bool \<times> 'b) \<Rightarrow> ('n list \<Rightarrow> 's \<Rightarrow> 'r list \<times> 's) \<Rightarrow>
     'r list \<Rightarrow> 'b \<Rightarrow> 's \<Rightarrow> ('r list \<times> 'b \<times> 's) option" where
  "lookup_rounds alpha rec round cur b s =
     (case alpha b of (resolvers, b1) \<Rightarrow>
        if resolvers = [] then Some (cur, b1, s)
        else case round resolvers s of (responses, s1) \<Rightarrow>
          case rec responses b1 of (continue, b2) \<Rightarrow>
            if \<not> continue then Some (responses, b2, s1)
            else lookup_rounds alpha rec round responses b2 s1)"

text \<open>An invariant of the rounds, and what holds when they end.\<close>

lemma lookup_rounds_invariant:
  assumes "lookup_rounds alpha rec round cur b s = Some (cur', b', s')" and "I cur b s"
    and stop: "\<And>cur b s b1. I cur b s \<Longrightarrow> alpha b = ([], b1) \<Longrightarrow> Q cur b1 s"
    and step: "\<And>cur b s ns b1 rs s1 c b2. I cur b s \<Longrightarrow> alpha b = (ns, b1) \<Longrightarrow> ns \<noteq> [] \<Longrightarrow>
      round ns s = (rs, s1) \<Longrightarrow> rec rs b1 = (c, b2) \<Longrightarrow> (c \<longrightarrow> I rs b2 s1) \<and> (\<not> c \<longrightarrow> Q rs b2 s1)"
  shows "Q cur' b' s'"
proof -
  let ?P = "\<lambda>al re ro cur b s res. al = alpha \<longrightarrow> re = rec \<longrightarrow> ro = round \<longrightarrow> I cur b s \<longrightarrow>
      (case res of (cur', b', s') \<Rightarrow> Q cur' b' s')"
  have "?P alpha rec round cur b s (cur', b', s')"
  proof (rule lookup_rounds.raw_induct [of ?P, OF _ assms(1)], intro impI, goal_cases)
    case (1 f al re ro cur b s res)
    obtain ns b1 where al: "alpha b = (ns, b1)" by (cases "alpha b")
    show ?case
    proof (cases "ns = []")
      case True
      then show ?thesis using 1 al stop [of cur b s b1] by auto
    next
      case False
      obtain rs s1 where rd: "round ns s = (rs, s1)" by (cases "round ns s")
      obtain c b2 where rc: "rec rs b1 = (c, b2)" by (cases "rec rs b1")
      from step [OF _ al False rd rc, of cur] 1 have st: "(c \<longrightarrow> I rs b2 s1) \<and> (\<not> c \<longrightarrow> Q rs b2 s1)" by blast
      show ?thesis
      proof (cases c)
        case True
        with 1(2-5) al rd rc False have "f alpha rec round rs b2 s1 = Some res" by simp
        from 1(1) [OF this] st True show ?thesis by simp
      next
        case c: False
        then show ?thesis using 1(2-5) al rd rc False st by auto
      qed
    qed
  qed
  then show ?thesis using assms(2) by simp
qed

section \<open>The interface of a lookup buffer\<close>

locale lookup_state =
  fixes invar :: "'b \<Rightarrow> bool"
    and known :: "'b \<Rightarrow> 'n set"
    and queried :: "'b \<Rightarrow> 'n set"
    and alpha :: "'b \<Rightarrow> 'n list \<times> 'b"
    and rec :: "'r list \<Rightarrow> 'b \<Rightarrow> bool \<times> 'b"
    and offered :: "'r \<Rightarrow> 'n set"
  assumes queried_known: "invar b \<Longrightarrow> queried b \<subseteq> known b"
    and alpha_invar: "invar b \<Longrightarrow> alpha b = (ns, b') \<Longrightarrow> invar b'"
    and alpha_known: "invar b \<Longrightarrow> alpha b = (ns, b') \<Longrightarrow> known b' = known b"
    and alpha_fresh: "invar b \<Longrightarrow> alpha b = (ns, b') \<Longrightarrow> n \<in> set ns \<Longrightarrow> n \<in> known b \<and> n \<notin> queried b"
    and alpha_marks: "invar b \<Longrightarrow> alpha b = (ns, b') \<Longrightarrow> queried b \<union> set ns \<subseteq> queried b'"
    and alpha_exhausted: "invar b \<Longrightarrow> alpha b = ([], b') \<Longrightarrow> known b \<subseteq> queried b"
    and rec_invar: "invar b \<Longrightarrow> rec rs b = (c, b') \<Longrightarrow> invar b'"
    and rec_known: "invar b \<Longrightarrow> rec rs b = (c, b') \<Longrightarrow> known b' \<subseteq> known b \<union> (\<Union>r \<in> set rs. offered r)"
    and rec_grows: "invar b \<Longrightarrow> rec rs b = (c, b') \<Longrightarrow> known b \<subseteq> known b' \<and> queried b \<subseteq> queried b'"
begin

text \<open>
  Every round queries a contact that was not queried before, so a lookup ends once the
  contacts come from a finite set.
\<close>

lemma lookup_rounds_ends:
  assumes "finite U" "invar b" "known b \<subseteq> U"
    and "\<And>ns s rs s'. set ns \<subseteq> U \<Longrightarrow> round ns s = (rs, s') \<Longrightarrow> (\<Union>r \<in> set rs. offered r) \<subseteq> U"
  shows "\<exists>cur' b' s'. lookup_rounds alpha rec round cur b s = Some (cur', b', s') \<and>
     invar b' \<and> known b \<subseteq> known b' \<and> known b' \<subseteq> U"
  using assms(2,3)
proof (induction "card (U - queried b)" arbitrary: b cur s rule: less_induct)
  case less
  obtain ns b1 where al: "alpha b = (ns, b1)" by (cases "alpha b")
  note a = alpha_invar [OF less.prems(1) al] alpha_known [OF less.prems(1) al]
  show ?case
  proof (cases "ns = []")
    case True
    then show ?thesis
      using less.prems a by (subst lookup_rounds.simps) (simp add: al)
  next
    case False
    obtain rs s1 where rd: "round ns s = (rs, s1)" by (cases "round ns s")
    obtain c b2 where rc: "rec rs b1 = (c, b2)" by (cases "rec rs b1")
    have "set ns \<subseteq> U" using alpha_fresh [OF less.prems(1) al] less.prems(2) by blast
    then have off: "(\<Union>r \<in> set rs. offered r) \<subseteq> U" using assms(4) rd by blast
    have b2: "invar b2" by (rule rec_invar [OF a(1) rc])
    have grows: "known b \<subseteq> known b2" using rec_grows [OF a(1) rc] a(2) by blast
    have inU: "known b2 \<subseteq> U"
      using rec_known [OF a(1) rc] a(2) off less.prems(2) by blast
    obtain n where n: "n \<in> set ns" using False by (cases ns) auto
    have "queried b \<union> set ns \<subseteq> queried b2"
      using alpha_marks [OF less.prems(1) al] rec_grows [OF a(1) rc] by blast
    then have "U - queried b2 \<subset> U - queried b"
      using n alpha_fresh [OF less.prems(1) al n] less.prems(2) by blast
    then have "card (U - queried b2) < card (U - queried b)"
      using assms(1) by (intro psubset_card_mono) auto
    from less.hyps [OF this b2 inU, of rs s1] obtain cur' b' s' where
      "lookup_rounds alpha rec round rs b2 s1 = Some (cur', b', s')"
      "invar b'" "known b2 \<subseteq> known b'" "known b' \<subseteq> U" by blast
    then show ?thesis
      using False b2 grows inU by (subst lookup_rounds.simps) (auto simp: al rd rc)
  qed
qed

end

section \<open>The buffer as a lookup state\<close>

text \<open>
  Entries of the same contact carry the same marks, a contact is marked as responded only with a
  reason to be, and the entries are sorted after every round.
\<close>

definition lb_known :: "lookup_buffer \<Rightarrow> node_info set" where
  "lb_known b = ln_node_info ` set (lb_nodes b)"

definition lb_queried :: "lookup_buffer \<Rightarrow> node_info set" where
  "lb_queried b = ln_node_info ` {n \<in> set (lb_nodes b). ln_queried n}"

definition lb_agree :: "lookup_node_info list \<Rightarrow> bool" where
  "lb_agree ns \<longleftrightarrow> (\<forall>x \<in> set ns. \<forall>y \<in> set ns. ln_node_info x = ln_node_info y \<longrightarrow> x = y)"

definition lb_inv :: "lookup_buffer \<Rightarrow> bool" where
  "lb_inv b \<longleftrightarrow> lb_agree (lb_nodes b)"

definition lb_sorted :: "lookup_buffer \<Rightarrow> bool" where
  "lb_sorted b \<longleftrightarrow> sorted (map (target_distance (lb_target b)) (lb_nodes b))"

lemma lookup_node_info_eqI:
  "ln_node_info x = ln_node_info y \<Longrightarrow> ln_queried x = ln_queried y \<Longrightarrow>
    ln_responded x = ln_responded y \<Longrightarrow> (x :: lookup_node_info) = y"
  by simp

lemma sort_same [simp]:
  "lb_known (LookupBuffer_sort b) = lb_known b" "lb_queried (LookupBuffer_sort b) = lb_queried b"
  "lb_inv (LookupBuffer_sort b) = lb_inv b" "lb_sorted (LookupBuffer_sort b)"
  "lb_this_node (LookupBuffer_sort b) = lb_this_node b"
  "lb_target (LookupBuffer_sort b) = lb_target b"
  by (simp_all add: lb_known_def lb_queried_def lb_inv_def lb_agree_def LookupBuffer_sort_def
      lb_sorted_def)

lemma lb_inv_new [inv_intros]: "lb_inv (LookupBuffer_new target ns this)"
  by (auto simp: LookupBuffer_new_def LookupBuffer_sort_def lb_inv_def lb_agree_def LookupNodeInfo_new_def)

lemma lb_sorted_new [simp]: "lb_sorted (LookupBuffer_new target ns this)"
  by (simp add: LookupBuffer_new_def)

lemma lb_new_simps [simp]:
  "lb_known (LookupBuffer_new target ns this) = set ns"
  "lb_queried (LookupBuffer_new target ns this) = {}"
  "lb_this_node (LookupBuffer_new target ns this) = this"
  "lb_target (LookupBuffer_new target ns this) = target"
  by (simp_all add: LookupBuffer_new_def)
    (auto simp: lb_known_def lb_queried_def LookupNodeInfo_new_def image_image)

lemma lb_known_map: "lb_known b = set (map ln_node_info (lb_nodes b))"
  by (simp add: lb_known_def)

lemma lb_agree_map:
  assumes "lb_agree ns" and "\<And>x. ln_node_info (g x) = ln_node_info x"
  shows "lb_agree (map g ns)"
  using assms by (auto simp: lb_agree_def)

lemma queried_after_marking:
  "ln_node_info ` {n \<in> set (map (\<lambda>n. if ni_id (ln_node_info n) = k then n\<lparr>ln_queried := True\<rparr> else n) ns). ln_queried n} =
     ln_node_info ` {n \<in> set ns. ln_queried n} \<union> {n \<in> ln_node_info ` set ns. ni_id n = k}"
  by (induction ns) (auto simp: Collect_disj_eq conj_disj_distribR image_Un split: if_splits)

lemma queried_after_responding:
  "ln_node_info ` {n \<in> set (map (\<lambda>n. if ni_id (ln_node_info n) = k then n\<lparr>ln_responded := True\<rparr> else n) ns). ln_queried n} =
     ln_node_info ` {n \<in> set ns. ln_queried n}"
  by (induction ns) (auto simp: Collect_disj_eq conj_disj_distribR image_Un split: if_splits)

lemma mark_node_infos [simp]:
  "map ln_node_info (lb_nodes (LookupBuffer_mark_node_as_queried k b)) = map ln_node_info (lb_nodes b)"
  "map ln_node_info (lb_nodes (LookupBuffer_mark_node_as_responded k b)) = map ln_node_info (lb_nodes b)"
  by (simp_all add: LookupBuffer_mark_node_as_queried_def LookupBuffer_mark_node_as_responded_def)

lemma lb_nodes_mark:
  "lb_nodes (LookupBuffer_mark_node_as_queried k b) =
     map (\<lambda>n. if ni_id (ln_node_info n) = k then n\<lparr>ln_queried := True\<rparr> else n) (lb_nodes b)"
  "lb_nodes (LookupBuffer_mark_node_as_responded k b) =
     map (\<lambda>n. if ni_id (ln_node_info n) = k then n\<lparr>ln_responded := True\<rparr> else n) (lb_nodes b)"
  by (simp_all add: LookupBuffer_mark_node_as_queried_def LookupBuffer_mark_node_as_responded_def)

lemma mark_known [simp]:
  "lb_known (LookupBuffer_mark_node_as_queried k b) = lb_known b"
  "lb_known (LookupBuffer_mark_node_as_responded k b) = lb_known b"
  by (simp_all only: lb_known_map mark_node_infos)

lemma mark_queried [simp]:
  "lb_queried (LookupBuffer_mark_node_as_queried k b) =
     lb_queried b \<union> {n \<in> lb_known b. ni_id n = k}"
  "lb_queried (LookupBuffer_mark_node_as_responded k b) = lb_queried b"
  unfolding lb_queried_def lb_known_def lb_nodes_mark queried_after_marking queried_after_responding
  by (rule refl)+

lemma mark_same [simp]:
  "lb_this_node (LookupBuffer_mark_node_as_queried k b) = lb_this_node b"
  "lb_target (LookupBuffer_mark_node_as_queried k b) = lb_target b"
  "lb_this_node (LookupBuffer_mark_node_as_responded k b) = lb_this_node b"
  "lb_target (LookupBuffer_mark_node_as_responded k b) = lb_target b"
  by (simp_all add: LookupBuffer_mark_node_as_queried_def LookupBuffer_mark_node_as_responded_def)

lemma lb_inv_mark [inv_intros]:
  "lb_inv b \<Longrightarrow> lb_inv (LookupBuffer_mark_node_as_queried k b)"
  "lb_inv b \<Longrightarrow> lb_inv (LookupBuffer_mark_node_as_responded k b)"
  by (simp_all add: lb_inv_def LookupBuffer_mark_node_as_queried_def
      LookupBuffer_mark_node_as_responded_def lb_agree_map)

lemma push_node_simps [simp]:
  "lb_known (push_node n b) = lb_known b \<union> ({n} - {lb_this_node b})"
  "lb_queried (push_node n b) = lb_queried b"
  "lb_this_node (push_node n b) = lb_this_node b"
  "lb_target (push_node n b) = lb_target b"
  by (auto simp: push_node_def lb_known_def lb_queried_def LookupNodeInfo_eq_def
      LookupNodeInfo_new_def)

lemma lb_inv_push [inv_intros]: "lb_inv b \<Longrightarrow> lb_inv (push_node n b)"
  by (auto simp: lb_inv_def lb_agree_def push_node_def LookupNodeInfo_eq_def LookupNodeInfo_new_def)

lemma fold_push_simps [simp]:
  "lb_known (fold push_node ns b) = lb_known b \<union> (set ns - {lb_this_node b})"
  "lb_queried (fold push_node ns b) = lb_queried b"
  "lb_this_node (fold push_node ns b) = lb_this_node b"
  "lb_target (fold push_node ns b) = lb_target b"
  by (induction ns arbitrary: b) auto

lemma lb_inv_fold_push [inv_intros]: "lb_inv b \<Longrightarrow> lb_inv (fold push_node ns b)"
  by (induction ns arbitrary: b) (simp_all add: lb_inv_push)

lemma fold_mark_queried_simps [simp]:
  "lb_known (fold (\<lambda>n. LookupBuffer_mark_node_as_queried (ni_id n)) ns b) = lb_known b"
  "lb_this_node (fold (\<lambda>n. LookupBuffer_mark_node_as_queried (ni_id n)) ns b) = lb_this_node b"
  "lb_target (fold (\<lambda>n. LookupBuffer_mark_node_as_queried (ni_id n)) ns b) = lb_target b"
  "lb_queried (fold (\<lambda>n. LookupBuffer_mark_node_as_queried (ni_id n)) ns b) =
     lb_queried b \<union> {n \<in> lb_known b. ni_id n \<in> ni_id ` set ns}"
  "map ln_node_info (lb_nodes (fold (\<lambda>n. LookupBuffer_mark_node_as_queried (ni_id n)) ns b)) =
     map ln_node_info (lb_nodes b)"
  by (induction ns arbitrary: b) auto

lemma lb_inv_fold_mark [inv_intros]:
  "lb_inv b \<Longrightarrow> lb_inv (fold (\<lambda>n. LookupBuffer_mark_node_as_queried (ni_id n)) ns b)"
  by (induction ns arbitrary: b) (simp_all add: lb_inv_mark)

text \<open>What marking and pushing keep, recording a round keeps.\<close>

lemma fold_push_keeps:
  assumes "P b" and "\<And>n b. n \<in> set ns \<Longrightarrow> P b \<Longrightarrow> P (push_node n b)"
  shows "P (fold push_node ns b)"
  using assms by (induction ns arbitrary: b) auto

lemma record_responses_keeps:
  assumes "P b"
    and q: "\<And>r b. r \<in> set rs \<Longrightarrow> P b \<Longrightarrow> P (LookupBuffer_mark_node_as_queried (ni_id (lr_resolver r)) b)"
    and a: "\<And>r b. r \<in> set rs \<Longrightarrow> P b \<Longrightarrow> P (LookupBuffer_mark_node_as_responded (ni_id (lr_resolver r)) b)"
    and p: "\<And>r n b. r \<in> set rs \<Longrightarrow> n \<in> set (lr_k_closest r) \<Longrightarrow> P b \<Longrightarrow> P (push_node n b)"
  shows "P (snd (record_responses fv rs b))"
proof -
  have "P (snd (record_responses fv rs' b))" if "set rs' \<subseteq> set rs" "P b" for rs' b
    using that
  proof (induction rs' arbitrary: b)
    case (Cons r rs')
    then have r: "r \<in> set rs" by simp
    have "P (fold push_node (lr_k_closest r) b)"
      by (rule fold_push_keeps [where P = P, OF Cons.prems(2)]) (rule p [OF r])
    then show ?case using Cons q [OF r Cons.prems(2)] a [OF r] by auto
  qed simp
  then show ?thesis using assms(1) by simp
qed

lemma record_responses_inv:
  assumes "lb_inv b"
  shows "lb_inv (snd (record_responses fv rs b))"
  by (rule record_responses_keeps [where P = lb_inv, OF assms]) (simp_all add: inv_intros)

lemma record_responses_same [simp]:
  "lb_this_node (snd (record_responses fv rs b)) = lb_this_node b"
  "lb_target (snd (record_responses fv rs b)) = lb_target b"
  by (rule record_responses_keeps [where P = "\<lambda>x. lb_this_node x = lb_this_node b"]; simp)
    (rule record_responses_keeps [where P = "\<lambda>x. lb_target x = lb_target b"]; simp)

lemma record_responses_grows:
  "lb_known b \<subseteq> lb_known (snd (record_responses fv rs b))"
  "lb_queried b \<subseteq> lb_queried (snd (record_responses fv rs b))"
  by (rule record_responses_keeps [where P = "\<lambda>x. lb_known b \<subseteq> lb_known x"]; auto)
    (rule record_responses_keeps [where P = "\<lambda>x. lb_queried b \<subseteq> lb_queried x"]; auto)

lemma record_responses_known:
  "lb_known (snd (record_responses fv rs b)) \<subseteq>
     lb_known b \<union> ((\<Union>r \<in> set rs. set (lr_k_closest r)) - {lb_this_node b})"
  by (rule conjunct1, rule record_responses_keeps
      [where P = "\<lambda>x. lb_known x \<subseteq> lb_known b \<union> ((\<Union>r \<in> set rs. set (lr_k_closest r)) - {lb_this_node b})
         \<and> lb_this_node x = lb_this_node b"]) auto

lemma get_alpha_eq:
  "LookupBuffer_get_alpha_unqueried_nodes b = (ns, b') \<longleftrightarrow>
     ns = take ALPHA (map ln_node_info (filter (\<lambda>n. \<not> ln_queried n) (lb_nodes b))) \<and>
     b' = fold (\<lambda>n. LookupBuffer_mark_node_as_queried (ni_id n)) ns b"
  by (auto simp: LookupBuffer_get_alpha_unqueried_nodes_def Let_def)

lemma record_round_cases:
  assumes "LookupBuffer_record_lookup_round_responses rs fv b = (c, b')"
  obtains (found) "record_responses fv rs b = (True, b')" "c"
  | (recorded) b1 where "record_responses fv rs b = (False, b1)" "b' = LookupBuffer_sort b1"
      "c \<longleftrightarrow> LookupBuffer_get_resulting_vector b' \<noteq> LookupBuffer_get_resulting_vector b"
  using assms
  by (cases "record_responses fv rs b")
    (auto simp: LookupBuffer_record_lookup_round_responses_def Let_def split: if_splits)

lemma record_round_laws:
  assumes "LookupBuffer_record_lookup_round_responses rs fv b = (c, b')" and "lb_inv b"
  shows "lb_inv b'" and "lb_known b \<subseteq> lb_known b'" and "lb_queried b \<subseteq> lb_queried b'"
    and "lb_known b' \<subseteq> lb_known b \<union> ((\<Union>r \<in> set rs. set (lr_k_closest r)) - {lb_this_node b})"
    and "lb_this_node b' = lb_this_node b" and "lb_target b' = lb_target b"
  using record_responses_inv [OF assms(2), of fv rs] record_responses_grows [of b fv rs]
    record_responses_known [of fv rs b] record_responses_same [of fv rs b]
  by (cases rule: record_round_cases [OF assms(1)]; simp)+

lemma alpha_unqueried:
  assumes "LookupBuffer_get_alpha_unqueried_nodes b = (ns, b')" and "n \<in> set ns"
  obtains e where "e \<in> set (lb_nodes b)" "\<not> ln_queried e" "n = ln_node_info e"
proof -
  have "n \<in> set (map ln_node_info (filter (\<lambda>n. \<not> ln_queried n) (lb_nodes b)))"
    using assms in_set_takeD by (fastforce simp only: get_alpha_eq)
  then show thesis using that by auto
qed

interpretation lb: lookup_state lb_inv lb_known lb_queried LookupBuffer_get_alpha_unqueried_nodes
  "\<lambda>rs. LookupBuffer_record_lookup_round_responses rs fv" "\<lambda>r. set (lr_k_closest r)"
  for fv :: bool
proof unfold_locales
  show "lb_queried b \<subseteq> lb_known b" for b
    by (auto simp: lb_queried_def lb_known_def)
next
  fix b ns b' n
  assume inv: "lb_inv b" and al: "LookupBuffer_get_alpha_unqueried_nodes b = (ns, b')"
  then show "lb_inv b'" by (simp add: get_alpha_eq inv_intros)
  show "lb_known b' = lb_known b" using al by (simp add: get_alpha_eq)
  have known: "set ns \<subseteq> lb_known b"
    using alpha_unqueried [OF al] by (auto simp: lb_known_def)
  then show "lb_queried b \<union> set ns \<subseteq> lb_queried b'"
    using al by (auto simp: get_alpha_eq)
  show "n \<in> lb_known b \<and> n \<notin> lb_queried b" if n: "n \<in> set ns"
  proof (rule alpha_unqueried [OF al n])
    fix e assume e: "e \<in> set (lb_nodes b)" "\<not> ln_queried e" "n = ln_node_info e"
    then have "n \<notin> lb_queried b"
      using inv by (auto simp: lb_queried_def lb_inv_def lb_agree_def)
    then show ?thesis using known n by blast
  qed
next
  fix b b'
  assume "lb_inv b" and "LookupBuffer_get_alpha_unqueried_nodes b = ([], b')"
  then show "lb_known b \<subseteq> lb_queried b"
    by (auto simp: get_alpha_eq lb_known_def lb_queried_def ALPHA_def filter_empty_conv)
next
  fix b rs c b'
  assume "lb_inv b" and "LookupBuffer_record_lookup_round_responses rs fv b = (c, b')"
  note laws = record_round_laws [OF this(2,1)]
  show "lb_inv b'" by (rule laws)
  show "lb_known b' \<subseteq> lb_known b \<union> (\<Union>r \<in> set rs. set (lr_k_closest r))" using laws(4) by blast
  show "lb_known b \<subseteq> lb_known b' \<and> lb_queried b \<subseteq> lb_queried b'" using laws(2,3) by simp
qed

section \<open>The result of a lookup\<close>

definition lb_alive :: "lookup_buffer \<Rightarrow> lookup_node_info list" where
  "lb_alive b = filter (\<lambda>n. \<not> LookupNodeInfo_has_failed_to_respond n) (lb_nodes b)"

text \<open>
  The result holds the \<open>K\<close> contacts nearest to the target among those that did not fail:
  it is sorted, and every other live contact is at least as far as each contact of the result.
\<close>

lemma resulting_vector_alive:
  "LookupBuffer_get_resulting_vector b = map ln_node_info (take K (lb_alive b))"
  by (simp add: LookupBuffer_get_resulting_vector_def lb_alive_def)

lemma sorted_lb_alive:
  "lb_sorted b \<Longrightarrow> sorted (map (target_distance (lb_target b)) (lb_alive b))"
  by (simp add: lb_sorted_def lb_alive_def sorted_filter)

lemma resulting_vector_sorted:
  assumes "lb_sorted b"
  shows "sorted (map (\<lambda>n. Key_distance (ni_id n) (lb_target b)) (LookupBuffer_get_resulting_vector b))"
proof -
  have "map (\<lambda>n. Key_distance (ni_id n) (lb_target b)) (LookupBuffer_get_resulting_vector b) =
      take K (map (target_distance (lb_target b)) (lb_alive b))"
    by (simp add: resulting_vector_alive target_distance_def take_map)
  then show ?thesis using sorted_wrt_take [OF sorted_lb_alive [OF assms]] by simp
qed

lemma resulting_vector_nearest:
  assumes "lb_sorted b" and "e \<in> set (lb_alive b)"
    and "ln_node_info e \<notin> set (LookupBuffer_get_resulting_vector b)"
    and "n \<in> set (LookupBuffer_get_resulting_vector b)"
  shows "Key_distance (ni_id n) (lb_target b) \<le> target_distance (lb_target b) e"
    and "length (LookupBuffer_get_resulting_vector b) = K"
proof -
  let ?f = "target_distance (lb_target b)"
  have s: "sorted (map ?f (take K (lb_alive b)) @ map ?f (drop K (lb_alive b)))"
    using sorted_lb_alive [OF assms(1)] by (metis append_take_drop_id map_append)
  have e: "e \<in> set (drop K (lb_alive b))"
    using assms(2,3) by (metis Un_iff append_take_drop_id image_eqI resulting_vector_alive set_append set_map)
  with s assms(4) show "Key_distance (ni_id n) (lb_target b) \<le> ?f e"
    by (fastforce simp: sorted_append resulting_vector_alive target_distance_def)
  show "length (LookupBuffer_get_resulting_vector b) = K"
    using e by (cases "length (lb_alive b) \<le> K") (simp_all add: resulting_vector_alive)
qed

lemma resulting_vector_known: "set (LookupBuffer_get_resulting_vector b) \<subseteq> lb_known b"
  by (auto simp: LookupBuffer_get_resulting_vector_def lb_known_def dest: in_set_takeD)

lemma length_resulting_vector: "length (LookupBuffer_get_resulting_vector b) \<le> K"
  by (simp add: LookupBuffer_get_resulting_vector_def)

lemma lb_sorted_mark [simp]:
  "lb_sorted (LookupBuffer_mark_node_as_queried k b) = lb_sorted b"
  unfolding lb_sorted_def lb_nodes_mark mark_same map_map comp_def target_distance_def
  by (rule arg_cong [where f = sorted], rule map_cong) simp_all

lemma lb_sorted_alpha:
  "LookupBuffer_get_alpha_unqueried_nodes b = (ns, b') \<Longrightarrow> lb_sorted b' = lb_sorted b"
proof -
  have "lb_sorted (fold (\<lambda>n. LookupBuffer_mark_node_as_queried (ni_id n)) ns b) = lb_sorted b" for ns
    by (induction ns arbitrary: b) simp_all
  then show "LookupBuffer_get_alpha_unqueried_nodes b = (ns, b') \<Longrightarrow> lb_sorted b' = lb_sorted b"
    by (simp add: get_alpha_eq)
qed

lemma lb_sorted_record:
  assumes "LookupBuffer_record_lookup_round_responses rs False b = (c, b')"
  shows "lb_sorted b'"
proof -
  have "\<not> fst (record_responses False rs b)"
    by (induction "False" rs b rule: record_responses.induct) auto
  then show ?thesis by (cases rule: record_round_cases [OF assms]) auto
qed

text \<open>A buffer that starts without repetitions stays so.\<close>

definition lb_distinct :: "lookup_buffer \<Rightarrow> bool" where
  "lb_distinct b \<longleftrightarrow> distinct (map ln_node_info (lb_nodes b))"

lemma lb_distinct_sort [simp]: "lb_distinct (LookupBuffer_sort b) = lb_distinct b"
  by (simp add: lb_distinct_def LookupBuffer_sort_def distinct_map)

lemma lb_distinct_mark [simp]:
  "lb_distinct (LookupBuffer_mark_node_as_queried k b) = lb_distinct b"
  "lb_distinct (LookupBuffer_mark_node_as_responded k b) = lb_distinct b"
  by (simp_all only: lb_distinct_def mark_node_infos)

lemma lb_distinct_push: "lb_distinct b \<Longrightarrow> lb_distinct (push_node n b)"
  by (auto simp: lb_distinct_def push_node_def LookupNodeInfo_eq_def LookupNodeInfo_new_def)

lemma lb_distinct_new: "distinct ns \<Longrightarrow> lb_distinct (LookupBuffer_new target ns this)"
  by (simp add: LookupBuffer_new_def) (simp add: lb_distinct_def LookupNodeInfo_new_def comp_def)

lemma lb_distinct_alpha:
  "LookupBuffer_get_alpha_unqueried_nodes b = (ns, b') \<Longrightarrow> lb_distinct b' = lb_distinct b"
  by (simp add: get_alpha_eq lb_distinct_def)

lemma lb_distinct_record:
  assumes "LookupBuffer_record_lookup_round_responses rs fv b = (c, b')" "lb_distinct b"
  shows "lb_distinct b'"
proof -
  have "lb_distinct (snd (record_responses fv rs b))"
    by (rule record_responses_keeps [where P = lb_distinct, OF assms(2)]) (simp_all add: lb_distinct_push)
  then show ?thesis by (cases rule: record_round_cases [OF assms(1)]) simp_all
qed

lemma distinct_resulting_vector:
  assumes "lb_distinct b"
  shows "distinct (LookupBuffer_get_resulting_vector b)"
proof -
  have "distinct (map ln_node_info (lb_alive b))"
    using assms by (auto simp: lb_distinct_def lb_alive_def distinct_map intro: inj_on_subset)
  then show ?thesis by (simp add: resulting_vector_alive flip: take_map)
qed

text \<open>Contacts have 20-byte identifiers and socket addresses: there are finitely many of them.\<close>

lemma finite_wf_nodes: "finite {n. wf_node n}"
proof -
  have "finite (UNIV :: socket_addr set)"
  proof (rule finite_subset)
    show "(UNIV :: socket_addr set) \<subseteq> (\<lambda>(a, p). SocketAddrV4 a p) ` UNIV \<union>
        (\<lambda>(a, p, f, s). SocketAddrV6 a p f s) ` UNIV"
    proof
      show "x \<in> (\<lambda>(a, p). SocketAddrV4 a p) ` UNIV \<union> (\<lambda>(a, p, f, s). SocketAddrV6 a p f s) ` UNIV" for x
        by (cases x) (auto simp: image_iff)
    qed
  qed simp
  moreover have "finite {k. wf_key k}"
  proof (rule finite_subset)
    show "{k. wf_key k} \<subseteq> Key ` {xs. set xs \<subseteq> UNIV \<and> length xs = K}"
      by (auto simp: wf_key_def image_iff intro: exI [of _ "key_value _"] key.collapse [symmetric])
  qed (intro finite_imageI finite_lists_length_eq finite)
  ultimately have "finite ((\<lambda>(k, a). NodeInfo_new k a) ` ({k. wf_key k} \<times> UNIV))"
    by (intro finite_imageI finite_cartesian_product)
  moreover have "{n. wf_node n} \<subseteq> (\<lambda>(k, a). NodeInfo_new k a) ` ({k. wf_key k} \<times> UNIV)"
  proof
    fix n assume "n \<in> {n. wf_node n}"
    then show "n \<in> (\<lambda>(k, a). NodeInfo_new k a) ` ({k. wf_key k} \<times> UNIV)"
      by (cases n) (auto simp: wf_node_def NodeInfo_new_def image_iff)
  qed
  ultimately show ?thesis by (rule rev_finite_subset)
qed

end
