(* ===== verification/Hash_Map.thy ===== *)
theory Hash_Map
  imports Prelude "HOL-Library.AList"
begin

text \<open>
  \<open>std::collections::HashMap\<close>. The tables of the program (pending requests, data transfers,
  owned chunks, uploaded files) rely on the laws of the locale \<open>finite_map\<close>: what a lookup
  returns after an insertion or a removal, and that the keys enumerate the entries once each.
  The model is an association list without repeated keys, whose order stands for the
  unspecified iteration order of the hash table.
\<close>

section \<open>The map operations\<close>

type_synonym ('k, 'v) hash_map = "('k \<times> 'v) list"

definition HashMap_new :: "('k, 'v) hash_map" where
  "HashMap_new = []"

definition HashMap_get :: "('k, 'v) hash_map \<Rightarrow> 'k \<Rightarrow> 'v option" where
  "HashMap_get m k = map_of m k"

definition HashMap_contains_key :: "('k, 'v) hash_map \<Rightarrow> 'k \<Rightarrow> bool" where
  "HashMap_contains_key m k \<longleftrightarrow> HashMap_get m k \<noteq> None"

text \<open>\<open>insert\<close> and \<open>remove\<close> return the previous entry of the key.\<close>

definition HashMap_put :: "'k \<Rightarrow> 'v \<Rightarrow> ('k, 'v) hash_map \<Rightarrow> ('k, 'v) hash_map" where
  "HashMap_put k v m = AList.update k v m"

definition HashMap_delete :: "'k \<Rightarrow> ('k, 'v) hash_map \<Rightarrow> ('k, 'v) hash_map" where
  "HashMap_delete k m = AList.delete k m"

definition HashMap_insert ::
  "'k \<Rightarrow> 'v \<Rightarrow> ('k, 'v) hash_map \<Rightarrow> 'v option \<times> ('k, 'v) hash_map" where
  "HashMap_insert k v m = (HashMap_get m k, HashMap_put k v m)"

definition HashMap_remove :: "'k \<Rightarrow> ('k, 'v) hash_map \<Rightarrow> 'v option \<times> ('k, 'v) hash_map" where
  "HashMap_remove k m = (HashMap_get m k, HashMap_delete k m)"

definition HashMap_keys :: "('k, 'v) hash_map \<Rightarrow> 'k list" where
  "HashMap_keys m = map fst m"

definition HashMap_len :: "('k, 'v) hash_map \<Rightarrow> nat" where
  "HashMap_len m = length m"

definition HashMap_retain :: "('k \<Rightarrow> bool) \<Rightarrow> ('k, 'v) hash_map \<Rightarrow> ('k, 'v) hash_map" where
  "HashMap_retain P m = filter (\<lambda>e. P (fst e)) m"

definition wf_map :: "('k, 'v) hash_map \<Rightarrow> bool" where
  "wf_map m \<longleftrightarrow> distinct (map fst m)"

section \<open>The interface the tables rely on\<close>

locale finite_map =
  fixes empty :: 'm
    and get :: "'m \<Rightarrow> 'k \<Rightarrow> 'v option"
    and put :: "'k \<Rightarrow> 'v \<Rightarrow> 'm \<Rightarrow> 'm"
    and del :: "'k \<Rightarrow> 'm \<Rightarrow> 'm"
    and keys :: "'m \<Rightarrow> 'k list"
    and invar :: "'m \<Rightarrow> bool"
  assumes get_empty: "get empty k = None"
    and get_put: "invar m \<Longrightarrow> get (put k v m) = (get m)(k \<mapsto> v)"
    and get_del: "invar m \<Longrightarrow> get (del k m) = (get m)(k := None)"
    and keys_dom: "invar m \<Longrightarrow> set (keys m) = dom (get m)"
    and keys_distinct: "invar m \<Longrightarrow> distinct (keys m)"
    and invar_empty: "invar empty"
    and invar_put: "invar m \<Longrightarrow> invar (put k v m)"
    and invar_del: "invar m \<Longrightarrow> invar (del k m)"
begin

lemma card_keys: "invar m \<Longrightarrow> length (keys m) = card (dom (get m))"
  using distinct_card [OF keys_distinct] by (simp add: keys_dom)

lemma finite_dom: "invar m \<Longrightarrow> finite (dom (get m))"
  using keys_dom [of m] by (metis List.finite_set)

lemma length_keys_put:
  assumes "invar m"
  shows "length (keys (put k v m)) = (if get m k = None then Suc (length (keys m)) else length (keys m))"
  using assms finite_dom [OF assms]
  by (auto simp: card_keys invar_put get_put card_insert_if insert_absorb domIff)

lemma length_keys_del:
  assumes "invar m"
  shows "length (keys (del k m)) = (if get m k = None then length (keys m) else length (keys m) - 1)"
  using assms finite_dom [OF assms]
  by (auto simp: card_keys invar_del get_del card_Diff_singleton_if)

lemma put_then_del_fresh:
  "invar m \<Longrightarrow> get m k = None \<Longrightarrow> get (del k (put k v m)) = get m"
  by (simp add: get_put get_del invar_put fun_upd_idem)

lemma put_commute:
  "invar m \<Longrightarrow> k \<noteq> l \<Longrightarrow> get (put k v (put l u m)) = get (put l u (put k v m))"
  by (simp add: get_put invar_put fun_upd_twist)

lemma put_del_commute:
  "invar m \<Longrightarrow> k \<noteq> l \<Longrightarrow> get (put k v (del l m)) = get (del l (put k v m))"
  by (simp add: get_put get_del invar_put invar_del fun_upd_twist)

end

interpretation hm: finite_map HashMap_new HashMap_get HashMap_put HashMap_delete HashMap_keys wf_map
  by unfold_locales
    (auto simp: HashMap_new_def HashMap_get_def HashMap_put_def HashMap_delete_def
      HashMap_keys_def wf_map_def update_conv' delete_conv' distinct_update distinct_delete
      dom_map_of_conv_image_fst fun_eq_iff image_iff Bex_def)

lemmas hash_map_defs =
  HashMap_contains_key_def HashMap_insert_def HashMap_remove_def

lemmas hash_map_laws [simp] =
  hm.get_empty hm.get_put hm.get_del hm.invar_empty hm.invar_put hm.invar_del

lemma HashMap_len_keys: "HashMap_len m = length (HashMap_keys m)"
  by (simp add: HashMap_len_def HashMap_keys_def)

lemma wf_map_retain: "wf_map m \<Longrightarrow> wf_map (HashMap_retain P m)"
  by (auto simp: wf_map_def HashMap_retain_def distinct_map inj_on_def)

lemma HashMap_get_retain:
  "HashMap_get (HashMap_retain P m) k = (if P k then HashMap_get m k else None)"
  by (induction m) (auto simp: HashMap_get_def HashMap_retain_def)

lemma HashMap_entries: "wf_map m \<Longrightarrow> (k, v) \<in> set m \<longleftrightarrow> HashMap_get m k = Some v"
  by (simp add: wf_map_def HashMap_get_def)

end
