(* ===== verification/Request_Map.thy ===== *)
theory Request_Map
  imports Hash_Map KBucket
begin

text \<open>
  \<open>networking/request_map.rs\<close>, and the protocol by which
  \<open>Node::send_request_and_wait\<close> and the receive workers share it. A client task registers the
  sending half of a channel under its request identifier, sends the request and waits; a worker
  that receives a response takes the sending half out and sends the response through it. The
  two relations \<open>client_step\<close> and \<open>worker_step\<close> give the atomic steps of both; a run of the
  system interleaves them in any order.
\<close>

section \<open>Operations\<close>

text \<open>The values are the sending halves of the channels; \<open>'c\<close> names them.\<close>

type_synonym 'c request_map = "(request_id, 'c) hash_map"

definition RequestMap_new :: "'c request_map" where
  "RequestMap_new = HashMap_new"

definition RequestMap_add_request :: "request_id \<Rightarrow> 'c \<Rightarrow> 'c request_map \<Rightarrow> 'c request_map" where
  "RequestMap_add_request rid sender m = snd (HashMap_insert rid sender m)"

definition RequestMap_take_request :: "request_id \<Rightarrow> 'c request_map \<Rightarrow> 'c option \<times> 'c request_map" where
  "RequestMap_take_request rid m = HashMap_remove rid m"

definition RequestMap_contains_request :: "request_id \<Rightarrow> 'c request_map \<Rightarrow> bool" where
  "RequestMap_contains_request rid m = HashMap_contains_key m rid"

definition RequestMap_remove_request :: "request_id \<Rightarrow> 'c request_map \<Rightarrow> 'c request_map" where
  "RequestMap_remove_request rid m = snd (HashMap_remove rid m)"

text \<open>
  \<open>handle_response\<close> without interference: the channel the response goes to, if the request is
  pending, and the map afterwards.
\<close>

definition RequestMap_handle_response :: "response \<Rightarrow> 'c request_map \<Rightarrow> 'c option \<times> 'c request_map" where
  "RequestMap_handle_response response m =
     (if \<not> RequestMap_contains_request (rs_request_id response) m then (None, m)
      else RequestMap_take_request (rs_request_id response) m)"

lemmas request_map_defs = RequestMap_new_def RequestMap_add_request_def RequestMap_take_request_def
  RequestMap_contains_request_def RequestMap_remove_request_def RequestMap_handle_response_def
  HashMap_insert_def HashMap_remove_def HashMap_contains_key_def

text \<open>A response reaches the channel of its request once and leaves the map as before.\<close>

lemma handle_response_add:
  assumes "wf_map m" and "\<not> RequestMap_contains_request (rs_request_id r) m"
    and "RequestMap_handle_response r (RequestMap_add_request (rs_request_id r) c m) = (d, m')"
  shows "d = Some c" and "HashMap_get m' = HashMap_get m" and "RequestMap_handle_response r m' = (None, m')"
  using assms by (auto simp: request_map_defs fun_eq_iff)

section \<open>The protocol\<close>

text \<open>
  A client task, between two awaits of \<open>send_request_and_wait\<close>: before the request is in the
  map, registered, awaiting the channel, about to remove the entry after a failed send or after
  the timeout, and finished.
\<close>

datatype client =
    CStart
  | CRegistered
  | CSendFailed
  | CAwaiting
  | CExpired
  | CDone "node_error + response"

text \<open>
  A worker in \<open>handle_response\<close>: waiting for a datagram, before the \<open>contains_request\<close>,
  before the \<open>take_request\<close>, and holding the sending half of the channel of a client.
\<close>

datatype worker =
    WIdle
  | WReceived response
  | WPending response
  | WTaken response nat

record protocol =
  pr_map :: "nat request_map"
  pr_client :: "nat \<Rightarrow> client"
  pr_mailbox :: "nat \<Rightarrow> response option"
  pr_workers :: "worker list"

definition holds :: "nat \<Rightarrow> worker \<Rightarrow> bool" where
  "holds i wk \<longleftrightarrow> (\<exists>r. wk = WTaken r i)"

text \<open>The sending half of the channel of client \<open>i\<close> exists: in the map or in a worker.\<close>

definition sender_alive :: "protocol \<Rightarrow> nat \<Rightarrow> bool" where
  "sender_alive s i \<longleftrightarrow> (\<exists>rid. HashMap_get (pr_map s) rid = Some i) \<or> (\<exists>wk \<in> set (pr_workers s). holds i wk)"

inductive client_step :: "nat \<Rightarrow> (nat \<Rightarrow> request_id) \<Rightarrow> protocol \<Rightarrow> protocol \<Rightarrow> bool" for n ids where
  register: "i < n \<Longrightarrow> pr_client s i = CStart \<Longrightarrow>
    client_step n ids s (s\<lparr>pr_map := RequestMap_add_request (ids i) i (pr_map s),
      pr_client := (pr_client s)(i := CRegistered)\<rparr>)"
| sent: "pr_client s i = CRegistered \<Longrightarrow>
    client_step n ids s (s\<lparr>pr_client := (pr_client s)(i := CAwaiting)\<rparr>)"
| send_failed: "pr_client s i = CRegistered \<Longrightarrow>
    client_step n ids s (s\<lparr>pr_client := (pr_client s)(i := CSendFailed)\<rparr>)"
| unregister: "pr_client s i = CSendFailed \<Longrightarrow>
    client_step n ids s (s\<lparr>pr_map := RequestMap_remove_request (ids i) (pr_map s),
      pr_client := (pr_client s)(i := CDone (Inl UnableToSend))\<rparr>)"
| deliver: "pr_client s i = CAwaiting \<Longrightarrow> pr_mailbox s i = Some r \<Longrightarrow>
    client_step n ids s (s\<lparr>pr_client := (pr_client s)(i := CDone (Inr r))\<rparr>)"
| closed: "pr_client s i = CAwaiting \<Longrightarrow> pr_mailbox s i = None \<Longrightarrow> \<not> sender_alive s i \<Longrightarrow>
    client_step n ids s (s\<lparr>pr_client := (pr_client s)(i := CDone (Inl BadResponse))\<rparr>)"
| expire: "pr_client s i = CAwaiting \<Longrightarrow> pr_mailbox s i = None \<Longrightarrow>
    client_step n ids s (s\<lparr>pr_client := (pr_client s)(i := CExpired)\<rparr>)"
| give_up: "pr_client s i = CExpired \<Longrightarrow>
    client_step n ids s (s\<lparr>pr_map := RequestMap_remove_request (ids i) (pr_map s),
      pr_client := (pr_client s)(i := CDone (Inl ResponseTimeout))\<rparr>)"

text \<open>
  \<open>send\<close> fails when the receiving half is gone: the client has returned or its timeout has
  expired. The failure is only logged.
\<close>

definition receiver_alive :: "client \<Rightarrow> bool" where
  "receiver_alive c \<longleftrightarrow> c = CRegistered \<or> c = CSendFailed \<or> c = CAwaiting"

inductive worker_step :: "protocol \<Rightarrow> protocol \<Rightarrow> bool" where
  receive: "j < length (pr_workers s) \<Longrightarrow> pr_workers s ! j = WIdle \<Longrightarrow>
    worker_step s (s\<lparr>pr_workers := (pr_workers s)[j := WReceived r]\<rparr>)"
| unknown: "j < length (pr_workers s) \<Longrightarrow> pr_workers s ! j = WReceived r \<Longrightarrow>
    \<not> RequestMap_contains_request (rs_request_id r) (pr_map s) \<Longrightarrow>
    worker_step s (s\<lparr>pr_workers := (pr_workers s)[j := WIdle]\<rparr>)"
| pending: "j < length (pr_workers s) \<Longrightarrow> pr_workers s ! j = WReceived r \<Longrightarrow>
    RequestMap_contains_request (rs_request_id r) (pr_map s) \<Longrightarrow>
    worker_step s (s\<lparr>pr_workers := (pr_workers s)[j := WPending r]\<rparr>)"
| take: "j < length (pr_workers s) \<Longrightarrow> pr_workers s ! j = WPending r \<Longrightarrow>
    RequestMap_take_request (rs_request_id r) (pr_map s) = (Some i, m) \<Longrightarrow>
    worker_step s (s\<lparr>pr_map := m, pr_workers := (pr_workers s)[j := WTaken r i]\<rparr>)"
| gone: "j < length (pr_workers s) \<Longrightarrow> pr_workers s ! j = WPending r \<Longrightarrow>
    RequestMap_take_request (rs_request_id r) (pr_map s) = (None, m) \<Longrightarrow>
    worker_step s (s\<lparr>pr_map := m, pr_workers := (pr_workers s)[j := WIdle]\<rparr>)"
| send: "j < length (pr_workers s) \<Longrightarrow> pr_workers s ! j = WTaken r i \<Longrightarrow>
    worker_step s (s\<lparr>pr_workers := (pr_workers s)[j := WIdle],
      pr_mailbox := (if receiver_alive (pr_client s i) then (pr_mailbox s)(i := Some r)
                     else pr_mailbox s)\<rparr>)"

text \<open>\<open>n\<close> clients, each with its own request identifier, and some workers.\<close>

inductive protocol_run :: "nat \<Rightarrow> (nat \<Rightarrow> request_id) \<Rightarrow> nat \<Rightarrow> protocol \<Rightarrow> bool" for n ids workers where
  start: "protocol_run n ids workers \<lparr>pr_map = RequestMap_new, pr_client = (\<lambda>_. CStart),
    pr_mailbox = (\<lambda>_. None), pr_workers = replicate workers WIdle\<rparr>"
| client: "protocol_run n ids workers s \<Longrightarrow> client_step n ids s s' \<Longrightarrow> protocol_run n ids workers s'"
| worker: "protocol_run n ids workers s \<Longrightarrow> worker_step s s' \<Longrightarrow> protocol_run n ids workers s'"

section \<open>The invariant\<close>

text \<open>
  The sending half of each channel is one token. It is in the map, in one worker, or spent in
  the mailbox; a waiting client still has it.
\<close>

definition tokens :: "protocol \<Rightarrow> (nat \<Rightarrow> request_id) \<Rightarrow> nat \<Rightarrow> nat" where
  "tokens s ids i = of_bool (HashMap_get (pr_map s) (ids i) = Some i)
     + length (filter (holds i) (pr_workers s)) + of_bool (pr_mailbox s i \<noteq> None)"

definition protocol_inv :: "nat \<Rightarrow> (nat \<Rightarrow> request_id) \<Rightarrow> protocol \<Rightarrow> bool" where
  "protocol_inv n ids s \<longleftrightarrow>
     wf_map (pr_map s) \<and>
     (\<forall>rid i. HashMap_get (pr_map s) rid = Some i \<longrightarrow>
        i < n \<and> rid = ids i \<and> pr_client s i \<in> {CRegistered, CSendFailed, CAwaiting, CExpired}) \<and>
     (\<forall>r i. WTaken r i \<in> set (pr_workers s) \<longrightarrow> rs_request_id r = ids i) \<and>
     (\<forall>i r. pr_mailbox s i = Some r \<longrightarrow> rs_request_id r = ids i) \<and>
     (\<forall>i. tokens s ids i \<le> 1) \<and>
     (\<forall>i. receiver_alive (pr_client s i) \<longrightarrow> tokens s ids i = 1) \<and>
     (\<forall>i. pr_client s i = CStart \<longrightarrow> tokens s ids i = 0) \<and>
     (\<forall>i \<ge> n. pr_client s i = CStart) \<and>
     (\<forall>i r. pr_client s i = CDone (Inr r) \<longrightarrow> pr_mailbox s i = Some r) \<and>
     (\<forall>i. pr_client s i \<noteq> CDone (Inl BadResponse))"

lemma length_filter_update:
  assumes "j < length xs"
  shows "length (filter P (xs[j := x])) + of_bool (P (xs ! j)) = length (filter P xs) + of_bool (P x)"
proof -
  have "xs = take j xs @ xs ! j # drop (Suc j) xs" using assms by (rule split_at)
  then have "length (filter P xs) = length (filter P (take j xs @ xs ! j # drop (Suc j) xs))" by simp
  then show ?thesis using assms by (simp add: upd_conv_take_nth_drop)
qed

lemma holds_simps [simp]:
  "\<not> holds i WIdle" "\<not> holds i (WReceived r)" "\<not> holds i (WPending r)"
  "holds i (WTaken r k) \<longleftrightarrow> k = i"
  by (auto simp: holds_def)

lemma tokens_sender_alive:
  assumes "tokens s ids i = 1" "pr_mailbox s i = None"
  shows "sender_alive s i"
proof (cases "HashMap_get (pr_map s) (ids i) = Some i")
  case False
  with assms have "filter (holds i) (pr_workers s) \<noteq> []" by (auto simp: tokens_def)
  then show ?thesis by (auto simp: sender_alive_def filter_empty_conv)
qed (auto simp: sender_alive_def)

lemma protocol_inv_start:
  "protocol_inv n ids \<lparr>pr_map = RequestMap_new, pr_client = (\<lambda>_. CStart),
    pr_mailbox = (\<lambda>_. None), pr_workers = replicate workers WIdle\<rparr>"
  by (simp add: protocol_inv_def tokens_def request_map_defs HashMap_new_def HashMap_get_def wf_map_def
      receiver_alive_def)

text \<open>An entry under the identifier of a client is its own.\<close>

lemma get_clash:
  assumes "protocol_inv n ids s" "inj_on ids {..<n}" "i < n" "HashMap_get (pr_map s) (ids k) = Some k" "k \<noteq> i"
  shows "ids k \<noteq> ids i"
proof -
  have "k < n" using assms(1,4) unfolding protocol_inv_def by blast
  then show ?thesis using assms(2,3,5) by (simp add: inj_on_eq_iff)
qed

lemma client_index:
  assumes "protocol_inv n ids s" "pr_client s i \<noteq> CStart"
  shows "i < n"
  using assms unfolding protocol_inv_def by (meson not_less)

lemma protocol_inv_register:
  assumes inv: "protocol_inv n ids s" and inj: "inj_on ids {..<n}" and i: "i < n" "pr_client s i = CStart"
  shows "protocol_inv n ids (s\<lparr>pr_map := RequestMap_add_request (ids i) i (pr_map s),
      pr_client := (pr_client s)(i := CRegistered)\<rparr>)"
proof -
  let ?s = "s\<lparr>pr_map := RequestMap_add_request (ids i) i (pr_map s), pr_client := (pr_client s)(i := CRegistered)\<rparr>"
  have wf: "wf_map (pr_map s)" using inv by (simp add: protocol_inv_def)
  have z: "tokens s ids i = 0" using inv i by (simp add: protocol_inv_def)
  have t: "tokens ?s ids k = (if k = i then 1 else tokens s ids k)" for k
    using z wf get_clash [OF inv inj i(1), of k] by (auto simp: tokens_def request_map_defs)
  show ?thesis
    using inv wf i inj unfolding protocol_inv_def t
    by (simp add: request_map_defs receiver_alive_def)
qed

text \<open>Steps of a client that only move it on.\<close>

lemma protocol_inv_move:
  assumes inv: "protocol_inv n ids s" and i: "pr_client s i = c"
    and alive: "receiver_alive c" "receiver_alive c' \<or> c' = CExpired \<or>
      (\<exists>r. c' = CDone (Inr r) \<and> pr_mailbox s i = Some r)"
  shows "protocol_inv n ids (s\<lparr>pr_client := (pr_client s)(i := c')\<rparr>)"
proof -
  have t: "tokens (s\<lparr>pr_client := (pr_client s)(i := c')\<rparr>) ids k = tokens s ids k" for k
    by (simp add: tokens_def)
  have 1: "tokens s ids i = 1" using inv i alive(1) by (simp add: protocol_inv_def)
  have no: "HashMap_get (pr_map s) rid \<noteq> Some i" if "pr_mailbox s i = Some r" for rid r
    using inv that 1 by (auto simp: protocol_inv_def tokens_def)
  show ?thesis
    using inv alive i 1 no unfolding protocol_inv_def t by (auto simp: receiver_alive_def)
qed

lemma protocol_inv_remove:
  assumes inv: "protocol_inv n ids s" and inj: "inj_on ids {..<n}"
    and i: "i < n" "pr_client s i = CSendFailed \<or> pr_client s i = CExpired"
    and e: "e \<noteq> BadResponse"
  shows "protocol_inv n ids (s\<lparr>pr_map := RequestMap_remove_request (ids i) (pr_map s),
      pr_client := (pr_client s)(i := CDone (Inl e))\<rparr>)"
proof -
  let ?s = "s\<lparr>pr_map := RequestMap_remove_request (ids i) (pr_map s), pr_client := (pr_client s)(i := CDone (Inl e))\<rparr>"
  have wf: "wf_map (pr_map s)" using inv by (simp add: protocol_inv_def)
  have other: "tokens ?s ids k = tokens s ids k" if "k \<noteq> i" for k
    using that wf get_clash [OF inv inj i(1), of k] by (auto simp: tokens_def request_map_defs)
  have own: "tokens ?s ids i \<le> tokens s ids i"
    using wf by (auto simp: tokens_def request_map_defs)
  have le1: "tokens s ids k \<le> 1" for k using inv by (simp add: protocol_inv_def)
  have le: "tokens ?s ids k \<le> 1" for k
  proof (cases "k = i")
    case True
    then show ?thesis using le_trans [OF own le1] by simp
  next
    case False
    then show ?thesis using other le1 by simp
  qed
  have map: "HashMap_get (pr_map ?s) rid = Some k \<longleftrightarrow> HashMap_get (pr_map s) rid = Some k \<and> rid \<noteq> ids i" for rid k
    using wf by (simp add: request_map_defs)
  have k: "k \<noteq> i" if "HashMap_get (pr_map ?s) rid = Some k" for rid k
    using inv that map by (auto simp: protocol_inv_def)
  show ?thesis
    unfolding protocol_inv_def
  proof (intro conjI allI impI)
    show "wf_map (pr_map ?s)" using wf by (simp add: request_map_defs)
    fix rid k assume "HashMap_get (pr_map ?s) rid = Some k"
    with k map inv show "k < n" "rid = ids k" "pr_client ?s k \<in> {CRegistered, CSendFailed, CAwaiting, CExpired}"
      by (auto simp: protocol_inv_def)
  next
    show "tokens ?s ids k = 1" if "receiver_alive (pr_client ?s k)" for k
      using that inv other by (cases "k = i") (auto simp: protocol_inv_def receiver_alive_def)
    show "tokens ?s ids k = 0" if "pr_client ?s k = CStart" for k
      using that inv other by (cases "k = i") (auto simp: protocol_inv_def)
  qed (use inv le i e in \<open>auto simp: protocol_inv_def split: if_splits\<close>)
qed

lemma client_step_inv:
  assumes "client_step n ids s s'" and "protocol_inv n ids s" and "inj_on ids {..<n}"
  shows "protocol_inv n ids s'"
  using assms
proof cases
  case (closed i)
  have "sender_alive s i"
    using assms(2) closed by (intro tokens_sender_alive) (auto simp: protocol_inv_def receiver_alive_def)
  then show ?thesis using closed by simp
qed (use assms(2,3) client_index [OF assms(2)] in \<open>simp_all add: protocol_inv_register
       protocol_inv_remove protocol_inv_move receiver_alive_def\<close>)

text \<open>A worker that neither takes nor holds a sending half changes no token.\<close>

lemma protocol_inv_worker_move:
  assumes inv: "protocol_inv n ids s" and j: "j < length (pr_workers s)"
    and old: "\<forall>i. \<not> holds i (pr_workers s ! j)" and new: "\<forall>i. \<not> holds i wk"
  shows "protocol_inv n ids (s\<lparr>pr_workers := (pr_workers s)[j := wk]\<rparr>)"
proof -
  have t: "tokens (s\<lparr>pr_workers := (pr_workers s)[j := wk]\<rparr>) ids k = tokens s ids k" for k
    using length_filter_update [OF j, of "holds k" wk] old new by (simp add: tokens_def)
  have "WTaken r i \<in> set (pr_workers s)" if "WTaken r i \<in> set ((pr_workers s)[j := wk])" for r i
    using that new set_update_subset_insert [of "pr_workers s" j wk] by fastforce
  then show ?thesis using inv unfolding protocol_inv_def t by simp
qed

lemma protocol_inv_take:
  assumes inv: "protocol_inv n ids s" and inj: "inj_on ids {..<n}" and j: "j < length (pr_workers s)"
    and wk: "pr_workers s ! j = WPending r"
    and take: "RequestMap_take_request (rs_request_id r) (pr_map s) = (Some i, m)"
  shows "protocol_inv n ids (s\<lparr>pr_map := m, pr_workers := (pr_workers s)[j := WTaken r i]\<rparr>)"
proof -
  let ?s = "s\<lparr>pr_map := m, pr_workers := (pr_workers s)[j := WTaken r i]\<rparr>"
  have wf: "wf_map (pr_map s)" using inv by (simp add: protocol_inv_def)
  have get: "HashMap_get (pr_map s) (rs_request_id r) = Some i" and m: "m = HashMap_delete (rs_request_id r) (pr_map s)"
    using take by (auto simp: request_map_defs)
  have rid: "rs_request_id r = ids i" and i: "i < n" using inv get by (auto simp: protocol_inv_def)
  have t: "tokens ?s ids k = tokens s ids k" for k
    using length_filter_update [OF j, of "holds k" "WTaken r i"] wk get rid wf
      get_clash [OF inv inj i, of k] by (auto simp: tokens_def m)
  have tk: "rs_request_id r' = ids i'" if "WTaken r' i' \<in> set ((pr_workers s)[j := WTaken r i])" for r' i'
  proof (cases "WTaken r' i' \<in> set (pr_workers s)")
    case True
    then show ?thesis using inv by (simp add: protocol_inv_def)
  next
    case False
    then have "WTaken r' i' = WTaken r i"
      using that set_update_subset_insert [of "pr_workers s" j "WTaken r i"] by blast
    then show ?thesis using rid by simp
  qed
  have mp: "HashMap_get (pr_map s) rid' = Some k" if "HashMap_get m rid' = Some k" for rid' k
    using that wf by (auto simp: m split: if_splits)
  show ?thesis
    unfolding protocol_inv_def t
  proof (intro conjI allI impI)
    show "wf_map (pr_map ?s)" using wf by (simp add: m)
    fix rid' k assume "HashMap_get (pr_map ?s) rid' = Some k"
    then have "HashMap_get (pr_map s) rid' = Some k" by (intro mp) simp
    then show "k < n" "rid' = ids k" "pr_client ?s k \<in> {CRegistered, CSendFailed, CAwaiting, CExpired}"
      using inv by (auto simp: protocol_inv_def)
  qed (use inv tk in \<open>auto simp: protocol_inv_def\<close>)
qed

lemma protocol_inv_send:
  assumes inv: "protocol_inv n ids s" and j: "j < length (pr_workers s)"
    and wk: "pr_workers s ! j = WTaken r i"
  shows "protocol_inv n ids (s\<lparr>pr_workers := (pr_workers s)[j := WIdle],
      pr_mailbox := (if receiver_alive (pr_client s i) then (pr_mailbox s)(i := Some r)
                     else pr_mailbox s)\<rparr>)"
proof -
  let ?s = "s\<lparr>pr_workers := (pr_workers s)[j := WIdle],
      pr_mailbox := (if receiver_alive (pr_client s i) then (pr_mailbox s)(i := Some r)
                     else pr_mailbox s)\<rparr>"
  have f: "length (filter (holds k) ((pr_workers s)[j := WIdle])) + of_bool (i = k)
      = length (filter (holds k) (pr_workers s))" for k
    using length_filter_update [OF j, of "holds k" WIdle] wk by simp
  have le1: "tokens s ids k \<le> 1" for k using inv by (simp add: protocol_inv_def)
  have none: "pr_mailbox s i = None"
    using le1 [of i] f [of i] by (cases "pr_mailbox s i") (simp_all add: tokens_def)
  have other: "tokens ?s ids k = tokens s ids k" if "k \<noteq> i" for k
    using f [of k] that by (simp add: tokens_def)
  have alive: "tokens ?s ids i = tokens s ids i" if "receiver_alive (pr_client s i)"
    using f [of i] that none by (simp add: tokens_def)
  have own: "tokens ?s ids i \<le> tokens s ids i" using f [of i] none by (simp add: tokens_def)
  have le: "tokens ?s ids k \<le> 1" for k
    using le_trans [OF own le1] other [of k] le1 [of k] by (cases "k = i") simp_all
  have tk: "rs_request_id r' = ids i'" if "WTaken r' i' \<in> set (pr_workers s)" for r' i'
    using that inv by (simp add: protocol_inv_def)
  have ri: "rs_request_id r = ids i" using tk [of r i] wk j nth_mem by metis
  have tk': "WTaken r' i' \<in> set (pr_workers s)" if "WTaken r' i' \<in> set ((pr_workers s)[j := WIdle])" for r' i'
    using that set_update_subset_insert [of "pr_workers s" j WIdle] by fastforce
  show ?thesis
    unfolding protocol_inv_def
  proof (intro conjI allI impI)
    show "tokens ?s ids k = 1" if "receiver_alive (pr_client ?s k)" for k
      using that inv other alive by (cases "k = i") (auto simp: protocol_inv_def)
    show "tokens ?s ids k = 0" if "pr_client ?s k = CStart" for k
      using that inv other own by (cases "k = i") (auto simp: protocol_inv_def)
    show "pr_mailbox ?s k = Some r'" if "pr_client ?s k = CDone (Inr r')" for k r'
      using that inv by (auto simp: protocol_inv_def receiver_alive_def)
    show "rs_request_id r' = ids k" if "WTaken r' k \<in> set (pr_workers ?s)" for r' k
      using that tk tk' by simp
    show "rs_request_id r' = ids k" if "pr_mailbox ?s k = Some r'" for r' k
      using that inv ri by (auto simp: protocol_inv_def split: if_splits)
  qed (use inv le in \<open>auto simp: protocol_inv_def\<close>)
qed

lemma worker_step_inv:
  assumes "worker_step s s'" and inv: "protocol_inv n ids s" and "inj_on ids {..<n}"
  shows "protocol_inv n ids s'"
  using assms(1)
proof cases
  case (gone j r m)
  then have "m = HashMap_delete (rs_request_id r) (pr_map s)" "HashMap_get (pr_map s) (rs_request_id r) = None"
    by (auto simp: request_map_defs)
  then have "HashMap_get m = HashMap_get (pr_map s)" "wf_map m"
    using inv by (auto simp: protocol_inv_def fun_eq_iff)
  then have "protocol_inv n ids (s\<lparr>pr_map := m\<rparr>)"
    using inv by (simp add: protocol_inv_def tokens_def)
  from protocol_inv_worker_move [OF this, of j WIdle] gone show ?thesis by simp
qed (use assms(2,3) in \<open>simp_all add: protocol_inv_worker_move protocol_inv_take protocol_inv_send\<close>)

theorem protocol_run_inv:
  assumes "protocol_run n ids workers s" and "inj_on ids {..<n}"
  shows "protocol_inv n ids s"
  using assms
  by (induction rule: protocol_run.induct)
    (auto intro: client_step_inv worker_step_inv protocol_inv_start)

section \<open>Properties\<close>

text \<open>
  Claim C14. In every interleaving of client tasks with distinct request identifiers and receive
  workers, a client that returns a response returns one that carries its own request identifier,
  no client ever sees its channel closed without a response (\<open>NodeError::BadResponse\<close>), and a
  client that has returned, for whatever reason, has left no entry in the request map.
\<close>

theorem request_protocol_outcome:
  assumes "protocol_run n ids workers s" and "inj_on ids {..<n}" and "pr_client s i = CDone res"
  shows "res \<noteq> Inl BadResponse \<and> (\<forall>r. res = Inr r \<longrightarrow> rs_request_id r = ids i) \<and>
    \<not> RequestMap_contains_request (ids i) (pr_map s)"
proof (intro conjI)
  note inv = protocol_run_inv [OF assms(1,2)]
  show "res \<noteq> Inl BadResponse" and "\<forall>r. res = Inr r \<longrightarrow> rs_request_id r = ids i"
    using inv assms(3) unfolding protocol_inv_def by blast+
  have i: "i < n" using client_index [OF inv] assms(3) by simp
  show "\<not> RequestMap_contains_request (ids i) (pr_map s)"
  proof
    assume "RequestMap_contains_request (ids i) (pr_map s)"
    then obtain k where k: "HashMap_get (pr_map s) (ids i) = Some k" by (auto simp: request_map_defs)
    then have "k < n" "ids i = ids k" "pr_client s k \<in> {CRegistered, CSendFailed, CAwaiting, CExpired}"
      using inv unfolding protocol_inv_def by blast+
    then show False using assms(2,3) i by (auto simp: inj_on_eq_iff)
  qed
qed

text \<open>A run with one client and one worker.\<close>

definition sample_state :: "nat request_map \<Rightarrow> client \<Rightarrow> response option \<Rightarrow> worker \<Rightarrow> protocol" where
  "sample_state m c b wk =
     \<lparr>pr_map = m, pr_client = (\<lambda>_. CStart)(0 := c), pr_mailbox = (\<lambda>_. None)(0 := b), pr_workers = [wk]\<rparr>"

lemma sample_run_taken:
  assumes "rs_request_id r = 7"
  shows "protocol_run 1 (\<lambda>_. 7) 1 (sample_state [] CAwaiting None (WTaken r 0))"
proof -
  let ?m = "[(7, 0)] :: nat request_map"
  let ?run = "protocol_run 1 (\<lambda>_. 7) 1"
  have "?run (sample_state [] CStart None WIdle)"
    using protocol_run.start [of 1 "\<lambda>_. 7" 1]
    by (simp add: RequestMap_new_def HashMap_new_def fun_upd_idem sample_state_def)
  then have "?run (sample_state ?m CRegistered None WIdle)"
    by (rule protocol_run.client)
      (use client_step.register [of 0 1 "sample_state [] CStart None WIdle" "\<lambda>_. 7"] in
        \<open>simp add: request_map_defs HashMap_put_def sample_state_def\<close>)
  then have "?run (sample_state ?m CAwaiting None WIdle)"
    by (rule protocol_run.client)
      (use client_step.sent [of "sample_state ?m CRegistered None WIdle" 0] in \<open>simp add: sample_state_def\<close>)
  then have "?run (sample_state ?m CAwaiting None (WReceived r))"
    by (rule protocol_run.worker)
      (use worker_step.receive [of 0 "sample_state ?m CAwaiting None WIdle" r] in \<open>simp add: sample_state_def\<close>)
  then have "?run (sample_state ?m CAwaiting None (WPending r))"
    by (rule protocol_run.worker)
      (use worker_step.pending [of 0 "sample_state ?m CAwaiting None (WReceived r)" r] assms in
        \<open>simp add: request_map_defs HashMap_get_def sample_state_def\<close>)
  then show ?thesis
    by (rule protocol_run.worker)
      (use worker_step.take [of 0 "sample_state ?m CAwaiting None (WPending r)" r 0 "[]"] assms in
        \<open>simp add: request_map_defs HashMap_get_def HashMap_delete_def sample_state_def\<close>)
qed

lemma sample_run_done:
  assumes "rs_request_id r = 7"
  shows "protocol_run 1 (\<lambda>_. 7) 1 (sample_state [] (CDone (Inr r)) (Some r) WIdle)"
proof -
  have "protocol_run 1 (\<lambda>_. 7) 1 (sample_state [] CAwaiting (Some r) WIdle)"
    by (rule protocol_run.worker [OF sample_run_taken [OF assms]])
      (use worker_step.send [of 0 "sample_state [] CAwaiting None (WTaken r 0)" r 0] in
        \<open>simp add: receiver_alive_def sample_state_def\<close>)
  then show ?thesis
    by (rule protocol_run.client)
      (use client_step.deliver [of "sample_state [] CAwaiting (Some r) WIdle" 0 r] in \<open>simp add: sample_state_def\<close>)
qed

definition sample_response :: response where
  "sample_response = Response_new Pong \<lparr>ni_id = Key [], ni_address = SocketAddrV4 1 1\<rparr>
     \<lparr>ni_id = Key [], ni_address = SocketAddrV4 1 2\<rparr> 7"

lemma sample_response_id: "rs_request_id sample_response = 7"
  by (simp add: sample_response_def Response_new_def)

theorem request_protocol_outcome_witness:
  "\<not> RequestMap_contains_request 7
     (pr_map (sample_state [] (CDone (Inr sample_response)) (Some sample_response) WIdle)) \<and>
   rs_request_id sample_response = 7"
  using request_protocol_outcome
    [OF sample_run_done [OF sample_response_id], of 0 "Inr sample_response"]
  by (simp add: inj_on_def sample_state_def)

text \<open>
  Claim C15. A response is delivered at most once: while a worker holds the sending half of the
  channel of a client, no other worker does, nothing has been sent through it, and the request
  is not in the map any more.
\<close>

theorem request_delivered_once:
  assumes "protocol_run n ids workers s" and "inj_on ids {..<n}"
    and "j < length (pr_workers s)" and "pr_workers s ! j = WTaken r i"
  shows "rs_request_id r = ids i \<and> pr_mailbox s i = None \<and>
    HashMap_get (pr_map s) (ids i) \<noteq> Some i \<and>
    (\<forall>k < length (pr_workers s). holds i (pr_workers s ! k) \<longrightarrow> k = j)"
proof (intro conjI)
  note inv = protocol_run_inv [OF assms(1,2)]
  have "WTaken r i \<in> set (pr_workers s)" using assms(3,4) nth_mem by metis
  then show "rs_request_id r = ids i" using inv unfolding protocol_inv_def by blast
  have t: "tokens s ids i \<le> 1" using inv unfolding protocol_inv_def by blast
  have h: "holds i (pr_workers s ! j)" by (simp add: assms(4))
  have one: "length (filter (holds i) (pr_workers s)) \<ge> 1"
    using length_filter_update [OF assms(3), of "holds i" WIdle] h by simp
  show "pr_mailbox s i = None" and "HashMap_get (pr_map s) (ids i) \<noteq> Some i"
    using t one by (auto simp: tokens_def of_bool_def split: if_splits)
  show "\<forall>k < length (pr_workers s). holds i (pr_workers s ! k) \<longrightarrow> k = j"
  proof (intro allI impI)
    fix k assume k: "k < length (pr_workers s)" "holds i (pr_workers s ! k)"
    have "card {l. l < length (pr_workers s) \<and> holds i (pr_workers s ! l)} \<le> 1"
      using t by (simp add: tokens_def length_filter_conv_card)
    then have "card {j, k} \<le> 1"
      by (rule le_trans [rotated]) (use k assms(3) h in \<open>intro card_mono; auto\<close>)
    then show "k = j" by (cases "k = j") auto
  qed
qed

theorem request_delivered_once_witness:
  "pr_mailbox (sample_state [] CAwaiting None (WTaken sample_response 0)) 0 = None \<and>
   rs_request_id sample_response = 7"
  using request_delivered_once
    [OF sample_run_taken [OF sample_response_id], of 0 sample_response 0]
  by (simp add: inj_on_def sample_state_def)

end
