(* ===== verification/Files.thy ===== *)
theory Files
  imports Prelude
begin

text \<open>
  The parts of \<open>std::path\<close> and of the file system that the storage and the sharding use: the
  join of a relative name, the file name of a path, and a disk as a map from paths to contents.
  Whether an operation of the disk fails is decided by the caller of the model: each operation
  that can fail takes the outcome as an argument.
\<close>

section \<open>Paths\<close>

fun split_on :: "'a \<Rightarrow> 'a list \<Rightarrow> 'a list list" where
  "split_on c [] = [[]]"
| "split_on c (x # xs) =
     (if x = c then [] # split_on c xs
      else case split_on c xs of [] \<Rightarrow> [[x]] | p # ps \<Rightarrow> (x # p) # ps)"

text \<open>
  \<open>Path::file_name\<close>: the last component, unless it is \<open>..\<close> or there is none. Empty
  components and \<open>.\<close> are dropped.
\<close>

definition Path_file_name :: "string \<Rightarrow> string option" where
  "Path_file_name p =
     (let cs = filter (\<lambda>c. c \<noteq> [] \<and> c \<noteq> ''.'') (split_on (CHR ''/'') p)
      in if cs = [] \<or> last cs = ''..'' then None else Some (last cs))"

text \<open>\<open>Path::join\<close>: an absolute path replaces the base.\<close>

definition Path_join :: "string \<Rightarrow> string \<Rightarrow> string" where
  "Path_join base p =
     (if p \<noteq> [] \<and> hd p = CHR ''/'' then p
      else if base = [] \<or> last base = CHR ''/'' then base @ p
      else base @ ''/'' @ p)"

lemma Path_join_inj:
  assumes "\<not> (p \<noteq> [] \<and> hd p = CHR ''/'')" "\<not> (q \<noteq> [] \<and> hd q = CHR ''/'')"
  shows "Path_join base p = Path_join base q \<longleftrightarrow> p = q"
proof -
  have "Path_join base p = (if base = [] \<or> last base = CHR ''/'' then base @ p else base @ ''/'' @ p)"
    and "Path_join base q = (if base = [] \<or> last base = CHR ''/'' then base @ q else base @ ''/'' @ q)"
    using assms by (simp_all only: Path_join_def if_False)
  then show ?thesis by simp
qed

section \<open>The disk\<close>

type_synonym disk = "string \<rightharpoonup> bytes"

text \<open>What a write that may fail leaves in the file: everything, or a part of it.\<close>

datatype write_outcome = WriteOk | WriteFailed nat

fun written :: "write_outcome \<Rightarrow> bytes \<Rightarrow> bytes" where
  "written WriteOk data = data"
| "written (WriteFailed n) data = take n data"

end
