(* ===== verification/Sharding.thy ===== *)
theory Sharding
  imports Key Files
begin

text \<open>
  \<open>sharding/common.rs\<close>, \<open>sharding/encryption.rs\<close>, \<open>sharding/uploader.rs\<close> and
  \<open>sharding/downloader.rs\<close>: a file is read in pieces of at most one megabyte, each padded with
  random bytes, extended by its length and encrypted; the downloader decrypts the chunks in
  order, drops the padding and appends them to the output file. The cipher, the digest and the
  serialiser are parameters; \<open>aead_spec\<close> states what the cipher promises. Reads may be short.
  The \<open>debug_assert\<close>s are not modelled (a release build has none).
\<close>

section \<open>Common\<close>

definition AES_GCM_AUTH_TAG_SIZE_B :: nat where "AES_GCM_AUTH_TAG_SIZE_B = 16"

definition U32_SIZE_B :: nat where "U32_SIZE_B = 4"

definition ENCRYPTED_CHUNK_SIZE_B :: nat where
  "ENCRYPTED_CHUNK_SIZE_B = CHUNK_DATA_SIZE_KB * 1024 + U32_SIZE_B + AES_GCM_AUTH_TAG_SIZE_B"

declare AES_GCM_AUTH_TAG_SIZE_B_def [const_defs] U32_SIZE_B_def [const_defs]
  ENCRYPTED_CHUNK_SIZE_B_def [const_defs]

datatype encryption_error = Encryption

datatype sharding_error =
    Io
  | FileTooBig
  | MetadataNotFilled
  | EncryptionFailed
  | DecryptionFailed
  | UnwantedChunk
  | ChunkHashMismatch
  | EmptyChunk
  | EncryptionError encryption_error

record chunk =
  ch_data :: bytes
  ch_hash :: key

record chunk_metadata =
  cm_hash :: key
  cm_nonce :: bytes

record file_metadata =
  fm_name :: string
  fm_encryption_key :: bytes
  fm_chunks_metadata :: "chunk_metadata list"

text \<open>
  \<open>Display\<close> and \<open>FromStr\<close> of the metadata: the binary serialisation in hexadecimal. The
  serialiser and the hexadecimal codec are parameters.
\<close>

definition FileMetadata_display ::
  "(file_metadata \<Rightarrow> string + bytes) \<Rightarrow> (bytes \<Rightarrow> string) \<Rightarrow> file_metadata \<Rightarrow> string" where
  "FileMetadata_display serialize hex_encode m =
     (case serialize m of
        Inr bs \<Rightarrow> hex_encode bs
      | Inl e \<Rightarrow> ''Serialization error: '' @ e)"

datatype metadata_error = HexDecode | Deserialize

definition FileMetadata_from_str ::
  "(string \<Rightarrow> 'h + bytes) \<Rightarrow> (bytes \<Rightarrow> 'e + file_metadata) \<Rightarrow> string \<Rightarrow> metadata_error + file_metadata" where
  "FileMetadata_from_str hex_decode deserialize s =
     (case hex_decode s of
        Inl _ \<Rightarrow> Inl HexDecode
      | Inr bs \<Rightarrow> (case deserialize bs of Inl _ \<Rightarrow> Inl Deserialize | Inr m \<Rightarrow> Inr m))"

section \<open>Encryption\<close>

text \<open>The cipher: key, nonce and message.\<close>

record aead =
  ae_encrypt :: "bytes \<Rightarrow> bytes \<Rightarrow> bytes \<Rightarrow> bytes option"
  ae_decrypt :: "bytes \<Rightarrow> bytes \<Rightarrow> bytes \<Rightarrow> bytes option"

definition AES_KEY_SIZE_B :: nat where "AES_KEY_SIZE_B = 32"

definition AES_GCM_NONCE_SIZE_B :: nat where "AES_GCM_NONCE_SIZE_B = 12"

text \<open>\<open>Key::from_slice\<close> and \<open>Nonce::from_slice\<close> panic on another length.\<close>

definition encrypt_payload ::
  "aead \<Rightarrow> bytes \<Rightarrow> bytes \<Rightarrow> bytes \<Rightarrow> (encryption_error + bytes \<times> bytes) run" where
  "encrypt_payload ae nonce payload k =
     (if length k \<noteq> AES_KEY_SIZE_B then Panicked
      else Ret (case ae_encrypt ae k nonce payload of
                  None \<Rightarrow> Inl Encryption
                | Some encrypted_payload \<Rightarrow> Inr (nonce, encrypted_payload)))"

definition decrypt_payload ::
  "aead \<Rightarrow> bytes \<Rightarrow> bytes \<Rightarrow> bytes \<Rightarrow> (encryption_error + bytes) run" where
  "decrypt_payload ae encrypted_payload k nonce =
     (if length k \<noteq> AES_KEY_SIZE_B \<or> length nonce \<noteq> AES_GCM_NONCE_SIZE_B then Panicked
      else Ret (case ae_decrypt ae k nonce encrypted_payload of
                  None \<Rightarrow> Inl Encryption
                | Some decrypted_payload \<Rightarrow> Inr decrypted_payload))"

text \<open>What the cipher promises: decryption inverts encryption and the tag adds 16 bytes.\<close>

definition aead_spec :: "aead \<Rightarrow> bool" where
  "aead_spec ae \<longleftrightarrow>
     (\<forall>k nonce p c. ae_encrypt ae k nonce p = Some c \<longrightarrow>
        ae_decrypt ae k nonce c = Some p \<and> length c = length p + AES_GCM_AUTH_TAG_SIZE_B)"

section \<open>Little-endian lengths\<close>

definition u32_to_le_bytes :: "u32 \<Rightarrow> bytes" where
  "u32_to_le_bytes w = map (\<lambda>i. ucast (drop_bit (8 * i) w)) [0..<4]"

definition u32_from_le_bytes :: "bytes \<Rightarrow> u32" where
  "u32_from_le_bytes bs = foldr (\<lambda>b acc. ucast b OR push_bit 8 acc) bs 0"

section \<open>Uploader\<close>

record file_uploader =
  fu_remaining :: bytes
  fu_file_metadata :: file_metadata
  fu_encryption_key :: bytes

text \<open>
  \<open>new_with_max_file_size\<close>: \<open>open_ok\<close> is the outcome of opening the file or creating it, and
  of reading its size; \<open>gen_key\<close> are the bytes of \<open>generate_key\<close>. A missing file is created.
\<close>

definition FileUploader_new_with_max_file_size ::
  "bool \<Rightarrow> bytes \<Rightarrow> string \<Rightarrow> nat \<Rightarrow> disk \<Rightarrow> ((sharding_error + file_uploader) \<times> disk) run" where
  "FileUploader_new_with_max_file_size open_ok gen_key full_file_path max_file_size_mb d =
     (if \<not> open_ok then Ret (Inl Io, d)
      else let (file, d') = (case d full_file_path of
                               Some content \<Rightarrow> (content, d)
                             | None \<Rightarrow> ([], d(full_file_path \<mapsto> [])))
           in if length file > max_file_size_mb * 1024 * 1024 then Ret (Inl FileTooBig, d')
              else case Path_file_name full_file_path of
                     None \<Rightarrow> Panicked
                   | Some name \<Rightarrow>
                       Ret (Inr \<lparr>fu_remaining = file,
                              fu_file_metadata = \<lparr>fm_name = name, fm_encryption_key = gen_key,
                                fm_chunks_metadata = []\<rparr>,
                              fu_encryption_key = gen_key\<rparr>, d'))"

definition FileUploader_new ::
  "bool \<Rightarrow> bytes \<Rightarrow> string \<Rightarrow> disk \<Rightarrow> ((sharding_error + file_uploader) \<times> disk) run" where
  "FileUploader_new open_ok gen_key full_file_path d =
     FileUploader_new_with_max_file_size open_ok gen_key full_file_path MAX_FILE_SIZE_MB d"

text \<open>
  What one call draws from outside: how many bytes the read returns (\<open>None\<close> is an I/O error;
  at least one byte before the end of the file, at most the buffer), the random padding and the
  nonce.
\<close>

record chunk_input =
  ci_read :: "nat option"
  ci_rng :: "nat \<Rightarrow> u8"
  ci_nonce :: bytes

definition file_read :: "nat \<Rightarrow> nat \<Rightarrow> bytes \<Rightarrow> nat" where
  "file_read buffer wanted remaining =
     (if remaining = [] then 0 else max 1 (min wanted (min buffer (length remaining))))"

definition FileUploader_get_next_chunk_encrypt ::
  "aead \<Rightarrow> (bytes \<Rightarrow> bytes) \<Rightarrow> chunk_input \<Rightarrow> file_uploader \<Rightarrow>
     ((sharding_error + chunk option) \<times> file_uploader) run" where
  "FileUploader_get_next_chunk_encrypt ae digest input u =
     (case ci_read input of
        None \<Rightarrow> Ret (Inl Io, u)
      | Some wanted \<Rightarrow>
          let padded_size = CHUNK_DATA_SIZE_KB * 1024;
              bytes_read = file_read padded_size wanted (fu_remaining u);
              data = take bytes_read (fu_remaining u);
              u1 = u\<lparr>fu_remaining := drop bytes_read (fu_remaining u)\<rparr>
          in if bytes_read = 0 then Ret (Inr None, u1)
             else let random_bytes = map (ci_rng input) [0..<padded_size - bytes_read];
                      padded = data @ random_bytes;
                      unpadded_size_bytes = u32_to_le_bytes (of_nat bytes_read);
                      chunk_hash = Key_from_input digest padded
                  in bind_run (encrypt_payload ae (ci_nonce input) (padded @ unpadded_size_bytes)
                        (fu_encryption_key u1)) (\<lambda>r.
                       case r of
                         Inl e \<Rightarrow> Ret (Inl (EncryptionError e), u1)
                       | Inr (nonce, encrypted_chunk) \<Rightarrow>
                           let chunk = \<lparr>ch_data = encrypted_chunk, ch_hash = chunk_hash\<rparr>;
                               md = fu_file_metadata u1
                           in Ret (Inr (Some chunk),
                                u1\<lparr>fu_file_metadata := md\<lparr>fm_chunks_metadata :=
                                  fm_chunks_metadata md @
                                    [\<lparr>cm_hash = ch_hash chunk, cm_nonce = nonce\<rparr>]\<rparr>\<rparr>)))"

definition FileUploader_get_metadata :: "bool \<Rightarrow> file_uploader \<Rightarrow> sharding_error + file_metadata" where
  "FileUploader_get_metadata read_ok u =
     (if \<not> read_ok then Inl Io
      else if fu_remaining u = [] then Inr (fu_file_metadata u)
      else Inl MetadataNotFilled)"

section \<open>Downloader\<close>

text \<open>
  \<open>fd_content\<close> is what was written to the buffered writer, \<open>fd_flushed\<close> what is known to be in
  the file: what was there at the last flush. The writer may pass large writes on earlier, so the file of a download that
  failed can hold more than this; of a successful one it holds exactly this.
\<close>

record file_downloader =
  fd_content :: bytes
  fd_flushed :: bytes
  fd_file_metadata :: file_metadata
  fd_chunk_index :: nat
  fd_output_file_path :: string

definition FileDownloader_new ::
  "bool \<Rightarrow> file_metadata \<Rightarrow> string \<Rightarrow> disk \<Rightarrow> (sharding_error + file_downloader) \<times> disk" where
  "FileDownloader_new create_ok md output_dir d =
     (let file_path = Path_join output_dir (fm_name md) in
      if \<not> create_ok then (Inl Io, d)
      else (Inr \<lparr>fd_content = [], fd_flushed = [], fd_file_metadata = md, fd_chunk_index = 0,
              fd_output_file_path = file_path\<rparr>, d(file_path \<mapsto> [])))"

definition FileDownloader_store_next_chunk_decrypt ::
  "aead \<Rightarrow> write_outcome \<Rightarrow> bool \<Rightarrow> chunk \<Rightarrow> file_downloader \<Rightarrow>
     ((sharding_error + unit) \<times> file_downloader) run" where
  "FileDownloader_store_next_chunk_decrypt ae write flush_ok chunk f =
     (if ch_data chunk = [] then Ret (Inl EmptyChunk, f)
      else if fd_chunk_index f \<ge> length (fm_chunks_metadata (fd_file_metadata f))
      then Ret (Inl UnwantedChunk, f)
      else let chunk_metadata = fm_chunks_metadata (fd_file_metadata f) ! fd_chunk_index f in
           bind_run (decrypt_payload ae (ch_data chunk) (fm_encryption_key (fd_file_metadata f))
              (cm_nonce chunk_metadata)) (\<lambda>r.
             case r of
               Inl e \<Rightarrow> Ret (Inl (EncryptionError e), f)
             | Inr decrypted \<Rightarrow>
                 let padded_chunk_size = CHUNK_DATA_SIZE_KB * 1024 in
                 if length decrypted < padded_chunk_size + 4 then Panicked
                 else let unpadded_data_size =
                            u32_from_le_bytes (take 4 (drop padded_chunk_size decrypted));
                          bs = take padded_chunk_size decrypted
                      in if ch_hash chunk \<noteq> cm_hash chunk_metadata then Ret (Inl ChunkHashMismatch, f)
                         else let bs' = (if length bs \<noteq> unat unpadded_data_size
                                         then take (unat unpadded_data_size) bs else bs)
                              in if write \<noteq> WriteOk
                                 then Ret (Inl Io, f\<lparr>fd_content := fd_content f @ written write bs'\<rparr>)
                                 else let f1 = f\<lparr>fd_content := fd_content f @ bs',
                                            fd_chunk_index := fd_chunk_index f + 1\<rparr>
                                      in if fd_chunk_index f1 \<ge> length (fm_chunks_metadata (fd_file_metadata f1))
                                         then if flush_ok
                                              then Ret (Inr (), f1\<lparr>fd_flushed := fd_content f1\<rparr>)
                                              else Ret (Inl Io, f1)
                                         else Ret (Inr (), f1)))"

definition FileDownloader_get_output_file_path :: "file_downloader \<Rightarrow> string" where
  "FileDownloader_get_output_file_path f = fd_output_file_path f"

section \<open>Lengths\<close>

lemma length_u32_to_le_bytes [simp]: "length (u32_to_le_bytes w) = 4"
  by (simp add: u32_to_le_bytes_def)

lemma u32_le_bytes_roundtrip [simp]: "u32_from_le_bytes (u32_to_le_bytes w) = w"
proof (rule bit_word_eqI)
  fix n assume "n < LENGTH(32)"
  moreover have "[0..<4] = [0, 1, 2, 3 :: nat]" by (simp add: upt_rec)
  ultimately show "bit (u32_from_le_bytes (u32_to_le_bytes w)) n = bit w n"
    by (cases "n < 8"; cases "n < 16"; cases "n < 24")
      (auto simp: u32_from_le_bytes_def u32_to_le_bytes_def bit_simps)
qed

lemma unat_of_nat_u32: "n < 2 ^ 32 \<Longrightarrow> unat (of_nat n :: u32) = n"
  by (simp add: unat_of_nat take_bit_eq_mod)

abbreviation padded_size :: nat where
  "padded_size \<equiv> CHUNK_DATA_SIZE_KB * 1024"

text \<open>What one chunk holds: a piece of the file, padding to the full size, and the length.\<close>

definition chunk_payload :: "bytes \<Rightarrow> bytes \<Rightarrow> bytes" where
  "chunk_payload piece pad = piece @ pad @ u32_to_le_bytes (of_nat (length piece))"

definition chunk_of :: "aead \<Rightarrow> bytes \<Rightarrow> bytes \<Rightarrow> chunk \<Rightarrow> chunk_metadata \<Rightarrow> bool" where
  "chunk_of ae k piece c m \<longleftrightarrow>
     0 < length piece \<and> length piece \<le> padded_size \<and> cm_hash m = ch_hash c \<and>
     (\<exists>pad. length pad = padded_size - length piece \<and>
        ae_encrypt ae k (cm_nonce m) (chunk_payload piece pad) = Some (ch_data c))"

definition chunk_pad :: "chunk_input \<Rightarrow> nat \<Rightarrow> bytes" where
  "chunk_pad inp n = map (ci_rng inp) [0..<padded_size - n]"

definition next_metadata :: "file_uploader \<Rightarrow> nat \<Rightarrow> chunk_metadata \<Rightarrow> file_uploader" where
  "next_metadata u n m = u\<lparr>fu_remaining := drop n (fu_remaining u),
     fu_file_metadata := (fu_file_metadata u)\<lparr>fm_chunks_metadata :=
       fm_chunks_metadata (fu_file_metadata u) @ [m]\<rparr>\<rparr>"

lemma file_read_bounds:
  "file_read padded_size wanted bs \<le> length bs" "file_read padded_size wanted bs \<le> padded_size"
  "file_read padded_size wanted bs = 0 \<longleftrightarrow> bs = []"
  by (auto simp: file_read_def CHUNK_DATA_SIZE_KB_def Suc_le_eq)

text \<open>The four ways a call ends once the read succeeded.\<close>

lemma get_next_chunk_eq:
  assumes "ci_read inp = Some wanted" and "n = file_read padded_size wanted (fu_remaining u)"
  shows "FileUploader_get_next_chunk_encrypt ae digest inp u =
    (if fu_remaining u = [] then Ret (Inr None, u)
     else if length (fu_encryption_key u) \<noteq> AES_KEY_SIZE_B then Panicked
     else case ae_encrypt ae (fu_encryption_key u) (ci_nonce inp)
            (chunk_payload (take n (fu_remaining u)) (chunk_pad inp n)) of
         None \<Rightarrow> Ret (Inl (EncryptionError Encryption), u\<lparr>fu_remaining := drop n (fu_remaining u)\<rparr>)
       | Some e \<Rightarrow>
           let h = Key_from_input digest (take n (fu_remaining u) @ chunk_pad inp n) in
           Ret (Inr (Some \<lparr>ch_data = e, ch_hash = h\<rparr>),
             next_metadata u n \<lparr>cm_hash = h, cm_nonce = ci_nonce inp\<rparr>))"
proof -
  have n: "n \<le> length (fu_remaining u)" "n = 0 \<longleftrightarrow> fu_remaining u = []"
    using file_read_bounds assms(2) by simp_all
  then show ?thesis
    unfolding FileUploader_get_next_chunk_encrypt_def assms(1) option.case Let_def assms(2) [symmetric]
    by (auto simp: chunk_payload_def chunk_pad_def next_metadata_def encrypt_payload_def
        split: option.splits)
qed

lemma get_next_chunk_Some:
  assumes "FileUploader_get_next_chunk_encrypt ae digest inp u = Ret (Inr (Some c), u1)"
  obtains n m where "0 < n" "n \<le> length (fu_remaining u)"
    "chunk_of ae (fu_encryption_key u) (take n (fu_remaining u)) c m"
    "cm_nonce m = ci_nonce inp" "u1 = next_metadata u n m"
proof -
  from assms obtain wanted where w: "ci_read inp = Some wanted"
    by (auto simp: FileUploader_get_next_chunk_encrypt_def split: option.splits)
  define n where "n = file_read padded_size wanted (fu_remaining u)"
  note eq = get_next_chunk_eq [where ae = ae and digest = digest, OF w n_def]
  from assms eq have ne: "fu_remaining u \<noteq> []" by auto
  then have n: "0 < n" "n \<le> length (fu_remaining u)" "n \<le> padded_size"
    using file_read_bounds [of wanted "fu_remaining u"] unfolding n_def by (auto simp only: neq0_conv)
  define m where "m = \<lparr>cm_hash = ch_hash c, cm_nonce = ci_nonce inp\<rparr>"
  from assms eq ne have e: "ae_encrypt ae (fu_encryption_key u) (ci_nonce inp)
      (chunk_payload (take n (fu_remaining u)) (chunk_pad inp n)) = Some (ch_data c)"
    and u1: "u1 = next_metadata u n m"
    by (auto simp: m_def Let_def split: if_splits option.splits)
  have "chunk_of ae (fu_encryption_key u) (take n (fu_remaining u)) c m"
    using e n unfolding chunk_of_def
    by (auto simp: m_def chunk_pad_def intro!: exI [of _ "chunk_pad inp n"])
  then show thesis using that n u1 by (simp add: m_def)
qed

section \<open>Whole files\<close>

text \<open>
  The loop of \<open>Node::upload_file\<close> over the chunks of a file, without what happens to each
  chunk; \<open>inputs i\<close> is what the \<open>i\<close>-th call draws from outside. Every chunk consumes at least
  one byte of the file, so the loop ends.
\<close>

function shard_file ::
  "aead \<Rightarrow> (bytes \<Rightarrow> bytes) \<Rightarrow> (nat \<Rightarrow> chunk_input) \<Rightarrow> nat \<Rightarrow> file_uploader \<Rightarrow>
     ((sharding_error + chunk list) \<times> file_uploader) run" where
  "shard_file ae digest inputs i u =
     (case FileUploader_get_next_chunk_encrypt ae digest (inputs i) u of
        Panicked \<Rightarrow> Panicked
      | Blocked \<Rightarrow> Blocked
      | Ret (Inl e, u1) \<Rightarrow> Ret (Inl e, u1)
      | Ret (Inr None, u1) \<Rightarrow> Ret (Inr [], u1)
      | Ret (Inr (Some c), u1) \<Rightarrow>
          bind_run (shard_file ae digest inputs (Suc i) u1) (\<lambda>(r, u2).
            Ret (case r of Inl e \<Rightarrow> (Inl e, u2) | Inr cs \<Rightarrow> (Inr (c # cs), u2))))"
  by pat_completeness auto
termination
  by (relation "measure (\<lambda>(ae, digest, inputs, i, u). length (fu_remaining u))")
    (auto elim!: get_next_chunk_Some simp: next_metadata_def)

declare shard_file.simps [simp del]

fun store_chunks ::
  "aead \<Rightarrow> chunk list \<Rightarrow> file_downloader \<Rightarrow> ((sharding_error + unit) \<times> file_downloader) run" where
  "store_chunks ae [] f = Ret (Inr (), f)"
| "store_chunks ae (c # cs) f =
     bind_run (FileDownloader_store_next_chunk_decrypt ae WriteOk True c f) (\<lambda>(r, f1).
       case r of Inl e \<Rightarrow> Ret (Inl e, f1) | Inr _ \<Rightarrow> store_chunks ae cs f1)"

lemma store_next_chunk_of:
  assumes ae: "aead_spec ae" and c: "chunk_of ae (fm_encryption_key (fd_file_metadata f)) piece c m"
    and m: "fd_chunk_index f < length (fm_chunks_metadata (fd_file_metadata f))"
      "fm_chunks_metadata (fd_file_metadata f) ! fd_chunk_index f = m"
    and len: "length (fm_encryption_key (fd_file_metadata f)) = AES_KEY_SIZE_B"
      "length (cm_nonce m) = AES_GCM_NONCE_SIZE_B"
  shows "FileDownloader_store_next_chunk_decrypt ae WriteOk True c f =
    Ret (Inr (), f\<lparr>fd_content := fd_content f @ piece, fd_chunk_index := Suc (fd_chunk_index f),
      fd_flushed := if Suc (fd_chunk_index f) = length (fm_chunks_metadata (fd_file_metadata f))
        then fd_content f @ piece else fd_flushed f\<rparr>)"
proof -
  from c obtain pad where pad: "length pad = padded_size - length piece" "length piece \<le> padded_size"
      "ae_encrypt ae (fm_encryption_key (fd_file_metadata f)) (cm_nonce m) (chunk_payload piece pad) = Some (ch_data c)"
      "cm_hash m = ch_hash c"
    by (auto simp: chunk_of_def)
  then have dec: "ae_decrypt ae (fm_encryption_key (fd_file_metadata f)) (cm_nonce m) (ch_data c) = Some (chunk_payload piece pad)"
    and "length (ch_data c) = length (chunk_payload piece pad) + AES_GCM_AUTH_TAG_SIZE_B"
    using ae by (auto simp: aead_spec_def)
  then have ne: "ch_data c \<noteq> []" by (auto simp: AES_GCM_AUTH_TAG_SIZE_B_def)
  have "length piece < 2 ^ 32" using pad(2) by (simp add: CHUNK_DATA_SIZE_KB_def)
  then have size: "unat (of_nat (length piece) :: u32) = length piece" by (rule unat_of_nat_u32)
  have parts: "take padded_size (chunk_payload piece pad) = piece @ pad"
    "drop padded_size (chunk_payload piece pad) = u32_to_le_bytes (of_nat (length piece))"
    "length (chunk_payload piece pad) = padded_size + 4"
    using pad(1,2) by (simp_all add: chunk_payload_def)
  show ?thesis
    using ne m len pad(4) by (simp add: FileDownloader_store_next_chunk_decrypt_def decrypt_payload_def
        dec Let_def parts size not_le Suc_le_eq)
qed

text \<open>Chunks with their metadata and the pieces of the file they hold.\<close>

fun chunks_of :: "aead \<Rightarrow> bytes \<Rightarrow> bytes list \<Rightarrow> chunk list \<Rightarrow> chunk_metadata list \<Rightarrow> bool" where
  "chunks_of ae k [] [] [] = True"
| "chunks_of ae k (p # ps) (c # cs) (m # ms) =
     (chunk_of ae k p c m \<and> length (cm_nonce m) = AES_GCM_NONCE_SIZE_B \<and> chunks_of ae k ps cs ms)"
| "chunks_of ae k _ _ _ = False"

fun_cases chunks_of_ConsE: "chunks_of ae k ps (c # cs) ms"
  and chunks_of_NilE: "chunks_of ae k ps [] ms"

lemma store_chunks_of:
  assumes "aead_spec ae" and "chunks_of ae (fm_encryption_key md) ps cs ms"
    and "fd_file_metadata f = md" "length (fm_encryption_key md) = AES_KEY_SIZE_B"
    and "fm_chunks_metadata md = ms0 @ ms" "fd_chunk_index f = length ms0"
  shows "\<exists>f'. store_chunks ae cs f = Ret (Inr (), f') \<and> fd_content f' = fd_content f @ concat ps \<and>
     fd_output_file_path f' = fd_output_file_path f \<and> (cs \<noteq> [] \<longrightarrow> fd_flushed f' = fd_content f')"
  using assms(2-)
proof (induction cs arbitrary: ps ms ms0 f)
  case Nil
  then show ?case by (auto elim: chunks_of_NilE)
next
  case (Cons c cs)
  from Cons.prems(1) obtain p ps' m ms' where eq: "ps = p # ps'" "ms = m # ms'"
    and c: "chunk_of ae (fm_encryption_key md) p c m" "length (cm_nonce m) = AES_GCM_NONCE_SIZE_B"
    and cs: "chunks_of ae (fm_encryption_key md) ps' cs ms'"
    by (auto elim: chunks_of_ConsE)
  let ?f = "f\<lparr>fd_content := fd_content f @ p, fd_chunk_index := Suc (fd_chunk_index f),
      fd_flushed := if Suc (fd_chunk_index f) = length (fm_chunks_metadata (fd_file_metadata f))
        then fd_content f @ p else fd_flushed f\<rparr>"
  have step: "FileDownloader_store_next_chunk_decrypt ae WriteOk True c f = Ret (Inr (), ?f)"
    using Cons.prems c eq by (intro store_next_chunk_of [OF assms(1)]) simp_all
  have "\<exists>f'. store_chunks ae cs ?f = Ret (Inr (), f') \<and> fd_content f' = fd_content ?f @ concat ps' \<and>
     fd_output_file_path f' = fd_output_file_path ?f \<and> (cs \<noteq> [] \<longrightarrow> fd_flushed f' = fd_content f')"
    by (rule Cons.IH [OF cs, of _ "ms0 @ [m]"]) (use Cons.prems eq in simp_all)
  moreover have "fd_flushed ?f = fd_content ?f" if "cs = []"
    using that cs Cons.prems eq by (auto elim: chunks_of_NilE)
  ultimately show ?case using eq by (cases "cs = []") (auto simp: step)
qed

lemma shard_file_RetE:
  assumes "shard_file ae digest inputs i u = Ret (Inr cs, u')"
  obtains (finished) "cs = []" "FileUploader_get_next_chunk_encrypt ae digest (inputs i) u = Ret (Inr None, u')"
  | (more) c cs' u1 where "cs = c # cs'"
      "FileUploader_get_next_chunk_encrypt ae digest (inputs i) u = Ret (Inr (Some c), u1)"
      "shard_file ae digest inputs (Suc i) u1 = Ret (Inr cs', u')"
proof (cases "FileUploader_get_next_chunk_encrypt ae digest (inputs i) u")
  case (Ret x)
  obtain r u1 where x: "x = (r, u1)" by (cases x)
  show thesis
  proof (cases r)
    case (Inr o1)
    then show thesis
    proof (cases o1)
      case (Some c)
      have "bind_run (shard_file ae digest inputs (Suc i) u1) (\<lambda>(r, u2).
          Ret (case r of Inl e \<Rightarrow> (Inl e, u2) | Inr cs \<Rightarrow> (Inr (c # cs), u2))) = Ret (Inr cs, u')"
        using assms Ret x Inr Some by (simp add: shard_file.simps [of ae digest inputs i u])
      then obtain r2 u2 where "shard_file ae digest inputs (Suc i) u1 = Ret (r2, u2)"
          "(case r2 of Inl e \<Rightarrow> (Inl e, u2) | Inr cs \<Rightarrow> (Inr (c # cs), u2)) = (Inr cs, u')"
        by (auto simp only: bind_run_Ret_iff split_paired_Ex prod.case run.inject)
      then show thesis using more [of c _ u1] Ret x Inr Some by (cases r2) auto
    qed (use assms Ret x Inr finished in \<open>auto simp: shard_file.simps [of ae digest inputs i]\<close>)
  qed (use assms Ret x in \<open>auto simp: shard_file.simps [of ae digest inputs i]\<close>)
qed (use assms in \<open>auto simp: shard_file.simps [of ae digest inputs i]\<close>)

lemma shard_file_chunks:
  assumes "shard_file ae digest inputs i u = Ret (Inr cs, u')"
    and "\<forall>j. length (ci_nonce (inputs j)) = AES_GCM_NONCE_SIZE_B"
  shows "\<exists>ps ms. chunks_of ae (fu_encryption_key u) ps cs ms \<and> concat ps = fu_remaining u \<and>
     fu_remaining u' = [] \<and> fu_file_metadata u' = (fu_file_metadata u)\<lparr>fm_chunks_metadata :=
       fm_chunks_metadata (fu_file_metadata u) @ ms\<rparr>"
  using assms
proof (induction ae digest inputs i u arbitrary: cs u' rule: shard_file.induct)
  case (1 ae digest inputs i u)
  from "1.prems"(1) show ?case
  proof (cases rule: shard_file_RetE)
    case finished
    then obtain wanted where "ci_read (inputs i) = Some wanted"
      by (auto simp: FileUploader_get_next_chunk_encrypt_def split: option.splits)
    from finished get_next_chunk_eq [where ae = ae and digest = digest and u = u, OF this refl] have "fu_remaining u = []" "u' = u"
      by (auto simp: Let_def split: if_splits option.splits)
    then show ?thesis using finished by (intro exI [of _ "[]"]) simp
  next
    case (more c cs' u1)
    from "1.IH" [OF more(2) refl refl refl more(3) "1.prems"(2)] obtain ps ms where
      IH: "chunks_of ae (fu_encryption_key u1) ps cs' ms" "concat ps = fu_remaining u1" "fu_remaining u' = []"
        "fu_file_metadata u' = (fu_file_metadata u1)\<lparr>fm_chunks_metadata := fm_chunks_metadata (fu_file_metadata u1) @ ms\<rparr>"
      by blast
    obtain n m where n: "n \<le> length (fu_remaining u)" "cm_nonce m = ci_nonce (inputs i)"
        "chunk_of ae (fu_encryption_key u) (take n (fu_remaining u)) c m" "u1 = next_metadata u n m"
      using get_next_chunk_Some [OF more(2)] by metis
    show ?thesis
      using IH n "1.prems"(2) more(1)
      by (intro exI [of _ "take n (fu_remaining u) # ps"] exI [of _ "m # ms"])
        (simp add: next_metadata_def)
  qed
qed

text \<open>Every read succeeds, nonces have their size, and the cipher accepts the padded pieces.\<close>

definition inputs_ok :: "aead \<Rightarrow> bytes \<Rightarrow> (nat \<Rightarrow> chunk_input) \<Rightarrow> bool" where
  "inputs_ok ae k inputs \<longleftrightarrow> (\<forall>j. ci_read (inputs j) \<noteq> None \<and>
     length (ci_nonce (inputs j)) = AES_GCM_NONCE_SIZE_B \<and>
     (\<forall>p. length p = padded_size + U32_SIZE_B \<longrightarrow> ae_encrypt ae k (ci_nonce (inputs j)) p \<noteq> None))"

lemma get_next_chunk_returns:
  assumes "inputs_ok ae (fu_encryption_key u) inputs" "length (fu_encryption_key u) = AES_KEY_SIZE_B"
  obtains (finished) "FileUploader_get_next_chunk_encrypt ae digest (inputs i) u = Ret (Inr None, u)"
  | (more) c n m where "FileUploader_get_next_chunk_encrypt ae digest (inputs i) u = Ret (Inr (Some c), next_metadata u n m)"
proof -
  obtain wanted where w: "ci_read (inputs i) = Some wanted"
    using assms(1) by (auto simp: inputs_ok_def)
  define n where "n = file_read padded_size wanted (fu_remaining u)"
  have "n \<le> length (fu_remaining u)" "n \<le> padded_size"
    unfolding n_def by (rule file_read_bounds)+
  then have "length (chunk_payload (take n (fu_remaining u)) (chunk_pad (inputs i) n)) = padded_size + U32_SIZE_B"
    by (simp add: chunk_payload_def chunk_pad_def U32_SIZE_B_def)
  then obtain e where "ae_encrypt ae (fu_encryption_key u) (ci_nonce (inputs i))
      (chunk_payload (take n (fu_remaining u)) (chunk_pad (inputs i) n)) = Some e"
    using assms(1) unfolding inputs_ok_def by blast
  then show thesis
    using get_next_chunk_eq [where ae = ae and digest = digest, OF w n_def] assms(2) finished more
    by (cases "fu_remaining u = []") (simp_all add: Let_def)
qed

lemma shard_file_returns:
  assumes "inputs_ok ae (fu_encryption_key u) inputs" "length (fu_encryption_key u) = AES_KEY_SIZE_B"
  shows "\<exists>cs u'. shard_file ae digest inputs i u = Ret (Inr cs, u')"
  using assms
proof (induction ae digest inputs i u rule: shard_file.induct)
  case (1 ae digest inputs i u)
  show ?case
  proof (rule get_next_chunk_returns [OF "1.prems"])
    assume "FileUploader_get_next_chunk_encrypt ae digest (inputs i) u = Ret (Inr None, u)"
    then show ?thesis by (simp add: shard_file.simps [of ae digest inputs i u])
  next
    fix c n m
    assume g: "FileUploader_get_next_chunk_encrypt ae digest (inputs i) u = Ret (Inr (Some c), next_metadata u n m)"
    have "\<exists>cs u'. shard_file ae digest inputs (Suc i) (next_metadata u n m) = Ret (Inr cs, u')"
      by (rule "1.IH" [OF g refl refl refl]) (use "1.prems" in \<open>simp_all add: next_metadata_def\<close>)
    then show ?thesis by (auto simp: shard_file.simps [of ae digest inputs i u] g)
  qed
qed

lemma chunks_of_hashes: "chunks_of ae k ps cs ms \<Longrightarrow> map cm_hash ms = map ch_hash cs"
  by (induction ae k ps cs ms rule: chunks_of.induct) (auto simp: chunk_of_def)

lemma chunks_of_sizes:
  assumes "aead_spec ae" "chunks_of ae k ps cs ms" "c \<in> set cs"
  shows "length (ch_data c) = ENCRYPTED_CHUNK_SIZE_B"
  using assms
  by (induction ae k ps cs ms rule: chunks_of.induct)
    (auto simp: chunk_of_def aead_spec_def chunk_payload_def ENCRYPTED_CHUNK_SIZE_B_def U32_SIZE_B_def)

lemma chunks_of_Nil: "chunks_of ae k ps [] ms \<Longrightarrow> ps = [] \<and> ms = []"
  by (auto elim: chunks_of_NilE)

lemma downloads_back:
  assumes "aead_spec ae" "chunks_of ae (fm_encryption_key md) ps cs (fm_chunks_metadata md)"
    "length (fm_encryption_key md) = AES_KEY_SIZE_B"
  shows "\<exists>f f'. FileDownloader_new True md out d = (Inr f, d(Path_join out (fm_name md) \<mapsto> [])) \<and>
      store_chunks ae cs f = Ret (Inr (), f') \<and>
      FileDownloader_get_output_file_path f' = Path_join out (fm_name md) \<and>
      fd_content f' = concat ps \<and> (concat ps \<noteq> [] \<longrightarrow> fd_flushed f' = concat ps)"
proof -
  let ?f = "\<lparr>fd_content = [], fd_flushed = [], fd_file_metadata = md, fd_chunk_index = 0,
      fd_output_file_path = Path_join out (fm_name md)\<rparr>"
  have "\<exists>f'. store_chunks ae cs ?f = Ret (Inr (), f') \<and> fd_content f' = fd_content ?f @ concat ps \<and>
      fd_output_file_path f' = fd_output_file_path ?f \<and> (cs \<noteq> [] \<longrightarrow> fd_flushed f' = fd_content f')"
    by (rule store_chunks_of [OF assms(1,2), where ?ms0.0 = "[]"]) (use assms(3) in simp_all)
  then obtain f' where "store_chunks ae cs ?f = Ret (Inr (), f')" "fd_content f' = concat ps"
    "fd_output_file_path f' = Path_join out (fm_name md)" "cs \<noteq> [] \<longrightarrow> fd_flushed f' = fd_content f'"
    by auto
  moreover have "concat ps = []" if "cs = []"
    using that assms(2) chunks_of_Nil [of ae "fm_encryption_key md" ps "fm_chunks_metadata md"] by simp
  ultimately show ?thesis
    by (intro exI [of _ ?f] exI [of _ f'])
      (auto simp: FileDownloader_new_def FileDownloader_get_output_file_path_def Let_def)
qed

text \<open>
  The authentication tag covers the nonce: a ciphertext is rejected under every other nonce.
\<close>

definition nonce_bound :: "aead \<Rightarrow> bytes \<Rightarrow> bool" where
  "nonce_bound ae k \<longleftrightarrow> (\<forall>n n' p c. ae_encrypt ae k n p = Some c \<and> n \<noteq> n' \<longrightarrow> ae_decrypt ae k n' c = None)"

lemma nonce_boundD:
  "nonce_bound ae k \<Longrightarrow> ae_encrypt ae k n p = Some c \<Longrightarrow> n \<noteq> n' \<Longrightarrow> ae_decrypt ae k n' c = None"
  by (simp add: nonce_bound_def)

lemma wrong_nonce_rejected:
  assumes "aead_spec ae" "nonce_bound ae (fm_encryption_key (fd_file_metadata f))"
    and "ae_encrypt ae (fm_encryption_key (fd_file_metadata f)) n p = Some (ch_data c)"
    and "fd_chunk_index f < length (fm_chunks_metadata (fd_file_metadata f))"
    and "cm_nonce (fm_chunks_metadata (fd_file_metadata f) ! fd_chunk_index f) \<noteq> n"
      "length (cm_nonce (fm_chunks_metadata (fd_file_metadata f) ! fd_chunk_index f)) = AES_GCM_NONCE_SIZE_B"
    and "length (fm_encryption_key (fd_file_metadata f)) = AES_KEY_SIZE_B"
  shows "FileDownloader_store_next_chunk_decrypt ae write flush_ok c f = Ret (Inl (EncryptionError Encryption), f)"
proof -
  have "length (ch_data c) = length p + AES_GCM_AUTH_TAG_SIZE_B"
    using assms(1,3) by (auto simp: aead_spec_def)
  then have "ch_data c \<noteq> []" by (auto simp: AES_GCM_AUTH_TAG_SIZE_B_def)
  moreover have "ae_decrypt ae (fm_encryption_key (fd_file_metadata f))
      (cm_nonce (fm_chunks_metadata (fd_file_metadata f) ! fd_chunk_index f)) (ch_data c) = None"
    by (rule nonce_boundD [OF assms(2,3) assms(5) [symmetric]])
  ultimately show ?thesis
    using assms(4,6,7) by (simp add: FileDownloader_store_next_chunk_decrypt_def decrypt_payload_def Let_def)
qed

text \<open>The same chunk cannot be accepted for two entries of the metadata with different nonces.\<close>

lemma same_chunk_twice_fails:
  assumes "aead_spec ae" "nonce_bound ae k" "chunk_of ae k block c m" "m \<in> {m0, m1}" "cm_nonce m0 \<noteq> cm_nonce m1"
    and f: "fm_chunks_metadata (fd_file_metadata f) = [m0, m1]" "fm_encryption_key (fd_file_metadata f) = k"
      "fd_chunk_index f = 0"
    and len: "length k = AES_KEY_SIZE_B" "length (cm_nonce m0) = AES_GCM_NONCE_SIZE_B"
      "length (cm_nonce m1) = AES_GCM_NONCE_SIZE_B"
  shows "\<exists>f'. store_chunks ae [c, c] f = Ret (Inl (EncryptionError Encryption), f')"
proof -
  obtain p where p: "ae_encrypt ae k (cm_nonce m) p = Some (ch_data c)" using assms(3) by (auto simp: chunk_of_def)
  show ?thesis
  proof (cases "m = m0")
    case True
    obtain f1 where f1: "FileDownloader_store_next_chunk_decrypt ae WriteOk True c f = Ret (Inr (), f1)"
        "fd_file_metadata f1 = fd_file_metadata f" "fd_chunk_index f1 = 1"
      using store_next_chunk_of [OF assms(1), of f block c m0] assms(3) True f len by simp
    then have "FileDownloader_store_next_chunk_decrypt ae WriteOk True c f1 = Ret (Inl (EncryptionError Encryption), f1)"
      by (intro wrong_nonce_rejected [OF assms(1), of f1 "cm_nonce m" p]) (use p True f len assms(2,5) in simp_all)
    then show ?thesis using f1(1) by simp
  next
    case False
    then have "m = m1" using assms(4) by simp
    then have "FileDownloader_store_next_chunk_decrypt ae WriteOk True c f = Ret (Inl (EncryptionError Encryption), f)"
      by (intro wrong_nonce_rejected [OF assms(1), of f "cm_nonce m" p]) (use p f len assms(2,5) in simp_all)
    then show ?thesis by simp
  qed
qed

text \<open>A read that fills the buffer takes one whole block, which needs no padding.\<close>

lemma full_block_chunk:
  assumes "inputs_ok ae (fu_encryption_key u) inputs" "length (fu_encryption_key u) = AES_KEY_SIZE_B"
    and "ci_read (inputs i) = Some wanted" "padded_size \<le> wanted"
    and "fu_remaining u = block @ rest" "length block = padded_size"
  obtains e where "ae_encrypt ae (fu_encryption_key u) (ci_nonce (inputs i)) (chunk_payload block []) = Some e"
    "FileUploader_get_next_chunk_encrypt ae digest (inputs i) u =
       Ret (Inr (Some \<lparr>ch_data = e, ch_hash = Key_from_input digest block\<rparr>),
         next_metadata u padded_size \<lparr>cm_hash = Key_from_input digest block, cm_nonce = ci_nonce (inputs i)\<rparr>)"
proof -
  have pos: "0 < padded_size" by (simp add: CHUNK_DATA_SIZE_KB_def)
  then have ne: "fu_remaining u \<noteq> []" using assms(5,6) by auto
  have "file_read padded_size wanted (fu_remaining u) = padded_size"
    using assms(4-6) ne pos unfolding file_read_def by (simp only: if_False length_append)
  note n = this [symmetric]
  have parts: "take padded_size (fu_remaining u) = block" "chunk_pad (inputs i) padded_size = []"
    using assms(5,6) by (simp_all add: chunk_pad_def)
  have "length (chunk_payload block []) = padded_size + U32_SIZE_B"
    using assms(6) by (simp add: chunk_payload_def U32_SIZE_B_def)
  then obtain e where e: "ae_encrypt ae (fu_encryption_key u) (ci_nonce (inputs i)) (chunk_payload block []) = Some e"
    using assms(1) unfolding inputs_ok_def by blast
  show thesis
    using get_next_chunk_eq [where ae = ae and digest = digest, OF assms(3) n] ne assms(2)
    unfolding parts by (intro that [OF e]) (simp add: e Let_def)
qed

lemma shard_two_full_blocks:
  assumes "inputs_ok ae k inputs" "length k = AES_KEY_SIZE_B"
    and "d path = Some (block @ block)" "length block = padded_size" "Path_file_name path = Some name"
    and "ci_read (inputs 0) = Some w0" "padded_size \<le> w0" "ci_read (inputs 1) = Some w1" "padded_size \<le> w1"
  obtains u0 u2 e0 e1 where "FileUploader_new True k path d = Ret (Inr u0, d)"
    "shard_file ae digest inputs 0 u0 = Ret (Inr [\<lparr>ch_data = e0, ch_hash = Key_from_input digest block\<rparr>,
       \<lparr>ch_data = e1, ch_hash = Key_from_input digest block\<rparr>], u2)"
    "FileUploader_get_metadata True u2 = Inr \<lparr>fm_name = name, fm_encryption_key = k, fm_chunks_metadata =
       [\<lparr>cm_hash = Key_from_input digest block, cm_nonce = ci_nonce (inputs 0)\<rparr>,
        \<lparr>cm_hash = Key_from_input digest block, cm_nonce = ci_nonce (inputs 1)\<rparr>]\<rparr>"
    "ae_encrypt ae k (ci_nonce (inputs 0)) (chunk_payload block []) = Some e0"
    "ae_encrypt ae k (ci_nonce (inputs 1)) (chunk_payload block []) = Some e1"
proof -
  let ?h = "Key_from_input digest block"
  let ?m = "\<lambda>i. \<lparr>cm_hash = ?h, cm_nonce = ci_nonce (inputs i)\<rparr>"
  define u0 where "u0 = \<lparr>fu_remaining = block @ block,
    fu_file_metadata = \<lparr>fm_name = name, fm_encryption_key = k, fm_chunks_metadata = []\<rparr>, fu_encryption_key = k\<rparr>"
  define u1 where "u1 = next_metadata u0 padded_size (?m 0)"
  define u2 where "u2 = next_metadata u1 padded_size (?m 1)"
  have "length (block @ block) \<le> MAX_FILE_SIZE_MB * 1024 * 1024"
    using assms(4) by (simp add: CHUNK_DATA_SIZE_KB_def MAX_FILE_SIZE_MB_def)
  then have new: "FileUploader_new True k path d = Ret (Inr u0, d)"
    using assms(3,5) by (simp add: FileUploader_new_def FileUploader_new_with_max_file_size_def u0_def)
  have u: "fu_encryption_key u0 = k" "fu_encryption_key u1 = k" "fu_remaining u0 = block @ block"
      "fu_remaining u1 = block @ []" "fu_remaining u2 = []"
    using assms(4) by (simp_all add: u0_def u1_def u2_def next_metadata_def)
  obtain e0 where e0: "ae_encrypt ae k (ci_nonce (inputs 0)) (chunk_payload block []) = Some e0"
      "FileUploader_get_next_chunk_encrypt ae digest (inputs 0) u0 = Ret (Inr (Some \<lparr>ch_data = e0, ch_hash = ?h\<rparr>), u1)"
    using full_block_chunk [of ae u0 inputs 0 w0 block block digest] assms u by (auto simp: u1_def)
  obtain e1 where e1: "ae_encrypt ae k (ci_nonce (inputs 1)) (chunk_payload block []) = Some e1"
      "FileUploader_get_next_chunk_encrypt ae digest (inputs 1) u1 = Ret (Inr (Some \<lparr>ch_data = e1, ch_hash = ?h\<rparr>), u2)"
    using full_block_chunk [of ae u1 inputs 1 w1 block "[]" digest] assms u by (auto simp: u2_def)
  obtain w2 where "ci_read (inputs 2) = Some w2" using assms(1) unfolding inputs_ok_def by blast
  then have "FileUploader_get_next_chunk_encrypt ae digest (inputs 2) u2 = Ret (Inr None, u2)"
    using u(5) get_next_chunk_eq [of "inputs 2" w2 _ u2] by simp
  then have "shard_file ae digest inputs 0 u0 =
      Ret (Inr [\<lparr>ch_data = e0, ch_hash = ?h\<rparr>, \<lparr>ch_data = e1, ch_hash = ?h\<rparr>], u2)"
    using e0(2) e1(2) by (simp add: shard_file.simps [of ae digest inputs] numeral_2_eq_2)
  then show thesis
    using new e0(1) e1(1) by (intro that [of u0 e0 e1 u2])
      (simp_all add: FileUploader_get_metadata_def u0_def u1_def u2_def next_metadata_def assms(4))
qed

section \<open>Properties\<close>

text \<open>
  Claim C4. Upload and download of a file are inverse. For every way the reads are split, every
  padding and every nonce, cutting an existing file of admissible size into chunks ends with
  chunks of exactly the encrypted chunk size, whose hashes are those of the metadata in the same
  order; a downloader created from the metadata accepts these chunks and has then written, and
  flushed if there was any chunk, exactly the contents of the file.
\<close>

theorem upload_download_roundtrip:
  assumes "aead_spec ae" and "inputs_ok ae k inputs" and "length k = AES_KEY_SIZE_B"
    and "d path = Some content" and "length content \<le> MAX_FILE_SIZE_MB * 1024 * 1024"
    and "Path_file_name path = Some name"
  shows "\<exists>u cs u' md. FileUploader_new True k path d = Ret (Inr u, d) \<and>
     shard_file ae digest inputs 0 u = Ret (Inr cs, u') \<and>
     FileUploader_get_metadata True u' = Inr md \<and>
     map cm_hash (fm_chunks_metadata md) = map ch_hash cs \<and>
     (\<forall>c \<in> set cs. length (ch_data c) = ENCRYPTED_CHUNK_SIZE_B) \<and>
     (\<forall>out d2. \<exists>f f'. FileDownloader_new True md out d2 = (Inr f, d2(Path_join out name \<mapsto> [])) \<and>
        store_chunks ae cs f = Ret (Inr (), f') \<and>
        FileDownloader_get_output_file_path f' = Path_join out name \<and>
        fd_content f' = content \<and> (content \<noteq> [] \<longrightarrow> fd_flushed f' = content))"
proof -
  let ?md0 = "\<lparr>fm_name = name, fm_encryption_key = k, fm_chunks_metadata = []\<rparr>"
  let ?u = "\<lparr>fu_remaining = content, fu_file_metadata = ?md0, fu_encryption_key = k\<rparr>"
  have new: "FileUploader_new True k path d = Ret (Inr ?u, d)"
    using assms(4-6) by (simp add: FileUploader_new_def FileUploader_new_with_max_file_size_def)
  obtain cs u' where sh: "shard_file ae digest inputs 0 ?u = Ret (Inr cs, u')"
    using shard_file_returns [of ae ?u inputs digest 0] assms(2,3) by auto
  have nonce: "\<forall>j. length (ci_nonce (inputs j)) = AES_GCM_NONCE_SIZE_B"
    using assms(2) by (simp add: inputs_ok_def)
  from shard_file_chunks [OF sh nonce] obtain ps ms where
    ch: "chunks_of ae k ps cs ms" "concat ps = content" "fu_remaining u' = []"
      "fu_file_metadata u' = ?md0\<lparr>fm_chunks_metadata := ms\<rparr>"
    by auto
  let ?md = "?md0\<lparr>fm_chunks_metadata := ms\<rparr>"
  have md: "FileUploader_get_metadata True u' = Inr ?md"
    using ch by (simp add: FileUploader_get_metadata_def)
  have dl: "\<exists>f f'. FileDownloader_new True ?md out d2 = (Inr f, d2(Path_join out name \<mapsto> [])) \<and>
      store_chunks ae cs f = Ret (Inr (), f') \<and>
      FileDownloader_get_output_file_path f' = Path_join out name \<and>
      fd_content f' = content \<and> (content \<noteq> [] \<longrightarrow> fd_flushed f' = content)" for out d2
    using downloads_back [OF assms(1), of ?md ps cs out d2] ch(1,2) assms(3) by simp
  show ?thesis
    using new sh md dl chunks_of_hashes [OF ch(1)] chunks_of_sizes [OF assms(1) ch(1)]
    by (intro exI [of _ ?u] exI [of _ cs] exI [of _ u'] exI [of _ ?md]) simp
qed

text \<open>A cipher that only appends a tag.\<close>

definition sample_aead :: aead where
  "sample_aead = \<lparr>ae_encrypt = (\<lambda>k nonce p. Some (p @ replicate 16 0)),
     ae_decrypt = (\<lambda>k nonce c. Some (take (length c - 16) c))\<rparr>"

definition sample_inputs :: "nat \<Rightarrow> chunk_input" where
  "sample_inputs i = \<lparr>ci_read = Some 2, ci_rng = (\<lambda>_. 0), ci_nonce = replicate 12 0\<rparr>"

lemma sample_aead_spec: "aead_spec sample_aead"
  by (simp add: aead_spec_def sample_aead_def AES_GCM_AUTH_TAG_SIZE_B_def)

lemma sample_inputs_ok: "inputs_ok sample_aead k sample_inputs"
  by (simp add: inputs_ok_def sample_aead_def sample_inputs_def AES_GCM_NONCE_SIZE_B_def)

theorem upload_download_roundtrip_witness:
  "\<exists>u cs u' md. FileUploader_new True (replicate 32 0) ''a/b'' [''a/b'' \<mapsto> [1, 2, 3]] =
       Ret (Inr u, [''a/b'' \<mapsto> [1, 2, 3]]) \<and>
     shard_file sample_aead (\<lambda>_. replicate 20 0) sample_inputs 0 u = Ret (Inr cs, u') \<and>
     FileUploader_get_metadata True u' = Inr md \<and>
     (\<exists>f f'. FileDownloader_new True md ''out'' Map.empty = (Inr f, [''out/b'' \<mapsto> []]) \<and>
        store_chunks sample_aead cs f = Ret (Inr (), f') \<and> fd_flushed f' = [1, 2, 3])"
proof -
  have join: "Path_join ''out'' ''b'' = ''out/b''" by (simp add: Path_join_def)
  have name: "Path_file_name ''a/b'' = Some ''b''" by (simp add: Path_file_name_def Let_def)
  have "\<exists>u cs u' md. FileUploader_new True (replicate 32 0) ''a/b'' [''a/b'' \<mapsto> [1, 2, 3]] =
       Ret (Inr u, [''a/b'' \<mapsto> [1, 2, 3]]) \<and>
     shard_file sample_aead (\<lambda>_. replicate 20 0) sample_inputs 0 u = Ret (Inr cs, u') \<and>
     FileUploader_get_metadata True u' = Inr md \<and>
     map cm_hash (fm_chunks_metadata md) = map ch_hash cs \<and>
     (\<forall>c \<in> set cs. length (ch_data c) = ENCRYPTED_CHUNK_SIZE_B) \<and>
     (\<forall>out d2. \<exists>f f'. FileDownloader_new True md out d2 = (Inr f, d2(Path_join out ''b'' \<mapsto> [])) \<and>
        store_chunks sample_aead cs f = Ret (Inr (), f') \<and>
        FileDownloader_get_output_file_path f' = Path_join out ''b'' \<and>
        fd_content f' = [1, 2, 3] \<and> ([1, 2, 3] \<noteq> ([] :: bytes) \<longrightarrow> fd_flushed f' = [1, 2, 3]))"
    by (rule upload_download_roundtrip [OF sample_aead_spec sample_inputs_ok])
      (simp_all add: AES_KEY_SIZE_B_def MAX_FILE_SIZE_MB_def name)
  then show ?thesis by (metis join list.discI)
qed

text \<open>
  Claim C38. A file with two equal full blocks cannot be put together from one stored chunk. The hash of a
  chunk is taken before encryption, so both blocks have the same hash and hence the same
  place in the network, while their ciphertexts differ; a downloader that is given the
  ciphertext of either block for both of them reports a decryption error.
\<close>

theorem equal_blocks_unrecoverable:
  assumes "aead_spec ae" "nonce_bound ae k" "inputs_ok ae k inputs" "length k = AES_KEY_SIZE_B"
    and "d path = Some (block @ block)" "length block = CHUNK_DATA_SIZE_KB * 1024"
    and "Path_file_name path = Some name"
    and "ci_read (inputs 0) = Some w0" "CHUNK_DATA_SIZE_KB * 1024 \<le> w0"
    and "ci_read (inputs 1) = Some w1" "CHUNK_DATA_SIZE_KB * 1024 \<le> w1"
    and "ci_nonce (inputs 0) \<noteq> ci_nonce (inputs 1)"
  shows "\<exists>u u' c1 c2 md. FileUploader_new True k path d = Ret (Inr u, d) \<and>
     shard_file ae digest inputs 0 u = Ret (Inr [c1, c2], u') \<and>
     FileUploader_get_metadata True u' = Inr md \<and>
     ch_hash c1 = ch_hash c2 \<and> ch_data c1 \<noteq> ch_data c2 \<and>
     (\<forall>c \<in> {c1, c2}. \<forall>out d2. \<exists>f f'. fst (FileDownloader_new True md out d2) = Inr f \<and>
        store_chunks ae [c, c] f = Ret (Inl (EncryptionError Encryption), f'))"
proof -
  let ?h = "Key_from_input digest block"
  let ?m = "\<lambda>i. \<lparr>cm_hash = ?h, cm_nonce = ci_nonce (inputs i)\<rparr>"
  define md where "md = \<lparr>fm_name = name, fm_encryption_key = k, fm_chunks_metadata = [?m 0, ?m 1]\<rparr>"
  obtain u0 u2 e0 e1 where new: "FileUploader_new True k path d = Ret (Inr u0, d)"
    and sh: "shard_file ae digest inputs 0 u0 =
      Ret (Inr [\<lparr>ch_data = e0, ch_hash = ?h\<rparr>, \<lparr>ch_data = e1, ch_hash = ?h\<rparr>], u2)"
    and u2: "FileUploader_get_metadata True u2 = Inr md"
    and enc: "ae_encrypt ae k (ci_nonce (inputs 0)) (chunk_payload block []) = Some e0"
      "ae_encrypt ae k (ci_nonce (inputs 1)) (chunk_payload block []) = Some e1"
    unfolding md_def by (rule shard_two_full_blocks [where d = d and path = path and inputs = inputs, OF assms(3-11)])
  have ne: "e0 \<noteq> e1"
    using enc(2) assms(1) nonce_boundD [OF assms(2) enc(1) assms(12)] by (auto simp: aead_spec_def)
  have twice: "\<exists>f f'. fst (FileDownloader_new True md out d2) = Inr f \<and>
      store_chunks ae [c, c] f = Ret (Inl (EncryptionError Encryption), f')"
    if "chunk_of ae k block c (?m i)" "i \<in> {0, 1}" for c i out d2
  proof -
    have "length (ci_nonce (inputs j)) = AES_GCM_NONCE_SIZE_B" for j using assms(3) by (simp add: inputs_ok_def)
    moreover define f where "f = \<lparr>fd_content = [], fd_flushed = [], fd_file_metadata = md, fd_chunk_index = 0,
      fd_output_file_path = Path_join out (fm_name md)\<rparr>"
    ultimately have "\<exists>f'. store_chunks ae [c, c] f = Ret (Inl (EncryptionError Encryption), f')"
      using that(2) assms(4,12)
      by (intro same_chunk_twice_fails [OF assms(1,2) that(1), where ?m0.0 = "?m 0" and ?m1.0 = "?m 1"])
        (auto simp: f_def md_def)
    then show ?thesis by (auto simp: FileDownloader_new_def Let_def f_def simp del: store_chunks.simps)
  qed
  have "chunk_of ae k block \<lparr>ch_data = e0, ch_hash = ?h\<rparr> (?m 0)" "chunk_of ae k block \<lparr>ch_data = e1, ch_hash = ?h\<rparr> (?m 1)"
    using enc assms(6) by (simp_all add: chunk_of_def CHUNK_DATA_SIZE_KB_def)
  then have "\<forall>c \<in> {\<lparr>ch_data = e0, ch_hash = ?h\<rparr>, \<lparr>ch_data = e1, ch_hash = ?h\<rparr>}. \<forall>out d2. \<exists>f f'.
      fst (FileDownloader_new True md out d2) = Inr f \<and> store_chunks ae [c, c] f = Ret (Inl (EncryptionError Encryption), f')"
    using twice [of _ 0] twice [of _ 1] by (simp del: store_chunks.simps)
  then show ?thesis
    using new sh ne u2
    by (intro exI [of _ u0] exI [of _ u2] exI [of _ "\<lparr>ch_data = e0, ch_hash = ?h\<rparr>"]
          exI [of _ "\<lparr>ch_data = e1, ch_hash = ?h\<rparr>"] exI [of _ md])
      (simp del: store_chunks.simps)
qed

text \<open>A cipher whose tag is the nonce.\<close>

definition tagging_aead :: aead where
  "tagging_aead = \<lparr>ae_encrypt = (\<lambda>k n p. if length n = 12 then Some (p @ n @ replicate 4 0) else None),
     ae_decrypt = (\<lambda>k n c. if n @ replicate 4 0 = drop (length c - 16) c then Some (take (length c - 16) c) else None)\<rparr>"

definition full_inputs :: "nat \<Rightarrow> chunk_input" where
  "full_inputs i = \<lparr>ci_read = Some padded_size, ci_rng = (\<lambda>_. 0), ci_nonce = replicate 12 (of_nat i)\<rparr>"

lemma tagging_aead_ok: "aead_spec tagging_aead" "nonce_bound tagging_aead k" "inputs_ok tagging_aead k full_inputs"
  by (auto simp: aead_spec_def nonce_bound_def inputs_ok_def tagging_aead_def full_inputs_def const_defs
      AES_GCM_NONCE_SIZE_B_def split: if_splits)

theorem equal_blocks_unrecoverable_witness:
  "\<exists>u u' c1 c2 md.
     FileUploader_new True (replicate 32 0) ''a/b'' [''a/b'' \<mapsto> replicate padded_size 7 @ replicate padded_size 7] =
       Ret (Inr u, [''a/b'' \<mapsto> replicate padded_size 7 @ replicate padded_size 7]) \<and>
     shard_file tagging_aead (\<lambda>_. replicate 20 0) full_inputs 0 u = Ret (Inr [c1, c2], u') \<and>
     FileUploader_get_metadata True u' = Inr md \<and> ch_hash c1 = ch_hash c2 \<and> ch_data c1 \<noteq> ch_data c2 \<and>
     (\<forall>c \<in> {c1, c2}. \<forall>out d2. \<exists>f f'. fst (FileDownloader_new True md out d2) = Inr f \<and>
        store_chunks tagging_aead [c, c] f = Ret (Inl (EncryptionError Encryption), f'))"
proof -
  have name: "Path_file_name ''a/b'' = Some ''b''" by (simp add: Path_file_name_def Let_def)
  have nonces: "ci_nonce (full_inputs 0) \<noteq> ci_nonce (full_inputs 1)" by (simp add: full_inputs_def)
  have reads: "ci_read (full_inputs i) = Some padded_size" for i by (simp add: full_inputs_def)
  show ?thesis
    by (rule equal_blocks_unrecoverable [where block = "replicate padded_size 7", OF tagging_aead_ok _ _ length_replicate name reads le_refl reads le_refl nonces])
      (simp_all add: AES_KEY_SIZE_B_def)
qed

end
