(* ===== verification/Storage.thy ===== *)
theory Storage
  imports Hash_Map Messages Sharding
begin

text \<open>
  \<open>storage/data_transfers_table.rs\<close>, \<open>storage/shard_storage_manager.rs\<close> and
  \<open>storage/file_manager.rs\<close>: the transfers announced on a port, the chunks this node stores
  for others with their files on disk, and the files this node has uploaded. The disk is passed
  along with the manager; the outcomes of the operating system's calls are arguments.
\<close>

section \<open>Data transfers\<close>

record data_transfer =
  dt_sender :: node_info
  dt_chunk_hash :: key

type_synonym data_transfers_table = "(u16, data_transfer) hash_map"

definition DataTransfersTable_new :: data_transfers_table where
  "DataTransfersTable_new = HashMap_new"

definition DataTransfersTable_add ::
  "u16 \<Rightarrow> node_info \<Rightarrow> key \<Rightarrow> data_transfers_table \<Rightarrow> data_transfer option \<times> data_transfers_table" where
  "DataTransfersTable_add port sender chunk_hash t =
     HashMap_insert port \<lparr>dt_sender = sender, dt_chunk_hash = chunk_hash\<rparr> t"

definition DataTransfersTable_get :: "u16 \<Rightarrow> data_transfers_table \<Rightarrow> data_transfer option" where
  "DataTransfersTable_get port t = HashMap_get t port"

definition DataTransfersTable_remove ::
  "u16 \<Rightarrow> data_transfers_table \<Rightarrow> data_transfer option \<times> data_transfers_table" where
  "DataTransfersTable_remove port t = HashMap_remove port t"

section \<open>Stored chunks\<close>

datatype shard_storage_error =
    MaxShardsExceeded
  | InvalidChunkSize
  | StorageMemoryExceeded
  | ChunkAlreadyStored
  | DataTransferNotFound
  | ChunkNotFound
  | ChunkDeletionFailed
  | ChunkNotFoundInStorage
  | IoError

record stored_chunk_info =
  sc_time_stored_at :: time

record shard_storage_manager =
  ss_storage_root_path :: string
  ss_owned_chunks :: "(key, stored_chunk_info) hash_map"
  ss_data_transfers_table :: data_transfers_table
  ss_total_stored_kb :: "64 word"
  ss_reupload_interval_s :: nat
  ss_expire_time_s :: nat

definition ShardStorageManager_new :: "string \<Rightarrow> shard_storage_manager" where
  "ShardStorageManager_new root =
     \<lparr>ss_storage_root_path = root, ss_owned_chunks = HashMap_new,
      ss_data_transfers_table = DataTransfersTable_new, ss_total_stored_kb = 0,
      ss_reupload_interval_s = DEFAULT_CHUNK_REUPLOAD_INTERVAL_S,
      ss_expire_time_s = DEFAULT_CHUNK_EXPIRE_TIME_S\<rparr>"

definition chunk_path :: "shard_storage_manager \<Rightarrow> key \<Rightarrow> string" where
  "chunk_path m hash = Path_join (ss_storage_root_path m) (Key_display hash)"

text \<open>
  \<open>store_chunk_for_known_peer\<close>: \<open>create_ok\<close> is the outcome of \<open>File::create\<close>, \<open>write\<close> that of
  \<open>write_all\<close>. The free space is computed in \<open>usize\<close>, which wraps in a release build.
\<close>

definition ShardStorageManager_store_chunk_for_known_peer ::
  "time \<Rightarrow> bool \<Rightarrow> write_outcome \<Rightarrow> bytes \<Rightarrow> u16 \<Rightarrow> shard_storage_manager \<Rightarrow> disk \<Rightarrow>
     (shard_storage_error + unit) \<times> shard_storage_manager \<times> disk" where
  "ShardStorageManager_store_chunk_for_known_peer now create_ok write data port m d =
     (case DataTransfersTable_get port (ss_data_transfers_table m) of
        None \<Rightarrow> (Inl DataTransferNotFound, m, d)
      | Some data_transfer \<Rightarrow>
          if HashMap_len (ss_owned_chunks m) \<ge> MAX_SHARDS_STORED then (Inl MaxShardsExceeded, m, d)
          else if length data > ENCRYPTED_CHUNK_SIZE_B then (Inl InvalidChunkSize, m, d)
          else if of_nat (MAX_DATA_STORED_MB * 1024) - ss_total_stored_kb m < of_nat (length data)
          then (Inl StorageMemoryExceeded, m, d)
          else let chunk_hash = dt_chunk_hash data_transfer;
                   chunk_full_path = chunk_path m chunk_hash
               in if d chunk_full_path \<noteq> None then (Inl ChunkAlreadyStored, m, d)
                  else if \<not> create_ok then (Inl IoError, m, d)
                  else let m1 = m\<lparr>ss_data_transfers_table :=
                             snd (DataTransfersTable_remove port (ss_data_transfers_table m))\<rparr>;
                           d1 = d(chunk_full_path \<mapsto> written write data)
                       in if write \<noteq> WriteOk then (Inl IoError, m1, d1)
                          else (Inr (), m1\<lparr>ss_owned_chunks :=
                                  snd (HashMap_insert chunk_hash \<lparr>sc_time_stored_at = now\<rparr> (ss_owned_chunks m1))\<rparr>, d1))"

definition ShardStorageManager_read_chunk ::
  "bool \<Rightarrow> key \<Rightarrow> shard_storage_manager \<Rightarrow> disk \<Rightarrow> shard_storage_error + bytes" where
  "ShardStorageManager_read_chunk read_ok hash m d =
     (case d (chunk_path m hash) of
        None \<Rightarrow> Inl ChunkNotFound
      | Some data \<Rightarrow> if read_ok then Inr data else Inl IoError)"

text \<open>\<open>Instant::elapsed\<close> saturates at zero; the thresholds are durations in nanoseconds.\<close>

definition older_than :: "nat \<Rightarrow> time \<Rightarrow> stored_chunk_info \<Rightarrow> bool" where
  "older_than secs now info \<longleftrightarrow> now - sc_time_stored_at info \<ge> secs * 10 ^ 9"

text \<open>
  The deletion loop of \<open>remove_dead_chunks\<close>: \<open>remove_file\<close> fails on a missing file, and
  otherwise when \<open>remove_ok\<close> says so; the first failure ends the call.
\<close>

fun remove_files ::
  "(string \<Rightarrow> bool) \<Rightarrow> string list \<Rightarrow> disk \<Rightarrow> (shard_storage_error + unit) \<times> disk" where
  "remove_files remove_ok [] d = (Inr (), d)"
| "remove_files remove_ok (p # ps) d =
     (if d p = None \<or> \<not> remove_ok p then (Inl ChunkDeletionFailed, d)
      else remove_files remove_ok ps (d(p := None)))"

definition ShardStorageManager_remove_dead_chunks ::
  "time \<Rightarrow> (string \<Rightarrow> bool) \<Rightarrow> shard_storage_manager \<Rightarrow> disk \<Rightarrow>
     (shard_storage_error + unit) \<times> shard_storage_manager \<times> disk" where
  "ShardStorageManager_remove_dead_chunks now remove_ok m d =
     (let dead = map fst (filter (\<lambda>e. older_than (ss_expire_time_s m) now (snd e)) (ss_owned_chunks m))
      in case remove_files remove_ok (map (chunk_path m) dead) d of
           (Inl e, d') \<Rightarrow> (Inl e, m, d')
         | (Inr _, d') \<Rightarrow>
             (Inr (), m\<lparr>ss_owned_chunks := HashMap_retain (\<lambda>k. k \<notin> set dead) (ss_owned_chunks m)\<rparr>, d'))"

definition ShardStorageManager_get_chunks_for_reupload ::
  "time \<Rightarrow> shard_storage_manager \<Rightarrow> key list" where
  "ShardStorageManager_get_chunks_for_reupload now m =
     map fst (filter (\<lambda>e. older_than (ss_reupload_interval_s m) now (snd e)) (ss_owned_chunks m))"

definition ShardStorageManager_is_chunk_already_stored :: "key \<Rightarrow> shard_storage_manager \<Rightarrow> bool" where
  "ShardStorageManager_is_chunk_already_stored hash m = HashMap_contains_key (ss_owned_chunks m) hash"

definition ShardStorageManager_add_active_tcp_connection ::
  "u16 \<Rightarrow> node_info \<Rightarrow> key \<Rightarrow> shard_storage_manager \<Rightarrow> data_transfer option \<times> shard_storage_manager" where
  "ShardStorageManager_add_active_tcp_connection port sender chunk_hash m =
     (let (previous, t) = DataTransfersTable_add port sender chunk_hash (ss_data_transfers_table m)
      in (previous, m\<lparr>ss_data_transfers_table := t\<rparr>))"

definition ShardStorageManager_update_chunk_upload_time ::
  "time \<Rightarrow> key \<Rightarrow> shard_storage_manager \<Rightarrow> (shard_storage_error + unit) \<times> shard_storage_manager" where
  "ShardStorageManager_update_chunk_upload_time now hash m =
     (case HashMap_get (ss_owned_chunks m) hash of
        Some chunk_info \<Rightarrow>
          (Inr (), m\<lparr>ss_owned_chunks :=
             HashMap_put hash (chunk_info\<lparr>sc_time_stored_at := now\<rparr>) (ss_owned_chunks m)\<rparr>)
      | None \<Rightarrow> (Inl ChunkNotFoundInStorage, m))"

definition ShardStorageManager_get_chunks_closer_to_node_than_to_me ::
  "key \<Rightarrow> key \<Rightarrow> shard_storage_manager \<Rightarrow> key list" where
  "ShardStorageManager_get_chunks_closer_to_node_than_to_me my_id other_node_id m =
     filter (\<lambda>h. Key_distance h other_node_id < Key_distance h my_id) (HashMap_keys (ss_owned_chunks m))"

definition ShardStorageManager_get_owned_chunk_keys :: "shard_storage_manager \<Rightarrow> key list" where
  "ShardStorageManager_get_owned_chunk_keys m = HashMap_keys (ss_owned_chunks m)"

section \<open>Uploaded files\<close>

definition DEFAULT_FILE_REUPLOAD_INTERVAL_S :: nat where "DEFAULT_FILE_REUPLOAD_INTERVAL_S = 86400"

record stored_file_info =
  sf_time_uploaded :: time

record file_manager =
  fmg_uploaded_files :: "(string, stored_file_info) hash_map"
  fmg_reupload_interval_s :: nat

definition FileManager_new_with_reupload_interval :: "nat \<Rightarrow> file_manager" where
  "FileManager_new_with_reupload_interval s =
     \<lparr>fmg_uploaded_files = HashMap_new, fmg_reupload_interval_s = s\<rparr>"

definition FileManager_new :: file_manager where
  "FileManager_new = FileManager_new_with_reupload_interval DEFAULT_FILE_REUPLOAD_INTERVAL_S"

definition FileManager_add_file_uploaded_entry :: "time \<Rightarrow> string \<Rightarrow> file_manager \<Rightarrow> file_manager" where
  "FileManager_add_file_uploaded_entry now full_file_path fm =
     (case HashMap_get (fmg_uploaded_files fm) full_file_path of
        Some file \<Rightarrow> fm\<lparr>fmg_uploaded_files :=
          HashMap_put full_file_path (file\<lparr>sf_time_uploaded := now\<rparr>) (fmg_uploaded_files fm)\<rparr>
      | None \<Rightarrow> fm\<lparr>fmg_uploaded_files :=
          HashMap_put full_file_path \<lparr>sf_time_uploaded = now\<rparr> (fmg_uploaded_files fm)\<rparr>)"

text \<open>\<open>elapsed().unwrap()\<close> panics when the clock is behind a recorded time.\<close>

definition FileManager_get_files_for_reupload :: "time \<Rightarrow> file_manager \<Rightarrow> string list run" where
  "FileManager_get_files_for_reupload now fm =
     (if \<forall>e \<in> set (fmg_uploaded_files fm). sf_time_uploaded (snd e) \<le> now
      then Ret (map fst (filter
             (\<lambda>e. (now - sf_time_uploaded (snd e)) div 10 ^ 9 \<ge> fmg_reupload_interval_s fm)
             (fmg_uploaded_files fm)))
      else Panicked)"

section \<open>Paths of chunks\<close>

lemma Key_display_relative:
  "Key_display k \<noteq> [] \<Longrightarrow> hd (Key_display k) \<noteq> CHR ''/''"
proof -
  have d: "hex_digit i \<noteq> CHR ''/''" if "i < 16" for i
  proof
    assume "hex_digit i = CHR ''/''"
    then have "CHR ''/'' \<in> set ''0123456789abcdef''"
      using that nth_mem [of i "''0123456789abcdef''"] by (simp add: hex_digit_def del: set_simps)
    then show False by simp
  qed
  assume "Key_display k \<noteq> []"
  then obtain b bs where "key_value k = b # bs"
    by (cases "key_value k") (simp_all add: Key_display_def)
  then show ?thesis using d u8_high_digit by (simp add: Key_display_def fmt_02x_def)
qed

lemma chunk_path_inj:
  "wf_key a \<Longrightarrow> wf_key b \<Longrightarrow> chunk_path m a = chunk_path m b \<longleftrightarrow> a = b"
  unfolding chunk_path_def
  by (subst Path_join_inj) (auto dest: Key_display_relative simp: Key_display_inj)

section \<open>The interface of a chunk store\<close>

text \<open>
  What the handlers of \<open>STORE\<close>, \<open>GET_PORT\<close>, \<open>FIND_VALUE\<close> and \<open>GET_VALUE\<close> rely on: an upload
  is accepted once on an announced port, under the hash announced there; a failed one changes
  no stored chunk.
\<close>

locale chunk_store =
  fixes invar :: "'s \<Rightarrow> bool"
    and contents :: "'s \<Rightarrow> key \<Rightarrow> bytes option"
    and announced :: "'s \<Rightarrow> u16 \<Rightarrow> key option"
    and announce :: "u16 \<Rightarrow> node_info \<Rightarrow> key \<Rightarrow> 's \<Rightarrow> 's"
    and put :: "bytes \<Rightarrow> u16 \<Rightarrow> 's \<Rightarrow> ('e + unit) \<times> 's"
    and has :: "key \<Rightarrow> 's \<Rightarrow> bool"
    and read :: "key \<Rightarrow> 's \<Rightarrow> 'e + bytes"
  assumes announce_law: "invar s \<Longrightarrow> wf_key h \<Longrightarrow> invar (announce port sender h s) \<and>
      contents (announce port sender h s) = contents s \<and>
      announced (announce port sender h s) = (announced s)(port \<mapsto> h)"
    and put_ok: "invar s \<Longrightarrow> put data port s = (Inr u, s') \<Longrightarrow> invar s' \<and>
      (\<exists>h. announced s port = Some h \<and> contents s h = None \<and>
        contents s' = (contents s)(h \<mapsto> data) \<and> announced s' = (announced s)(port := None))"
    and put_failed: "invar s \<Longrightarrow> put data port s = (Inl e, s') \<Longrightarrow> invar s' \<and> contents s' = contents s"
    and has_iff: "invar s \<Longrightarrow> has h s \<longleftrightarrow> contents s h \<noteq> None"
    and read_ok: "invar s \<Longrightarrow> contents s h = Some data \<Longrightarrow> read h s = Inr data"
begin

lemma upload_then_read:
  assumes "invar s" "wf_key h" and "put data port (announce port sender h s) = (Inr u, s')"
  shows "has h s' \<and> read h s' = Inr data \<and> (\<forall>h'. h' \<noteq> h \<longrightarrow> contents s' h' = contents s h')"
  using put_ok [OF _ assms(3)] announce_law [OF assms(1,2), of port sender] has_iff read_ok
  by fastforce

lemma upload_once:
  assumes "invar s" and "put data port s = (Inr u, s')"
  shows "\<exists>e s''. put data' port s' = (Inl e, s'') \<and> contents s'' = contents s'"
proof -
  have s': "invar s'" "announced s' port = None" using put_ok [OF assms] by auto
  obtain r s'' where p: "put data' port s' = (r, s'')" by (cases "put data' port s'")
  show ?thesis
  proof (cases r)
    case (Inl e)
    then show ?thesis using put_failed [OF s'(1)] p by auto
  next
    case (Inr v)
    then show ?thesis using put_ok [OF s'(1)] p s'(2) by fastforce
  qed
qed

end

section \<open>The storage manager as a chunk store\<close>

definition ss_contents :: "shard_storage_manager \<times> disk \<Rightarrow> key \<Rightarrow> bytes option" where
  "ss_contents = (\<lambda>(m, d) h.
     if ShardStorageManager_is_chunk_already_stored h m then d (chunk_path m h) else None)"

definition ss_announced :: "shard_storage_manager \<times> disk \<Rightarrow> u16 \<Rightarrow> key option" where
  "ss_announced = (\<lambda>(m, d) port.
     map_option dt_chunk_hash (DataTransfersTable_get port (ss_data_transfers_table m)))"

text \<open>
  Every chunk the manager owns has its file, none is larger than an encrypted chunk, and there
  are at most \<open>MAX_SHARDS_STORED\<close> of them. Files of the directory that are not owned are allowed.
\<close>

definition ss_inv :: "shard_storage_manager \<times> disk \<Rightarrow> bool" where
  "ss_inv = (\<lambda>(m, d).
     wf_map (ss_owned_chunks m) \<and> wf_map (ss_data_transfers_table m) \<and>
     (\<forall>h. HashMap_get (ss_owned_chunks m) h \<noteq> None \<longrightarrow>
        wf_key h \<and> (\<exists>data. d (chunk_path m h) = Some data \<and> length data \<le> ENCRYPTED_CHUNK_SIZE_B)) \<and>
     (\<forall>port t. HashMap_get (ss_data_transfers_table m) port = Some t \<longrightarrow> wf_key (dt_chunk_hash t)) \<and>
     HashMap_len (ss_owned_chunks m) \<le> MAX_SHARDS_STORED \<and> ss_total_stored_kb m = 0)"

lemmas storage_defs = ss_contents_def ss_announced_def ss_inv_def hash_map_defs
  DataTransfersTable_new_def DataTransfersTable_get_def DataTransfersTable_remove_def
  DataTransfersTable_add_def ShardStorageManager_is_chunk_already_stored_def

lemma chunk_path_cong:
  "ss_storage_root_path m = ss_storage_root_path m' \<Longrightarrow> chunk_path m h = chunk_path m' h"
  by (simp add: chunk_path_def)

lemma ss_inv_new [inv_intros]: "ss_inv (ShardStorageManager_new root, d)"
  by (simp add: storage_defs ShardStorageManager_new_def HashMap_len_def)
    (simp add: HashMap_new_def)

text \<open>The memory check never refuses a chunk of admissible size.\<close>

lemma memory_check_passes:
  assumes "ss_total_stored_kb m = 0" "length data \<le> ENCRYPTED_CHUNK_SIZE_B"
  shows "\<not> of_nat (MAX_DATA_STORED_MB * 1024) - ss_total_stored_kb m < (of_nat (length data) :: 64 word)"
proof -
  have "length data < 2 ^ 64" using assms(2) by (simp add: const_defs)
  then have "unat (of_nat (length data) :: 64 word) = length data"
    by (simp add: unat_of_nat take_bit_eq_mod)
  then show ?thesis using assms by (simp add: word_less_nat_alt const_defs)
qed

lemma store_chunk_cases:
  assumes "ss_inv (m, d)"
    and "ShardStorageManager_store_chunk_for_known_peer now create_ok write data port m d = (r, m', d')"
  obtains (refused) e where "r = Inl e" "m' = m" "d' = d"
  | (accepted) t where "DataTransfersTable_get port (ss_data_transfers_table m) = Some t"
      "length data \<le> ENCRYPTED_CHUNK_SIZE_B" "HashMap_len (ss_owned_chunks m) < MAX_SHARDS_STORED"
      "d (chunk_path m (dt_chunk_hash t)) = None"
      "d' = d(chunk_path m (dt_chunk_hash t) \<mapsto> written write data)"
      "m' = m\<lparr>ss_data_transfers_table := HashMap_delete port (ss_data_transfers_table m),
         ss_owned_chunks := if write = WriteOk
           then HashMap_put (dt_chunk_hash t) \<lparr>sc_time_stored_at = now\<rparr> (ss_owned_chunks m)
           else ss_owned_chunks m\<rparr>"
      "r = (if write = WriteOk then Inr () else Inl IoError)"
proof (cases "DataTransfersTable_get port (ss_data_transfers_table m)")
  case None
  then show thesis
    using assms(2) by (intro refused [of DataTransferNotFound])
      (simp_all add: ShardStorageManager_store_chunk_for_known_peer_def)
next
  case (Some t)
  note eq = assms(2) [unfolded ShardStorageManager_store_chunk_for_known_peer_def Some option.case Let_def]
  show thesis
  proof (cases "HashMap_len (ss_owned_chunks m) < MAX_SHARDS_STORED \<and> length data \<le> ENCRYPTED_CHUNK_SIZE_B
      \<and> d (chunk_path m (dt_chunk_hash t)) = None \<and> create_ok")
    case True
    have "\<not> of_nat (MAX_DATA_STORED_MB * 1024) - ss_total_stored_kb m < (of_nat (length data) :: 64 word)"
      using assms(1) True by (intro memory_check_passes) (simp_all add: ss_inv_def)
    then show thesis
      using eq True by (intro accepted [OF Some])
        (auto simp: DataTransfersTable_remove_def hash_map_defs split: if_splits)
  next
    case False
    then have "\<exists>e. (r, m', d') = (Inl e, m, d)" using eq by (auto split: if_splits)
    then show thesis using refused by blast
  qed
qed

lemma ss_inv_owned:
  assumes "ss_inv (m, d)" "HashMap_get (ss_owned_chunks m) h \<noteq> None"
  shows "wf_key h" and "d (chunk_path m h) \<noteq> None"
  using assms unfolding ss_inv_def by auto

lemma ss_inv_unowned:
  "ss_inv (m, d) \<Longrightarrow> d (chunk_path m h) = None \<Longrightarrow> HashMap_get (ss_owned_chunks m) h = None"
  using ss_inv_owned(2) by blast

text \<open>An accepted upload under a hash that is not yet on disk.\<close>

lemma ss_accepted:
  assumes inv: "ss_inv (m, d)" and t: "DataTransfersTable_get port (ss_data_transfers_table m) = Some t"
    and len: "length data \<le> ENCRYPTED_CHUNK_SIZE_B" "HashMap_len (ss_owned_chunks m) < MAX_SHARDS_STORED"
    and fresh: "d (chunk_path m (dt_chunk_hash t)) = None"
    and m': "m' = m\<lparr>ss_data_transfers_table := HashMap_delete port (ss_data_transfers_table m),
         ss_owned_chunks := if ok then HashMap_put (dt_chunk_hash t) info (ss_owned_chunks m) else ss_owned_chunks m\<rparr>"
    and d': "d' = d(chunk_path m (dt_chunk_hash t) \<mapsto> bs)" and bs: "length bs \<le> length data"
  shows "ss_inv (m', d')" and "HashMap_get (ss_owned_chunks m) (dt_chunk_hash t) = None"
    and "ss_contents (m', d') = (if ok then (ss_contents (m, d))(dt_chunk_hash t \<mapsto> bs) else ss_contents (m, d))"
proof -
  let ?h = "dt_chunk_hash t"
  have wf: "wf_map (ss_owned_chunks m)" "wf_map (ss_data_transfers_table m)" "wf_key ?h"
    using inv t by (auto simp: ss_inv_def DataTransfersTable_get_def)
  show no: "HashMap_get (ss_owned_chunks m) ?h = None"
    using ss_inv_owned(2) [OF inv, of ?h] fresh by blast
  have path: "chunk_path m' h = chunk_path m h" for h by (simp add: chunk_path_def m')
  have same: "d' (chunk_path m h) = d (chunk_path m h)" if "HashMap_get (ss_owned_chunks m) h \<noteq> None" for h
    using that ss_inv_owned [OF inv that] wf(3) fresh by (auto simp: d')
  have len': "HashMap_len (HashMap_put ?h info (ss_owned_chunks m)) = Suc (HashMap_len (ss_owned_chunks m))"
    using hm.length_keys_put [OF wf(1), of ?h info] no by (simp add: HashMap_len_keys)
  have own: "wf_key h \<and> (\<exists>data. d' (chunk_path m' h) = Some data \<and> length data \<le> ENCRYPTED_CHUNK_SIZE_B)"
    if "HashMap_get (ss_owned_chunks m') h \<noteq> None" for h
  proof (cases "h = ?h")
    case True
    then show ?thesis using wf(3) bs len by (simp add: path d')
  next
    case False
    then have h: "HashMap_get (ss_owned_chunks m) h \<noteq> None"
      using that wf by (simp add: m' split: if_splits)
    then show ?thesis using inv same [OF h] unfolding path by (simp add: ss_inv_def)
  qed
  show "ss_inv (m', d')"
    using own inv wf len' len(2) unfolding ss_inv_def prod.case
    by (intro conjI allI impI) (auto simp: m' split: if_splits)
  have get: "HashMap_get (ss_owned_chunks m') h =
      (if ok \<and> h = ?h then Some info else HashMap_get (ss_owned_chunks m) h)" for h
    using wf by (simp add: m')
  show "ss_contents (m', d') = (if ok then (ss_contents (m, d))(?h \<mapsto> bs) else ss_contents (m, d))"
  proof
    fix h
    show "ss_contents (m', d') h = (if ok then (ss_contents (m, d))(?h \<mapsto> bs) else ss_contents (m, d)) h"
      using same [of h] no by (cases "h = ?h") (auto simp: storage_defs path get d')
  qed
qed

lemma written_length: "length (written w data) \<le> length data"
  by (cases w) simp_all

lemma announce_laws:
  assumes "ss_inv (m, d)" "wf_key h"
    and "ShardStorageManager_add_active_tcp_connection port sender h m = (prev, m')"
  shows "ss_inv (m', d)" and "ss_contents (m', d) = ss_contents (m, d)"
    and "ss_announced (m', d) = (ss_announced (m, d))(port \<mapsto> h)"
proof -
  have m': "m' = m\<lparr>ss_data_transfers_table :=
      HashMap_put port \<lparr>dt_sender = sender, dt_chunk_hash = h\<rparr> (ss_data_transfers_table m)\<rparr>"
    using assms(3) by (auto simp: ShardStorageManager_add_active_tcp_connection_def storage_defs Let_def)
  have path: "chunk_path m' h = chunk_path m h" for h by (simp add: chunk_path_def m')
  have wf: "wf_map (ss_data_transfers_table m)" using assms(1) by (simp add: ss_inv_def)
  show "ss_inv (m', d)"
    using assms(1,2) wf by (auto simp: ss_inv_def path) (auto simp: m' split: if_splits)
  show "ss_contents (m', d) = ss_contents (m, d)"
    by (simp add: fun_eq_iff storage_defs path) (auto simp: m')
  show "ss_announced (m', d) = (ss_announced (m, d))(port \<mapsto> h)"
    using wf by (simp add: fun_eq_iff storage_defs m')
qed

interpretation ss: chunk_store ss_inv ss_contents ss_announced
  "\<lambda>port sender h (m, d). (snd (ShardStorageManager_add_active_tcp_connection port sender h m), d)"
  "\<lambda>data port (m, d). ShardStorageManager_store_chunk_for_known_peer now create_ok wr data port m d"
  "\<lambda>h (m, d). ShardStorageManager_is_chunk_already_stored h m"
  "\<lambda>h (m, d). ShardStorageManager_read_chunk True h m d"
  for now :: time and create_ok :: bool and wr :: write_outcome
proof (unfold_locales, goal_cases)
  case (1 s h port sender)
  obtain m d where s: "s = (m, d)" by (cases s)
  obtain prev m' where a: "ShardStorageManager_add_active_tcp_connection port sender h m = (prev, m')"
    by (cases "ShardStorageManager_add_active_tcp_connection port sender h m")
  show ?case using 1 announce_laws [OF _ _ a, of d] by (simp add: s a)
next
  case (2 s data port u s')
  obtain m d m' d' where s: "s = (m, d)" "s' = (m', d')" by (cases s, cases s')
  from 2 s have inv: "ss_inv (m, d)"
    and st: "ShardStorageManager_store_chunk_for_known_peer now create_ok wr data port m d = (Inr u, m', d')"
    by simp_all
  from inv st show ?case
  proof (cases rule: store_chunk_cases)
    case (accepted t)
    then have w: "wr = WriteOk" by (simp split: if_splits)
    note acc = ss_accepted [OF inv accepted(1-4,6,5) written_length]
    have "ss_announced (m', d') = (ss_announced (m, d))(port := None)"
      using accepted(6) inv by (simp add: fun_eq_iff storage_defs)
    moreover have "ss_contents (m, d) (dt_chunk_hash t) = None"
      using acc(2) by (simp add: storage_defs)
    ultimately show ?thesis
      using acc(1,3) w accepted(1) by (auto simp: s ss_announced_def)
  qed simp
next
  case (3 s data port e s')
  obtain m d m' d' where s: "s = (m, d)" "s' = (m', d')" by (cases s, cases s')
  from 3 s have inv: "ss_inv (m, d)"
    and st: "ShardStorageManager_store_chunk_for_known_peer now create_ok wr data port m d = (Inl e, m', d')"
    by simp_all
  from inv st show ?case
  proof (cases rule: store_chunk_cases)
    case (accepted t)
    then have "wr \<noteq> WriteOk" by auto
    then show ?thesis
      using ss_accepted(1,3) [OF inv accepted(1-4,6,5) written_length] by (simp add: s)
  qed (simp add: s inv)
next
  case (4 s h)
  then show ?case by (cases s) (auto simp: storage_defs)
next
  case (5 s h data)
  then show ?case
    by (cases s) (auto simp: ss_contents_def ShardStorageManager_read_chunk_def split: if_splits)
qed

section \<open>Expiry\<close>

lemma remove_files_ok:
  "remove_files ok ps d = (Inr u, d') \<Longrightarrow> d' = (\<lambda>p. if p \<in> set ps then None else d p)"
  by (induction ok ps d rule: remove_files.induct) (auto split: if_splits)

lemma remove_files_succeeds:
  "distinct ps \<Longrightarrow> \<forall>p \<in> set ps. d p \<noteq> None \<and> ok p \<Longrightarrow> \<exists>d'. remove_files ok ps d = (Inr (), d')"
proof (induction ps arbitrary: d)
  case (Cons p ps)
  have "\<exists>d'. remove_files ok ps (d(p := None)) = (Inr (), d')"
    by (rule Cons.IH) (use Cons.prems in auto)
  then show ?case using Cons.prems by simp
qed simp

lemma remove_files_missing:
  "p \<in> set ps \<Longrightarrow> d p = None \<Longrightarrow> \<exists>d'. remove_files ok ps d = (Inl ChunkDeletionFailed, d') \<and> d' p = None"
  by (induction ok ps d rule: remove_files.induct) auto

definition dead_chunks :: "time \<Rightarrow> shard_storage_manager \<Rightarrow> key list" where
  "dead_chunks now m =
     map fst (filter (\<lambda>e. older_than (ss_expire_time_s m) now (snd e)) (ss_owned_chunks m))"

lemma set_dead_chunks:
  assumes "wf_map (ss_owned_chunks m)"
  shows "h \<in> set (dead_chunks now m) \<longleftrightarrow>
    (\<exists>info. HashMap_get (ss_owned_chunks m) h = Some info \<and> older_than (ss_expire_time_s m) now info)"
  using HashMap_entries [OF assms, of h] by (force simp: dead_chunks_def)

lemma dead_chunks_distinct: "wf_map (ss_owned_chunks m) \<Longrightarrow> distinct (dead_chunks now m)"
  by (auto simp: wf_map_def dead_chunks_def distinct_map inj_on_def)

lemma remove_dead_chunks_eq:
  "ShardStorageManager_remove_dead_chunks now ok m d =
     (case remove_files ok (map (chunk_path m) (dead_chunks now m)) d of
        (Inl e, d') \<Rightarrow> (Inl e, m, d')
      | (Inr _, d') \<Rightarrow>
          (Inr (), m\<lparr>ss_owned_chunks := HashMap_retain (\<lambda>k. k \<notin> set (dead_chunks now m)) (ss_owned_chunks m)\<rparr>, d'))"
  unfolding ShardStorageManager_remove_dead_chunks_def dead_chunks_def Let_def by (rule refl)

lemma ss_inv_remove_dead:
  assumes inv: "ss_inv (m, d)"
    and r: "ShardStorageManager_remove_dead_chunks now ok m d = (Inr u, m', d')"
  shows "ss_inv (m', d')" and "ss_announced (m', d') = ss_announced (m, d)"
    and "ss_contents (m', d') h = (if h \<in> set (dead_chunks now m) then None else ss_contents (m, d) h)"
proof -
  let ?dead = "dead_chunks now m"
  from r have rm: "remove_files ok (map (chunk_path m) ?dead) d = (Inr (), d')"
    and m': "m' = m\<lparr>ss_owned_chunks := HashMap_retain (\<lambda>k. k \<notin> set ?dead) (ss_owned_chunks m)\<rparr>"
    by (auto simp: remove_dead_chunks_eq split: prod.splits sum.splits)
  have wf: "wf_map (ss_owned_chunks m)" using inv by (simp add: ss_inv_def)
  have d': "d' = (\<lambda>p. if p \<in> chunk_path m ` set ?dead then None else d p)"
    using remove_files_ok [OF rm] by simp
  have path: "chunk_path m' h = chunk_path m h" for h by (simp add: chunk_path_def m')
  have get: "HashMap_get (ss_owned_chunks m') h =
      (if h \<in> set ?dead then None else HashMap_get (ss_owned_chunks m) h)" for h
    by (simp add: m' HashMap_get_retain)
  have same: "d' (chunk_path m h) = d (chunk_path m h)"
    if "HashMap_get (ss_owned_chunks m) h \<noteq> None" "h \<notin> set ?dead" for h
  proof -
    have "wf_key k" if "k \<in> set ?dead" for k
      using that ss_inv_owned(1) [OF inv, of k] by (auto simp: set_dead_chunks [OF wf])
    then have "chunk_path m h \<notin> chunk_path m ` set ?dead"
      using that ss_inv_owned(1) [OF inv that(1)] chunk_path_inj by fastforce
    then show ?thesis by (simp add: d')
  qed
  have "HashMap_len (ss_owned_chunks m') \<le> HashMap_len (ss_owned_chunks m)"
    by (simp add: m' HashMap_len_def HashMap_retain_def)
  then show "ss_inv (m', d')"
    using inv same wf_map_retain [OF wf] by (auto simp: ss_inv_def path get) (auto simp: m')
  show "ss_announced (m', d') = ss_announced (m, d)" by (simp add: storage_defs m')
  show "ss_contents (m', d') h = (if h \<in> set ?dead then None else ss_contents (m, d) h)"
    using same [of h] by (auto simp: storage_defs path get)
qed

lemma ss_inv_update_time [inv_intros]:
  assumes "ss_inv (m, d)" "ShardStorageManager_update_chunk_upload_time now h m = (r, m')"
  shows "ss_inv (m', d)" and "ss_contents (m', d) = ss_contents (m, d)"
proof -
  have wf: "wf_map (ss_owned_chunks m)" using assms(1) by (simp add: ss_inv_def)
  consider "m' = m" | info info' where "HashMap_get (ss_owned_chunks m) h = Some info"
      "m' = m\<lparr>ss_owned_chunks := HashMap_put h info' (ss_owned_chunks m)\<rparr>"
    using assms(2) by (auto simp: ShardStorageManager_update_chunk_upload_time_def split: option.splits)
  then have "ss_inv (m', d) \<and> ss_contents (m', d) = ss_contents (m, d)"
  proof cases
    case 2
    have path: "chunk_path m' k = chunk_path m k" for k by (simp add: chunk_path_def 2)
    have len: "HashMap_len (ss_owned_chunks m') = HashMap_len (ss_owned_chunks m)"
      using hm.length_keys_put [OF wf, of h info'] by (simp add: 2 HashMap_len_keys)
    have get: "HashMap_get (ss_owned_chunks m') k \<noteq> None \<longleftrightarrow> HashMap_get (ss_owned_chunks m) k \<noteq> None" for k
      using wf by (simp add: 2)
    have "ss_inv (m', d)"
      using assms(1) wf len unfolding ss_inv_def prod.case get path by (simp add: 2)
    moreover have "ss_contents (m', d) = ss_contents (m, d)"
      using get by (simp add: fun_eq_iff storage_defs path)
    ultimately show ?thesis by simp
  qed (use assms(1) in simp)
  then show "ss_inv (m', d)" and "ss_contents (m', d) = ss_contents (m, d)" by simp_all
qed

section \<open>Properties\<close>

text \<open>
  A chunk uploaded on an announced port can be read back: when
  \<open>store_chunk_for_known_peer\<close> succeeds after \<open>add_active_tcp_connection\<close> registered hash \<open>h\<close>
  for the port, the manager owns \<open>h\<close>, \<open>read_chunk\<close> returns exactly the data received, every
  other stored chunk is unchanged, the storage invariant still holds, and a second upload on
  the same port is refused and changes no stored chunk.
\<close>

lemma storage_upload_then_read:
  assumes "ss_inv (m, d)" and "wf_key h"
    and "ShardStorageManager_add_active_tcp_connection port sender h m = (prev, m1)"
    and "ShardStorageManager_store_chunk_for_known_peer now create_ok wr data port m1 d = (Inr u, m2, d2)"
  shows "ShardStorageManager_is_chunk_already_stored h m2 \<and>
    ShardStorageManager_read_chunk True h m2 d2 = Inr data \<and>
    (\<forall>h'. h' \<noteq> h \<longrightarrow> ss_contents (m2, d2) h' = ss_contents (m, d) h') \<and> ss_inv (m2, d2) \<and>
    (\<forall>now' data'. \<exists>e m3 d3.
       ShardStorageManager_store_chunk_for_known_peer now' create_ok wr data' port m2 d2 = (Inl e, m3, d3) \<and>
       ss_contents (m3, d3) = ss_contents (m2, d2))"
proof (intro conjI allI)
  have inv1: "ss_inv (m1, d)" by (rule announce_laws(1) [OF assms(1-3)])
  show "ss_inv (m2, d2)" using ss.put_ok [OF inv1, of now create_ok wr data port] assms(4) by simp
  have up: "(\<lambda>(m, d). ShardStorageManager_is_chunk_already_stored h m) (m2, d2) \<and>
      (\<lambda>(m, d). ShardStorageManager_read_chunk True h m d) (m2, d2) = Inr data \<and>
      (\<forall>h'. h' \<noteq> h \<longrightarrow> ss_contents (m2, d2) h' = ss_contents (m, d) h')"
    by (rule ss.upload_then_read [OF assms(1,2), of now create_ok wr data port sender u])
      (use assms(3,4) in simp)
  then show "ShardStorageManager_is_chunk_already_stored h m2"
    "ShardStorageManager_read_chunk True h m2 d2 = Inr data"
    "\<And>h'. h' \<noteq> h \<longrightarrow> ss_contents (m2, d2) h' = ss_contents (m, d) h'" by auto
  fix now' data'
  have "ss_announced (m2, d2) port = None"
    using ss.put_ok [OF inv1, of now create_ok wr data port] assms(4) by auto
  then have "DataTransfersTable_get port (ss_data_transfers_table m2) = None"
    by (simp add: ss_announced_def)
  then show "\<exists>e m3 d3.
       ShardStorageManager_store_chunk_for_known_peer now' create_ok wr data' port m2 d2 = (Inl e, m3, d3) \<and>
       ss_contents (m3, d3) = ss_contents (m2, d2)"
    by (simp add: ShardStorageManager_store_chunk_for_known_peer_def)
qed

definition sample_key :: key where "sample_key = Key (replicate 20 0)"

definition sample_node :: node_info where
  "sample_node = \<lparr>ni_id = Key (replicate 20 1), ni_address = SocketAddrV4 1 9000\<rparr>"

lemma sample_key_wf: "wf_key sample_key" by (simp add: sample_key_def wf_key_def K_def)

lemmas storage_eval = ShardStorageManager_store_chunk_for_known_peer_def
  ShardStorageManager_add_active_tcp_connection_def ShardStorageManager_new_def
  DataTransfersTable_add_def DataTransfersTable_get_def DataTransfersTable_remove_def DataTransfersTable_new_def
  HashMap_new_def HashMap_get_def HashMap_insert_def HashMap_remove_def HashMap_put_def
  HashMap_delete_def HashMap_len_def Let_def

definition sample_announced :: shard_storage_manager where
  "sample_announced = snd (ShardStorageManager_add_active_tcp_connection 8080 sample_node sample_key
     (ShardStorageManager_new ''store''))"

lemma sample_announced_inv: "ss_inv (sample_announced, Map.empty)"
  using announce_laws(1) [OF ss_inv_new sample_key_wf] by (simp add: sample_announced_def prod_eq_iff)

definition sample_stored :: "(shard_storage_error + unit) \<times> shard_storage_manager \<times> disk" where
  "sample_stored = ShardStorageManager_store_chunk_for_known_peer 5 True WriteOk [1, 2] 8080
     sample_announced Map.empty"

lemma sample_stored_ok: "fst sample_stored = Inr ()"
  by (simp add: sample_stored_def sample_announced_def storage_eval const_defs)

lemma remove_dead_chunks_succeeds:
  assumes "ss_inv (m, d)" and "\<And>p. ok p"
  obtains m' d' where "ShardStorageManager_remove_dead_chunks now ok m d = (Inr (), m', d')"
    "remove_files ok (map (chunk_path m) (dead_chunks now m)) d = (Inr (), d')"
proof -
  have wf: "wf_map (ss_owned_chunks m)" using assms(1) by (simp add: ss_inv_def)
  have dead: "wf_key h" "d (chunk_path m h) \<noteq> None" if "h \<in> set (dead_chunks now m)" for h
    using that ss_inv_owned [OF assms(1), of h] by (auto simp: set_dead_chunks [OF wf])
  have "distinct (map (chunk_path m) (dead_chunks now m))"
    using dead_chunks_distinct [OF wf] dead by (auto simp: distinct_map inj_on_def chunk_path_inj)
  then obtain d' where "remove_files ok (map (chunk_path m) (dead_chunks now m)) d = (Inr (), d')"
    using remove_files_succeeds [of "map (chunk_path m) (dead_chunks now m)" d ok] assms(2) dead by auto
  then show thesis by (intro that) (simp_all add: remove_dead_chunks_eq)
qed

text \<open>
  Claim C20. Expiry: from a state that satisfies the storage invariant, when every file can be
  deleted, \<open>remove_dead_chunks\<close> succeeds; it then has removed exactly the chunks whose age has
  reached the expiry time, from the table and from the disk, keeps the contents of every other
  chunk and the pending transfers, and the invariant holds again.
\<close>

theorem storage_expiry:
  assumes "ss_inv (m, d)" and "\<And>p. ok p"
  shows "\<exists>m' d'. ShardStorageManager_remove_dead_chunks now ok m d = (Inr (), m', d') \<and> ss_inv (m', d') \<and>
    ss_announced (m', d') = ss_announced (m, d) \<and>
    (\<forall>h. ss_contents (m', d') h =
       (if \<exists>info. HashMap_get (ss_owned_chunks m) h = Some info \<and> older_than (ss_expire_time_s m) now info
        then None else ss_contents (m, d) h)) \<and>
    (\<forall>h info. HashMap_get (ss_owned_chunks m) h = Some info \<and> older_than (ss_expire_time_s m) now info \<longrightarrow>
       d' (chunk_path m h) = None)"
proof -
  have wf: "wf_map (ss_owned_chunks m)" using assms(1) by (simp add: ss_inv_def)
  obtain m' d' where r: "ShardStorageManager_remove_dead_chunks now ok m d = (Inr (), m', d')"
    and rm: "remove_files ok (map (chunk_path m) (dead_chunks now m)) d = (Inr (), d')"
    using remove_dead_chunks_succeeds [OF assms] .
  show ?thesis
    using r ss_inv_remove_dead [OF assms(1) r] remove_files_ok [OF rm]
    by (intro exI [of _ m'] exI [of _ d']) (auto simp: set_dead_chunks [OF wf])
qed

theorem storage_expiry_witness:
  "\<exists>m' d'. ShardStorageManager_remove_dead_chunks (5 + 10 ^ 9 * 86410) (\<lambda>_. True)
     (fst (snd sample_stored)) (snd (snd sample_stored)) = (Inr (), m', d') \<and>
     ss_inv (m', d')"
proof -
  have "ss_inv (fst (snd sample_stored), snd (snd sample_stored))"
    using ss.put_ok [OF sample_announced_inv, of 5 True WriteOk "[1, 2]" 8080 "()" "snd sample_stored"] sample_stored_ok
    by (simp add: sample_stored_def prod_eq_iff)
  from storage_expiry [OF this, of "\<lambda>_. True"] show ?thesis by blast
qed

text \<open>
  Claim C36. A failed clean-up cannot be repeated with success: once the file of an owned, expired
  chunk is gone (as after a call of \<open>remove_dead_chunks\<close> that deleted it and then failed on
  another file), every later call fails with \<open>ChunkDeletionFailed\<close> and leaves every entry in the
  table, whatever the clock and the file system do.
\<close>

theorem remove_dead_chunks_stuck:
  assumes "wf_map (ss_owned_chunks m)" and "HashMap_get (ss_owned_chunks m) h = Some info"
    and "older_than (ss_expire_time_s m) now info" and "d (chunk_path m h) = None" and "now \<le> now'"
  shows "\<exists>d'. ShardStorageManager_remove_dead_chunks now' ok m d = (Inl ChunkDeletionFailed, m, d') \<and>
    d' (chunk_path m h) = None"
proof -
  have "older_than (ss_expire_time_s m) now' info" using assms(3,5) by (simp add: older_than_def)
  then have "h \<in> set (dead_chunks now' m)" using assms(2) by (auto simp: set_dead_chunks [OF assms(1)])
  then have "\<exists>d'. remove_files ok (map (chunk_path m) (dead_chunks now' m)) d = (Inl ChunkDeletionFailed, d')
      \<and> d' (chunk_path m h) = None"
    using assms(4) by (intro remove_files_missing) auto
  then show ?thesis by (auto simp: remove_dead_chunks_eq)
qed

definition sample_half_removed :: shard_storage_manager where
  "sample_half_removed = (ShardStorageManager_new ''store'')\<lparr>ss_owned_chunks := [(sample_key, \<lparr>sc_time_stored_at = 0\<rparr>)]\<rparr>"

theorem remove_dead_chunks_stuck_witness:
  "\<exists>d'. ShardStorageManager_remove_dead_chunks (10 ^ 9 * 90000) (\<lambda>_. True) sample_half_removed Map.empty =
     (Inl ChunkDeletionFailed, sample_half_removed, d')"
proof -
  have "\<exists>d'. ShardStorageManager_remove_dead_chunks (10 ^ 9 * 90000) (\<lambda>_. True) sample_half_removed Map.empty =
     (Inl ChunkDeletionFailed, sample_half_removed, d') \<and> d' (chunk_path sample_half_removed sample_key) = None"
    by (rule remove_dead_chunks_stuck [where info = "\<lparr>sc_time_stored_at = 0\<rparr>" and now = "10 ^ 9 * 90000"])
      (simp_all add: sample_half_removed_def ShardStorageManager_new_def wf_map_def HashMap_get_def
        older_than_def const_defs)
  then show ?thesis by blast
qed

text \<open>
  Claim C37. A failed write leaves a hash that can never be stored: when \<open>write_all\<close> fails after
  the file was created, the chunk is not owned (it will never expire nor be offered), the
  partial file remains, and every later upload announced under the same hash is refused.
\<close>

theorem failed_write_blocks_hash:
  assumes "ss_inv (m, d)" and "DataTransfersTable_get port (ss_data_transfers_table m) = Some t"
    and "ShardStorageManager_store_chunk_for_known_peer now True (WriteFailed n) data port m d =
      (Inl IoError, m', d')"
  shows "\<not> ShardStorageManager_is_chunk_already_stored (dt_chunk_hash t) m' \<and>
    ShardStorageManager_read_chunk True (dt_chunk_hash t) m' d' = Inr (take n data) \<and>
    (\<forall>port' sender now' create_ok wr data'. \<exists>e.
       ShardStorageManager_store_chunk_for_known_peer now' create_ok wr data' port'
         (snd (ShardStorageManager_add_active_tcp_connection port' sender (dt_chunk_hash t) m')) d' =
       (Inl e, snd (ShardStorageManager_add_active_tcp_connection port' sender (dt_chunk_hash t) m'), d'))"
proof -
  let ?h = "dt_chunk_hash t"
  have wfm: "wf_map (ss_data_transfers_table m)" "wf_key ?h"
    using assms(1,2) by (auto simp: ss_inv_def DataTransfersTable_get_def)
  have acc: "m' = m\<lparr>ss_data_transfers_table := HashMap_delete port (ss_data_transfers_table m)\<rparr>"
    "d' = d(chunk_path m ?h \<mapsto> take n data)" "HashMap_get (ss_owned_chunks m) ?h = None"
    using assms ss_inv_unowned [OF assms(1), of ?h]
    by (auto simp: ShardStorageManager_store_chunk_for_known_peer_def Let_def DataTransfersTable_remove_def
        hash_map_defs split: if_splits)
  have path: "chunk_path m' ?h = chunk_path m ?h" by (simp add: chunk_path_def acc(1))
  have refused: "\<exists>e. ShardStorageManager_store_chunk_for_known_peer now' create_ok wr data' port' m'' d' = (Inl e, m'', d')"
    if "m'' = snd (ShardStorageManager_add_active_tcp_connection port' sender ?h m')"
    for port' sender now' create_ok wr data' m''
  proof -
    have t: "DataTransfersTable_get port' (ss_data_transfers_table m'') = Some \<lparr>dt_sender = sender, dt_chunk_hash = ?h\<rparr>"
      using that wfm by (simp add: ShardStorageManager_add_active_tcp_connection_def storage_defs Let_def acc(1))
    moreover have "d' (chunk_path m'' ?h) = Some (take n data)"
      using that by (simp add: ShardStorageManager_add_active_tcp_connection_def Let_def chunk_path_def acc(1,2) split: prod.splits)
    ultimately show ?thesis
      by (simp add: ShardStorageManager_store_chunk_for_known_peer_def Let_def)
  qed
  have "\<not> ShardStorageManager_is_chunk_already_stored ?h m'" using acc(1,3) by (simp add: storage_defs)
  moreover have "ShardStorageManager_read_chunk True ?h m' d' = Inr (take n data)"
    by (simp add: ShardStorageManager_read_chunk_def path acc(2))
  ultimately show ?thesis using refused by blast
qed

definition sample_failed :: "(shard_storage_error + unit) \<times> shard_storage_manager \<times> disk" where
  "sample_failed = ShardStorageManager_store_chunk_for_known_peer 5 True (WriteFailed 1) [1, 2] 8080
     sample_announced Map.empty"

theorem failed_write_blocks_hash_witness:
  "ShardStorageManager_read_chunk True sample_key (fst (snd sample_failed)) (snd (snd sample_failed)) = Inr [1]"
proof -
  have t: "DataTransfersTable_get 8080 (ss_data_transfers_table sample_announced) =
      Some \<lparr>dt_sender = sample_node, dt_chunk_hash = sample_key\<rparr>"
    by (simp add: sample_announced_def storage_eval)
  have "fst sample_failed = Inl IoError"
    by (simp add: sample_failed_def sample_announced_def storage_eval const_defs)
  then have "ShardStorageManager_store_chunk_for_known_peer 5 True (WriteFailed 1) [1, 2] 8080 sample_announced Map.empty =
      (Inl IoError, fst (snd sample_failed), snd (snd sample_failed))"
    by (simp add: sample_failed_def prod_eq_iff)
  from failed_write_blocks_hash [OF sample_announced_inv t this] show ?thesis by simp
qed

text \<open>
  Claim C32. The limit on stored data has no effect: \<open>total_stored_kb\<close> stays zero, so in every
  state that satisfies the invariant \<open>store_chunk_for_known_peer\<close> never reports
  \<open>StorageMemoryExceeded\<close>; the limit on the number of chunks holds after every call.
\<close>

theorem storage_limits:
  assumes "ss_inv (m, d)"
    and "ShardStorageManager_store_chunk_for_known_peer now create_ok wr data port m d = (r, m', d')"
  shows "r \<noteq> Inl StorageMemoryExceeded \<and> ss_total_stored_kb m' = 0 \<and>
    HashMap_len (ss_owned_chunks m') \<le> MAX_SHARDS_STORED"
proof -
  have "ss_inv (m', d')"
  proof (cases r)
    case (Inl e)
    then show ?thesis using ss.put_failed [OF assms(1), of now create_ok wr data port e "(m', d')"] assms(2) by simp
  next
    case (Inr u)
    then show ?thesis using ss.put_ok [OF assms(1), of now create_ok wr data port u "(m', d')"] assms(2) by simp
  qed
  moreover have "r \<noteq> Inl StorageMemoryExceeded"
    using memory_check_passes [of m data] assms
    by (auto simp: ShardStorageManager_store_chunk_for_known_peer_def Let_def ss_inv_def
        split: option.splits if_splits)
  ultimately show ?thesis by (simp add: ss_inv_def)
qed

theorem storage_limits_witness: "HashMap_len (ss_owned_chunks (fst (snd sample_failed))) \<le> 1024"
proof -
  have "ShardStorageManager_store_chunk_for_known_peer 5 True (WriteFailed 1) [1, 2] 8080 sample_announced Map.empty =
      (fst sample_failed, fst (snd sample_failed), snd (snd sample_failed))"
    by (simp add: sample_failed_def)
  from storage_limits [OF sample_announced_inv this] show ?thesis by (simp add: MAX_SHARDS_STORED_def)
qed

end
