(* ===== verification/Tcp_Listener.thy ===== *)
theory Tcp_Listener
  imports Messages
begin

text \<open>
  \<open>networking/tcp_listener.rs\<close>: a listener on a port chosen by the system, used for one transfer.
  The socket calls of \<open>tokio\<close> are parameters of the environment: binding, asking for the local
  port, accepting a connection within a timeout and reading a stream to its end. Listeners and
  streams are named by numbers.
\<close>

section \<open>Definitions\<close>

definition LOCALHOST :: string where "LOCALHOST = ''127.0.0.1:0''"

datatype accept_result = Accepted nat | AcceptFailed | AcceptTimedOut

record 'w tcp = "'w env" +
  tcp_bind :: "string \<Rightarrow> 'w \<Rightarrow> nat option \<times> 'w"
  tcp_local_port :: "nat \<Rightarrow> 'w \<Rightarrow> u16 option \<times> 'w"
  tcp_accept :: "nat \<Rightarrow> nat \<Rightarrow> 'w \<Rightarrow> accept_result \<times> 'w"
  tcp_read_to_end :: "nat \<Rightarrow> 'w \<Rightarrow> bytes option \<times> 'w"

datatype tcp_listener_error = BindFailed | LocalAddrFailed | AcceptTimeout | AcceptError | ReadFailed

record tcp_listener_service =
  tl_listener :: nat
  tl_port :: u16

definition TcpListenerService_new ::
  "('w, 'z) tcp_scheme \<Rightarrow> 'w \<Rightarrow> (tcp_listener_error + tcp_listener_service) \<times> 'w" where
  "TcpListenerService_new env w =
     (case tcp_bind env LOCALHOST w of
        (None, w1) \<Rightarrow> (Inl BindFailed, w1)
      | (Some tcp_listener, w1) \<Rightarrow>
          (case tcp_local_port env tcp_listener w1 of
             (None, w2) \<Rightarrow> (Inl LocalAddrFailed, w2)
           | (Some port, w2) \<Rightarrow> (Inr \<lparr>tl_listener = tcp_listener, tl_port = port\<rparr>, w2)))"

definition TcpListenerService_get_port :: "tcp_listener_service \<Rightarrow> u16" where
  "TcpListenerService_get_port s = tl_port s"

text \<open>The timeout of \<open>accept\<close>, in milliseconds, is \<open>Duration::from_secs\<close> of the constant.\<close>

definition TcpListenerService_receive_data ::
  "('w, 'z) tcp_scheme \<Rightarrow> tcp_listener_service \<Rightarrow> 'w \<Rightarrow> (tcp_listener_error + bytes) \<times> 'w" where
  "TcpListenerService_receive_data env s w =
     (case tcp_accept env (tl_listener s) (TCP_TIMEOUT_MILLISECONDS * 1000) w of
        (AcceptTimedOut, w1) \<Rightarrow> (Inl AcceptTimeout, w1)
      | (AcceptFailed, w1) \<Rightarrow> (Inl AcceptError, w1)
      | (Accepted stream, w1) \<Rightarrow>
          (case tcp_read_to_end env stream w1 of
             (None, w2) \<Rightarrow> (Inl ReadFailed, w2)
           | (Some data, w2) \<Rightarrow> (Inr data, w2)))"

section \<open>Facts\<close>

lemma receive_data_Inr_iff:
  "TcpListenerService_receive_data env s w = (Inr data, w') \<longleftrightarrow>
     (\<exists>stream w1. tcp_accept env (tl_listener s) (TCP_TIMEOUT_MILLISECONDS * 1000) w = (Accepted stream, w1) \<and>
        tcp_read_to_end env stream w1 = (Some data, w'))"
  by (auto simp: TcpListenerService_receive_data_def split: prod.splits accept_result.splits option.splits)

end
