(* ===== verification/Node.thy ===== *)
theory Node
  imports Routing_Table Lookup Request_Map Storage Tcp_Listener
begin

text \<open>
  \<open>core/node.rs\<close>, first part: the state of a node, requests and their responses, ping, joining
  a network and the iterative lookups. Each operation takes the node and the state of the
  outside world and returns both. The tasks of a \<open>join_all\<close> run in the order of the list: they
  share only the request map, under distinct request identifiers (\<open>Request_Map\<close> covers their
  interleavings). The write lock on the routing table is not reentrant: \<open>Blocked\<close> is an await
  that never completes.
\<close>

section \<open>State\<close>

record node =
  nd_key :: key
  nd_address :: socket_addr
  nd_routing_table :: routing_table
  nd_request_map :: "request_id request_map"
  nd_file_manager :: file_manager
  nd_storage :: shard_storage_manager
  nd_disk :: disk

text \<open>
  What the node uses of the outside world besides messages and listeners: the clock,
  outgoing TCP transfers, the outcomes of disk accesses, the cipher, the digest and the randomness of the uploader.
\<close>

datatype tcp_error = ConnectFailed | TcpWriteFailed

record 'w net = "'w tcp" +
  net_now :: "'w \<Rightarrow> time \<times> 'w"
  net_read_ok :: "'w \<Rightarrow> bool \<times> 'w"
  net_create_ok :: "'w \<Rightarrow> bool \<times> 'w"
  net_write :: "'w \<Rightarrow> write_outcome \<times> 'w"
  net_tcp_send :: "ip_addr \<Rightarrow> u16 \<Rightarrow> bytes \<Rightarrow> 'w \<Rightarrow> (tcp_error + unit) \<times> 'w"
  net_chunk_input :: "'w \<Rightarrow> chunk_input \<times> 'w"
  net_gen_key :: "'w \<Rightarrow> bytes \<times> 'w"
  net_aead :: aead
  net_digest :: "bytes \<Rightarrow> bytes"

text \<open>\<open>Node::new\<close> after the sockets are bound: \<open>addr\<close> is the resolved address.\<close>

definition Node_new :: "time \<Rightarrow> key \<Rightarrow> socket_addr \<Rightarrow> string \<Rightarrow> disk \<Rightarrow> node" where
  "Node_new now k addr storage_path d =
     \<lparr>nd_key = k, nd_address = addr, nd_routing_table = RoutingTable_new now k,
      nd_request_map = RequestMap_new, nd_file_manager = FileManager_new,
      nd_storage = ShardStorageManager_new storage_path, nd_disk = d\<rparr>"

definition Node_to_node_info :: "node \<Rightarrow> node_info" where
  "Node_to_node_info nd = NodeInfo_new (nd_key nd) (nd_address nd)"

definition Node_get_routing_table_content :: "node \<Rightarrow> node_info list" where
  "Node_get_routing_table_content nd = RoutingTable_get_all_nodeinfos (nd_routing_table nd)"

definition Node_get_owned_chunk_keys :: "node \<Rightarrow> key list" where
  "Node_get_owned_chunk_keys nd = ShardStorageManager_get_owned_chunk_keys (nd_storage nd)"

section \<open>Requests\<close>

text \<open>
  When a response is delivered, a receive worker has taken the request out of the map
  (\<open>RequestMap_handle_response\<close>).
\<close>

definition Node_send_request_and_wait ::
  "('w, 'z) net_scheme \<Rightarrow> request \<Rightarrow> nat \<Rightarrow> node \<Rightarrow> 'w \<Rightarrow> (node_error + response) \<times> node \<times> 'w" where
  "Node_send_request_and_wait env request timeout nd w =
     (let rid = rq_request_id request;
          map1 = RequestMap_add_request rid rid (nd_request_map nd)
      in case MessageDispatcher_send_request env request w of
           (Inl _, w1) \<Rightarrow>
             (Inl UnableToSend, nd\<lparr>nd_request_map := RequestMap_remove_request rid map1\<rparr>, w1)
         | (Inr _, w1) \<Rightarrow>
             (case env_await env rid timeout w1 of
                (Delivered response, w2) \<Rightarrow>
                  (Inr response, nd\<lparr>nd_request_map := snd (RequestMap_handle_response response map1)\<rparr>, w2)
              | (ChannelClosed, w2) \<Rightarrow> (Inl BadResponse, nd\<lparr>nd_request_map := map1\<rparr>, w2)
              | (TimedOut, w2) \<Rightarrow>
                  (Inl ResponseTimeout, nd\<lparr>nd_request_map := RequestMap_remove_request rid map1\<rparr>, w2)))"

text \<open>
  \<open>ping\<close> acquires the read lock of the routing table first; \<open>write_held\<close> says that the task
  already holds the write lock.
\<close>

definition Node_ping ::
  "('w, 'z) net_scheme \<Rightarrow> bool \<Rightarrow> key \<Rightarrow> node \<Rightarrow> 'w \<Rightarrow> ((node_error + response) \<times> node \<times> 'w) run" where
  "Node_ping env write_held node_id nd w =
     (if write_held then Blocked
      else bind_run (RoutingTable_get_nodeinfo (nd_routing_table nd) node_id) (\<lambda>r.
        case r of
          Inl e \<Rightarrow> Ret (Inl (RoutingTableFailed e), nd, w)
        | Inr None \<Rightarrow> Ret (Inl PingMissingNode, nd, w)
        | Inr (Some receiver_info) \<Rightarrow>
            let (request, w1) = Request_new env Ping (Node_to_node_info nd) receiver_info w
            in Ret (Node_send_request_and_wait env request BASIC_REQUEST_TIMEOUT_MILLISECONDS nd w1)))"

text \<open>The ping a bucket performs: \<open>store_nodeinfo\<close> is called with the write lock held.\<close>

definition locked_ping :: "('w, 'z) net_scheme \<Rightarrow> node \<Rightarrow> 'w pinger" where
  "locked_ping env nd = (\<lambda>k w. bind_run (Node_ping env True k nd w) (\<lambda>(r, nd', w'). Ret (r, w')))"

definition Node_store_nodeinfo ::
  "('w, 'z) net_scheme \<Rightarrow> node_info \<Rightarrow> node \<Rightarrow> 'w \<Rightarrow> ((routing_table_error + unit) \<times> node \<times> 'w) run" where
  "Node_store_nodeinfo env n nd w =
     bind_run (RoutingTable_store_nodeinfo (locked_ping env nd) n (nd_routing_table nd) w) (\<lambda>(r, rt, w').
       Ret (r, nd\<lparr>nd_routing_table := rt\<rparr>, w'))"

section \<open>Lookups\<close>

definition Node_single_lookup ::
  "('w, 'z) net_scheme \<Rightarrow> key \<Rightarrow> node_info \<Rightarrow> bool \<Rightarrow> node \<Rightarrow> 'w \<Rightarrow> lookup_response \<times> node \<times> 'w" where
  "Node_single_lookup env target resolver for_value nd w =
     (let request_type = (if for_value then FindValue target else FindNode target);
          (request, w1) = Request_new env request_type (Node_to_node_info nd) resolver w;
          (r, nd2, w2) = Node_send_request_and_wait env request LOOKUP_TIMEOUT_MILLISECONDS nd w1
      in (case r of
            Inr response \<Rightarrow>
              (case rs_response_type response of
                 Nodes nodes \<Rightarrow> LookupResponse_new_nodes_successful resolver nodes
               | HasValue _ \<Rightarrow>
                   if for_value then LookupResponse_new_value_successful resolver
                   else LookupResponse_new_failed resolver
               | _ \<Rightarrow> LookupResponse_new_failed resolver)
          | Inl _ \<Rightarrow> LookupResponse_new_failed resolver, nd2, w2))"

text \<open>\<open>join_all\<close> over a list of tasks.\<close>

fun join_all :: "('a \<Rightarrow> 's \<Rightarrow> 'b \<times> 's) \<Rightarrow> 'a list \<Rightarrow> 's \<Rightarrow> 'b list \<times> 's" where
  "join_all f [] s = ([], s)"
| "join_all f (x # xs) s =
     (let (y, s1) = f x s; (ys, s2) = join_all f xs s1 in (y # ys, s2))"

definition Node_lookup_round ::
  "('w, 'z) net_scheme \<Rightarrow> key \<Rightarrow> bool \<Rightarrow> node_info list \<Rightarrow> node \<times> 'w \<Rightarrow> lookup_response list \<times> node \<times> 'w" where
  "Node_lookup_round env target for_value resolvers s =
     (if resolvers = [] then ([], s)
      else join_all (\<lambda>resolver (nd, w). Node_single_lookup env target resolver for_value nd w) resolvers s)"

text \<open>The loop over rounds of \<open>join_network\<close>, \<open>find_node\<close> and \<open>find_storer\<close>.\<close>

definition Node_lookup_loop ::
  "('w, 'z) net_scheme \<Rightarrow> key \<Rightarrow> bool \<Rightarrow> lookup_buffer \<Rightarrow> node \<times> 'w \<Rightarrow>
     (lookup_response list \<times> lookup_buffer \<times> node \<times> 'w) option" where
  "Node_lookup_loop env target for_value buffer s =
     lookup_rounds LookupBuffer_get_alpha_unqueried_nodes
       (\<lambda>responses. LookupBuffer_record_lookup_round_responses responses for_value)
       (Node_lookup_round env target for_value) [] buffer s"

text \<open>The last round on the unqueried contacts of the result, and its recording.\<close>

definition Node_last_round ::
  "('w, 'z) net_scheme \<Rightarrow> key \<Rightarrow> lookup_buffer \<Rightarrow> node \<times> 'w \<Rightarrow> lookup_buffer \<times> node \<times> 'w" where
  "Node_last_round env target buffer s =
     (let (responses, s1) =
            Node_lookup_round env target False (LookupBuffer_get_unqueried_resulting_nodes buffer) s;
          (_, buffer1) = LookupBuffer_record_lookup_round_responses responses False buffer
      in (buffer1, s1))"

datatype node_op_error =
    StoreBeaconFailed routing_table_error
  | BeaconUnavailable node_error
  | BeaconDidNotRespond
  | StoreResponsiveFailed routing_table_error
  | ClosestFailed routing_table_error
  | NoInitialResolvers
  | StorerNotFound key

text \<open>The write-locked loops over the responsive contacts.\<close>

fun store_all_or_fail ::
  "('w, 'z) net_scheme \<Rightarrow> node_info list \<Rightarrow> node \<Rightarrow> 'w \<Rightarrow> ((routing_table_error + unit) \<times> node \<times> 'w) run" where
  "store_all_or_fail env [] nd w = Ret (Inr (), nd, w)"
| "store_all_or_fail env (n # ns) nd w =
     bind_run (Node_store_nodeinfo env n nd w) (\<lambda>(r, nd1, w1).
       case r of Inl e \<Rightarrow> Ret (Inl e, nd1, w1) | Inr _ \<Rightarrow> store_all_or_fail env ns nd1 w1)"

fun store_all_and_warn ::
  "('w, 'z) net_scheme \<Rightarrow> node_info list \<Rightarrow> node \<Rightarrow> 'w \<Rightarrow> (node \<times> 'w) run" where
  "store_all_and_warn env [] nd w = Ret (nd, w)"
| "store_all_and_warn env (n # ns) nd w =
     bind_run (Node_store_nodeinfo env n nd w) (\<lambda>(r, nd1, w1). store_all_and_warn env ns nd1 w1)"

definition Node_join_network ::
  "('w, 'z) net_scheme \<Rightarrow> node_info \<Rightarrow> node \<Rightarrow> 'w \<Rightarrow> ((node_op_error + node_info list) \<times> node \<times> 'w) run" where
  "Node_join_network env beacon_node nd0 w0 =
     bind_run (Node_store_nodeinfo env beacon_node nd0 w0) (\<lambda>(r1, nd1, w1).
       case r1 of
         Inl e \<Rightarrow> Ret (Inl (StoreBeaconFailed e), nd1, w1)
       | Inr _ \<Rightarrow>
           bind_run (Node_ping env False (ni_id beacon_node) nd1 w1) (\<lambda>(r2, nd2, w2).
             case r2 of
               Inl e \<Rightarrow> Ret (Inl (BeaconUnavailable e), nd2, w2)
             | Inr _ \<Rightarrow>
                 let (lr, nd3, w3) = Node_single_lookup env (nd_key nd2) beacon_node False nd2 w2;
                     initial_k_closest = lr_k_closest lr
                 in if initial_k_closest = [] then Ret (Inl BeaconDidNotRespond, nd3, w3)
                    else let me = Node_to_node_info nd3;
                             buffer = LookupBuffer_new (nd_key nd3) (filter (\<lambda>n. n \<noteq> me) initial_k_closest) me
                         in case Node_lookup_loop env (nd_key nd3) False buffer (nd3, w3) of
                              None \<Rightarrow> Blocked
                            | Some (_, buffer4, s4) \<Rightarrow>
                                let (buffer5, nd5, w5) = Node_last_round env (nd_key nd3) buffer4 s4
                                in bind_run (store_all_or_fail env (LookupBuffer_get_responsive_nodes buffer5) nd5 w5)
                                     (\<lambda>(r6, nd6, w6). case r6 of
                                        Inl e \<Rightarrow> Ret (Inl (StoreResponsiveFailed e), nd6, w6)
                                      | Inr _ \<Rightarrow> Ret (Inr (LookupBuffer_get_resulting_vector buffer5), nd6, w6))))"

definition Node_find_node ::
  "('w, 'z) net_scheme \<Rightarrow> key \<Rightarrow> node \<Rightarrow> 'w \<Rightarrow> ((node_op_error + node_info list) \<times> node \<times> 'w) run" where
  "Node_find_node env target nd0 w0 =
     (let (now, w1) = net_now env w0 in
      bind_run (RoutingTable_lookup_get_alpha_closest now (nd_routing_table nd0) target) (\<lambda>(r1, rt).
        let nd1 = nd0\<lparr>nd_routing_table := rt\<rparr> in
        case r1 of
          Inl e \<Rightarrow> Ret (Inl (ClosestFailed e), nd1, w1)
        | Inr initial_resolvers \<Rightarrow>
            if initial_resolvers = [] then Ret (Inl NoInitialResolvers, nd1, w1)
            else let buffer = LookupBuffer_new target initial_resolvers (Node_to_node_info nd1)
                 in case Node_lookup_loop env target False buffer (nd1, w1) of
                      None \<Rightarrow> Blocked
                    | Some (_, buffer2, s2) \<Rightarrow>
                        let (buffer3, nd3, w3) = Node_last_round env target buffer2 s2
                        in bind_run (store_all_and_warn env (LookupBuffer_get_responsive_nodes buffer3) nd3 w3)
                             (\<lambda>(nd4, w4). Ret (Inr (LookupBuffer_get_resulting_vector buffer3), nd4, w4))))"

definition is_value_response :: "lookup_response \<Rightarrow> bool" where
  "is_value_response r \<longleftrightarrow> lr_success_type r = Some LookupValue"

definition Node_find_storer ::
  "('w, 'z) net_scheme \<Rightarrow> key \<Rightarrow> node \<Rightarrow> 'w \<Rightarrow> ((node_op_error + node_info) \<times> node \<times> 'w) run" where
  "Node_find_storer env target nd0 w0 =
     (let (read_ok, w1) = net_read_ok env w0 in
      case ShardStorageManager_read_chunk read_ok target (nd_storage nd0) (nd_disk nd0) of
        Inr _ \<Rightarrow> Ret (Inr (Node_to_node_info nd0), nd0, w1)
      | Inl _ \<Rightarrow>
          bind_run (RoutingTable_get_alpha_closest (nd_routing_table nd0) target) (\<lambda>r1.
            case r1 of
              Inl e \<Rightarrow> Ret (Inl (ClosestFailed e), nd0, w1)
            | Inr initial_resolvers \<Rightarrow>
                if initial_resolvers = [] then Ret (Inl NoInitialResolvers, nd0, w1)
                else let buffer = LookupBuffer_new target initial_resolvers (Node_to_node_info nd0)
                     in case Node_lookup_loop env target True buffer (nd0, w1) of
                          None \<Rightarrow> Blocked
                        | Some (current_responses, buffer2, nd2, w2) \<Rightarrow>
                            (case find is_value_response current_responses of
                               Some r \<Rightarrow> Ret (Inr (lr_resolver r), nd2, w2)
                             | None \<Rightarrow>
                                 let remaining = LookupBuffer_get_unqueried_resulting_nodes buffer2
                                 in if remaining = [] then Ret (Inl (StorerNotFound target), nd2, w2)
                                    else let (remaining_responses, nd3, w3) =
                                               Node_lookup_round env target True remaining (nd2, w2)
                                         in case find is_value_response remaining_responses of
                                              Some r \<Rightarrow> Ret (Inr (lr_resolver r), nd3, w3)
                                            | None \<Rightarrow> Ret (Inl (StorerNotFound target), nd3, w3))))"

section \<open>What the message layer promises\<close>

text \<open>
  A delivered response carries the identifier of the request and well-formed contacts (a
  deserialised key has 20 bytes), and no channel is closed without a response: the outcome of
  the protocol of \<open>Request_Map\<close>.
\<close>

definition response_wf :: "response \<Rightarrow> bool" where
  "response_wf r \<longleftrightarrow> wf_node (rs_sender r) \<and>
     (case rs_response_type r of Nodes ns \<Rightarrow> \<forall>n \<in> set ns. wf_node n | _ \<Rightarrow> True)"

definition await_ok :: "('w, 'z) net_scheme \<Rightarrow> bool" where
  "await_ok env \<longleftrightarrow> (\<forall>rid t w r w'. env_await env rid t w = (r, w') \<longrightarrow>
     r \<noteq> ChannelClosed \<and> (\<forall>resp. r = Delivered resp \<longrightarrow> rs_request_id resp = rid \<and> response_wf resp))"

text \<open>The invariant of a node between two operations: no request is pending.\<close>

definition nd_inv :: "node \<Rightarrow> bool" where
  "nd_inv nd \<longleftrightarrow> rt_inv (nd_routing_table nd) \<and> rt_id (nd_routing_table nd) = nd_key nd \<and>
     wf_map (nd_request_map nd) \<and> (\<forall>rid. HashMap_get (nd_request_map nd) rid = None) \<and>
     ss_inv (nd_storage nd, nd_disk nd)"

definition same_but_map :: "node \<Rightarrow> node \<Rightarrow> bool" where
  "same_but_map nd nd' \<longleftrightarrow> (\<exists>m. nd' = nd\<lparr>nd_request_map := m\<rparr>)"

lemma nd_inv_new [inv_intros]: "wf_key k \<Longrightarrow> nd_inv (Node_new now k addr path d)"
  using rt_inv_new ss_inv_new
  by (simp add: nd_inv_def Node_new_def RequestMap_new_def) (simp add: RoutingTable_new_def)

lemma nd_inv_wf: "nd_inv nd \<Longrightarrow> wf_key (nd_key nd)"
  by (auto simp: nd_inv_def rt_inv_def)

lemma same_but_map_refl [simp]: "same_but_map nd nd"
  by (auto simp: same_but_map_def intro: exI [of _ "nd_request_map nd"])

lemma same_but_map_trans: "same_but_map a b \<Longrightarrow> same_but_map b c \<Longrightarrow> same_but_map a c"
  by (auto simp: same_but_map_def)

lemma same_but_map_simps:
  assumes "same_but_map nd nd'"
  shows "nd_key nd' = nd_key nd" "nd_address nd' = nd_address nd" "nd_routing_table nd' = nd_routing_table nd"
    "nd_storage nd' = nd_storage nd" "nd_disk nd' = nd_disk nd" "nd_file_manager nd' = nd_file_manager nd"
    "Node_to_node_info nd' = Node_to_node_info nd"
  using assms by (auto simp: same_but_map_def Node_to_node_info_def)

lemma send_request_response:
  assumes "Node_send_request_and_wait env req t nd w = (r, nd', w')" and "await_ok env"
  shows "r \<noteq> Inl BadResponse"
    and "r = Inr resp \<Longrightarrow> rs_request_id resp = rq_request_id req \<and> response_wf resp"
proof -
  let ?rid = "rq_request_id req"
  obtain sr w1 where s: "MessageDispatcher_send_request env req w = (sr, w1)"
    by (cases "MessageDispatcher_send_request env req w")
  obtain ar w2 where a: "env_await env ?rid t w1 = (ar, w2)" by (cases "env_await env ?rid t w1")
  have aw: "ar \<noteq> ChannelClosed" "ar = Delivered resp \<Longrightarrow> rs_request_id resp = ?rid \<and> response_wf resp" for resp
    using assms(2) a unfolding await_ok_def by blast+
  show "r \<noteq> Inl BadResponse"
    using assms(1) s a aw by (cases sr; cases ar) (auto simp: Node_send_request_and_wait_def Let_def)
  show "r = Inr resp \<Longrightarrow> rs_request_id resp = ?rid \<and> response_wf resp"
    using assms(1) s a aw by (cases sr; cases ar) (auto simp: Node_send_request_and_wait_def Let_def)
qed

lemma send_request_keeps:
  assumes "Node_send_request_and_wait env req t nd w = (r, nd', w')" and "await_ok env" "nd_inv nd"
  shows "nd_inv nd'" and "same_but_map nd nd'"
proof -
  let ?rid = "rq_request_id req"
  have m: "wf_map (nd_request_map nd)" "\<And>rid. HashMap_get (nd_request_map nd) rid = None"
    using assms(3) by (auto simp: nd_inv_def)
  obtain sr w1 where s: "MessageDispatcher_send_request env req w = (sr, w1)"
    by (cases "MessageDispatcher_send_request env req w")
  obtain ar w2 where a: "env_await env ?rid t w1 = (ar, w2)" by (cases "env_await env ?rid t w1")
  have aw: "ar \<noteq> ChannelClosed" "ar = Delivered resp \<Longrightarrow> rs_request_id resp = ?rid \<and> response_wf resp" for resp
    using assms(2) a unfolding await_ok_def by blast+
  have nd': "\<exists>mm. nd' = nd\<lparr>nd_request_map := mm\<rparr> \<and> wf_map mm \<and> (\<forall>rid. HashMap_get mm rid = None)"
    using assms(1) s a aw m
    by (cases sr; cases ar) (auto simp: Node_send_request_and_wait_def request_map_defs Let_def)
  then show "nd_inv nd'" using assms(3) by (auto simp: nd_inv_def)
  show "same_but_map nd nd'" using nd' by (auto simp: same_but_map_def)
qed

lemma single_lookup_keeps:
  assumes "Node_single_lookup env target resolver fv nd w = (lr, nd', w')"
  shows "lr_resolver lr = resolver"
    and "await_ok env \<Longrightarrow> nd_inv nd \<Longrightarrow> nd_inv nd' \<and> same_but_map nd nd'"
    and "await_ok env \<Longrightarrow> n \<in> set (lr_k_closest lr) \<Longrightarrow> wf_node n"
proof -
  obtain req w1 where q: "Request_new env (if fv then FindValue target else FindNode target)
      (Node_to_node_info nd) resolver w = (req, w1)"
    by (cases "Request_new env (if fv then FindValue target else FindNode target)
      (Node_to_node_info nd) resolver w")
  obtain r nd2 w2 where s: "Node_send_request_and_wait env req LOOKUP_TIMEOUT_MILLISECONDS nd w1 = (r, nd2, w2)"
    by (cases "Node_send_request_and_wait env req LOOKUP_TIMEOUT_MILLISECONDS nd w1")
  note defs = LookupResponse_new_nodes_successful_def LookupResponse_new_value_successful_def
    LookupResponse_new_failed_def
  have lr: "lr = (case r of Inr response \<Rightarrow>
        (case rs_response_type response of
           Nodes nodes \<Rightarrow> LookupResponse_new_nodes_successful resolver nodes
         | HasValue _ \<Rightarrow> if fv then LookupResponse_new_value_successful resolver else LookupResponse_new_failed resolver
         | _ \<Rightarrow> LookupResponse_new_failed resolver)
      | Inl _ \<Rightarrow> LookupResponse_new_failed resolver)" and nd': "nd' = nd2"
    using assms q s by (simp_all add: Node_single_lookup_def Let_def)
  show "lr_resolver lr = resolver" by (simp add: lr defs split: sum.split response_type.split)
  assume ok: "await_ok env"
  show "nd_inv nd \<Longrightarrow> nd_inv nd' \<and> same_but_map nd nd'" using send_request_keeps [OF s ok] nd' by simp
  show "n \<in> set (lr_k_closest lr) \<Longrightarrow> wf_node n"
    using send_request_response(2) [OF s ok]
    by (auto simp: lr defs response_wf_def split: sum.splits response_type.splits if_splits)
qed

lemma join_all_keeps:
  assumes "join_all f xs s = (ys, s')" and "P s"
    and "\<And>x s y s'. P s \<Longrightarrow> f x s = (y, s') \<Longrightarrow> P s' \<and> Q x y"
  shows "P s' \<and> list_all2 Q xs ys"
  using assms(1,2)
proof (induction xs arbitrary: s ys)
  case (Cons x xs)
  obtain y s1 where f: "f x s = (y, s1)" by (cases "f x s")
  obtain ys' s2 where j: "join_all f xs s1 = (ys', s2)" by (cases "join_all f xs s1")
  from Cons.prems f j have "ys = y # ys'" "s' = s2" by auto
  then show ?case using assms(3) [OF Cons.prems(2) f] Cons.IH [of s1 ys'] j by simp
qed auto

text \<open>A round asks every resolver once; \<open>P\<close> is any invariant of single lookups.\<close>

lemma lookup_round_general:
  assumes "Node_lookup_round env target fv resolvers (nd, w) = (rs, nd', w')" and "P nd"
    and "\<And>x nd w r nd' w'. P nd \<Longrightarrow> Node_single_lookup env target x fv nd w = (r, nd', w') \<Longrightarrow> P nd' \<and> Q x r"
  shows "P nd' \<and> list_all2 Q resolvers rs"
proof (cases "resolvers = []")
  case False
  with assms(1) have j: "join_all (\<lambda>resolver (nd, w). Node_single_lookup env target resolver fv nd w) resolvers (nd, w)
      = (rs, nd', w')"
    by (simp add: Node_lookup_round_def)
  have "(case (nd', w') of (n, w) \<Rightarrow> P n) \<and> list_all2 Q resolvers rs"
    by (rule join_all_keeps [OF j]) (use assms(2,3) in auto)
  then show ?thesis by simp
qed (use assms in \<open>simp add: Node_lookup_round_def\<close>)

lemma lookup_round_keeps:
  assumes "Node_lookup_round env target fv resolvers (nd, w) = (rs, nd', w')" and "await_ok env" "nd_inv nd"
  shows "nd_inv nd'" "same_but_map nd nd'"
proof -
  have "(nd_inv nd' \<and> same_but_map nd nd') \<and> list_all2 (\<lambda>_ _. True) resolvers rs"
    by (rule lookup_round_general [OF assms(1), where P = "\<lambda>n. nd_inv n \<and> same_but_map nd n"])
      (use assms(2,3) in \<open>auto dest: single_lookup_keeps(2) intro: same_but_map_trans\<close>)
  then show "nd_inv nd'" "same_but_map nd nd'" by auto
qed

lemma lookup_round_wf:
  assumes "Node_lookup_round env target fv resolvers s = (rs, s')" and "await_ok env"
  shows "(\<Union>r \<in> set rs. set (lr_k_closest r)) \<subseteq> {n. wf_node n}"
proof -
  obtain nd w nd' w' where s: "s = (nd, w)" "s' = (nd', w')" by (cases s, cases s')
  have "True \<and> list_all2 (\<lambda>_ r. set (lr_k_closest r) \<subseteq> {n. wf_node n}) resolvers rs"
    by (rule lookup_round_general [OF assms(1) [unfolded s], where P = "\<lambda>_. True"])
      (use single_lookup_keeps(3) assms(2) in auto)
  then have "\<forall>r \<in> set rs. set (lr_k_closest r) \<subseteq> {n. wf_node n}" by (blast dest: list_all2_in_right)
  then show ?thesis by blast
qed

text \<open>Each response of a round comes from one of its resolvers.\<close>

lemma lookup_round_origin:
  assumes "Node_lookup_round env target fv resolvers s = (rs, s')" "r \<in> set rs"
  obtains nd w where "lr_resolver r \<in> set resolvers" "fst (Node_single_lookup env target (lr_resolver r) fv nd w) = r"
proof -
  obtain nd w nd' w' where s: "s = (nd, w)" "s' = (nd', w')" by (cases s, cases s')
  have "True \<and> list_all2 (\<lambda>x r. lr_resolver r = x \<and> (\<exists>nd w. fst (Node_single_lookup env target x fv nd w) = r)) resolvers rs"
  proof (rule lookup_round_general [OF assms(1) [unfolded s], where P = "\<lambda>_. True"])
    fix x nd w r nd' w'
    assume l: "Node_single_lookup env target x fv nd w = (r, nd', w')"
    then have "fst (Node_single_lookup env target x fv nd w) = r" by simp
    then show "True \<and> lr_resolver r = x \<and> (\<exists>nd w. fst (Node_single_lookup env target x fv nd w) = r)"
      using single_lookup_keeps(1) [OF l] by blast
  qed simp
  then show thesis using that assms(2) by (blast dest: list_all2_in_right)
qed

section \<open>Rounds\<close>

lemma lookup_loop_returns:
  assumes "await_ok env" "lb_inv b" "lb_known b \<subseteq> {n. wf_node n}"
  shows "\<exists>cur b' nd' w'. Node_lookup_loop env target fv b s = Some (cur, b', nd', w') \<and>
     lb_inv b' \<and> lb_known b \<subseteq> lb_known b' \<and> lb_known b' \<subseteq> {n. wf_node n}"
  unfolding Node_lookup_loop_def
proof -
  have "\<exists>cur' b' s'. lookup_rounds LookupBuffer_get_alpha_unqueried_nodes
      (\<lambda>rs. LookupBuffer_record_lookup_round_responses rs fv) (Node_lookup_round env target fv) [] b s =
        Some (cur', b', s') \<and> lb_inv b' \<and> lb_known b \<subseteq> lb_known b' \<and> lb_known b' \<subseteq> {n. wf_node n}"
    by (rule lb.lookup_rounds_ends [OF finite_wf_nodes assms(2,3)]) (rule lookup_round_wf [OF _ assms(1)])
  then show "\<exists>cur b' nd' w'. lookup_rounds LookupBuffer_get_alpha_unqueried_nodes
      (\<lambda>rs. LookupBuffer_record_lookup_round_responses rs fv) (Node_lookup_round env target fv) [] b s =
        Some (cur, b', nd', w') \<and> lb_inv b' \<and> lb_known b \<subseteq> lb_known b' \<and> lb_known b' \<subseteq> {n. wf_node n}"
    by (simp add: split_paired_Ex)
qed

text \<open>
  What the rounds keep: the invariants of node and buffer, the target, this node out of the
  buffer, the order (for a node lookup) and the absence of repetitions.
\<close>

definition loop_inv :: "node \<Rightarrow> lookup_buffer \<Rightarrow> bool \<Rightarrow> node \<Rightarrow> lookup_buffer \<Rightarrow> bool" where
  "loop_inv nd0 b0 fv nd b \<longleftrightarrow> nd_inv nd \<and> same_but_map nd0 nd \<and> lb_inv b \<and> lb_target b = lb_target b0 \<and>
     lb_this_node b = lb_this_node b0 \<and> lb_known b \<subseteq> {n. wf_node n} - {lb_this_node b0} \<and>
     (\<not> fv \<longrightarrow> lb_sorted b) \<and> (lb_distinct b0 \<longrightarrow> lb_distinct b)"

lemma loop_inv_alpha:
  assumes "loop_inv nd0 b0 fv nd b" "LookupBuffer_get_alpha_unqueried_nodes b = (ns, b1)"
  shows "loop_inv nd0 b0 fv nd b1"
  using assms lb.alpha_invar [OF _ assms(2)] lb.alpha_known [OF _ assms(2)]
    lb_sorted_alpha [OF assms(2)] lb_distinct_alpha [OF assms(2)]
  unfolding loop_inv_def by (auto simp: get_alpha_eq)

lemma loop_inv_round:
  assumes inv: "loop_inv nd0 b0 fv nd b" and "await_ok env"
    and rd: "Node_lookup_round env target fv ns (nd, w) = (rs, nd', w')"
    and rc: "LookupBuffer_record_lookup_round_responses rs fv b = (c, b')"
  shows "loop_inv nd0 b0 fv nd' b'"
proof -
  have i: "nd_inv nd" "same_but_map nd0 nd" "lb_inv b" "lb_target b = lb_target b0"
     "lb_this_node b = lb_this_node b0" "lb_known b \<subseteq> {n. wf_node n} - {lb_this_node b0}"
     "lb_distinct b0 \<longrightarrow> lb_distinct b"
    using inv unfolding loop_inv_def by auto
  note laws = record_round_laws [OF rc i(3)]
  have "lb_known b' \<subseteq> {n. wf_node n} - {lb_this_node b0}"
    using laws(4) i(5,6) lookup_round_wf [OF rd assms(2)] by auto
  moreover have "lb_sorted b'" if "\<not> fv" using lb_sorted_record rc that by simp
  ultimately show ?thesis
    using laws i lookup_round_keeps [OF rd assms(2) i(1)] same_but_map_trans [OF i(2)]
      lb_distinct_record [OF rc] by (simp add: loop_inv_def)
qed

lemma lookup_loop_inv:
  assumes "Node_lookup_loop env target fv b (nd, w) = Some (cur, b', nd', w')" and "await_ok env"
    and "loop_inv nd0 b0 fv nd b"
  shows "loop_inv nd0 b0 fv nd' b'"
proof -
  have "(\<lambda>cur b s. loop_inv nd0 b0 fv (fst s) b) cur b' (nd', w')"
  proof (rule lookup_rounds_invariant [OF assms(1) [unfolded Node_lookup_loop_def],
        where I = "\<lambda>cur b s. loop_inv nd0 b0 fv (fst s) b"])
    fix b b1 and s :: "node \<times> 'a"
    assume "loop_inv nd0 b0 fv (fst s) b" "LookupBuffer_get_alpha_unqueried_nodes b = ([], b1)"
    then show "loop_inv nd0 b0 fv (fst s) b1" by (rule loop_inv_alpha)
  next
    fix b s ns b1 rs s1 c b2
    assume "loop_inv nd0 b0 fv (fst s) b" and "LookupBuffer_get_alpha_unqueried_nodes b = (ns, b1)"
      and "Node_lookup_round env target fv ns s = (rs, s1)"
      and "LookupBuffer_record_lookup_round_responses rs fv b1 = (c, b2)"
    then have "loop_inv nd0 b0 fv (fst s1) b2"
      using loop_inv_round [OF loop_inv_alpha assms(2)] by (cases s, cases s1) auto
    then show "(c \<longrightarrow> loop_inv nd0 b0 fv (fst s1) b2) \<and> (\<not> c \<longrightarrow> loop_inv nd0 b0 fv (fst s1) b2)" by simp
  qed (use assms(3) in simp)
  then show ?thesis by simp
qed

lemma last_round_inv:
  assumes "Node_last_round env target b (nd, w) = (b', nd', w')" and "await_ok env" "loop_inv nd0 b0 False nd b"
  shows "loop_inv nd0 b0 False nd' b'"
proof -
  obtain rs s1 where rd: "Node_lookup_round env target False (LookupBuffer_get_unqueried_resulting_nodes b) (nd, w) = (rs, s1)"
    by (cases "Node_lookup_round env target False (LookupBuffer_get_unqueried_resulting_nodes b) (nd, w)")
  obtain c b1 where rc: "LookupBuffer_record_lookup_round_responses rs False b = (c, b1)"
    by (cases "LookupBuffer_record_lookup_round_responses rs False b")
  have "b' = b1" "s1 = (nd', w')" using assms(1) rd rc by (simp_all add: Node_last_round_def)
  then show ?thesis using loop_inv_round [OF assms(3,2)] rd rc by simp
qed

lemma loop_inv_start:
  assumes "nd_inv nd" "\<forall>n \<in> set ns. wf_node n" "this \<notin> set ns"
  shows "loop_inv nd (LookupBuffer_new target ns this) fv nd (LookupBuffer_new target ns this)"
  using assms lb_inv_new by (auto simp: loop_inv_def)

text \<open>The result read off a buffer after the last round.\<close>

lemma loop_inv_result:
  assumes "loop_inv nd0 (LookupBuffer_new target ns this) False nd b"
  defines "res \<equiv> LookupBuffer_get_resulting_vector b"
  shows "length res \<le> K" and "sorted (map (\<lambda>n. Key_distance (ni_id n) target) res)"
    and "this \<notin> set res" and "\<forall>n \<in> set res. wf_node n" and "distinct ns \<Longrightarrow> distinct res"
    and "\<forall>n \<in> set (LookupBuffer_get_responsive_nodes b). wf_node n"
proof -
  have b: "lb_sorted b" "lb_target b = target" "lb_known b \<subseteq> {n. wf_node n} - {this}"
      "distinct ns \<longrightarrow> lb_distinct b"
    using assms(1) lb_distinct_new [of ns target this] by (auto simp: loop_inv_def)
  show "length res \<le> K" unfolding res_def by (rule length_resulting_vector)
  show "sorted (map (\<lambda>n. Key_distance (ni_id n) target) res)"
    using resulting_vector_sorted [OF b(1)] b(2) by (simp add: res_def)
  show "this \<notin> set res" "\<forall>n \<in> set res. wf_node n"
    using resulting_vector_known [of b] b(3) unfolding res_def by blast+
  show "distinct ns \<Longrightarrow> distinct res" using b(4) distinct_resulting_vector unfolding res_def by blast
  show "\<forall>n \<in> set (LookupBuffer_get_responsive_nodes b). wf_node n"
    using b(3) by (auto simp: LookupBuffer_get_responsive_nodes_def lb_known_def)
qed

section \<open>Storing contacts\<close>

text \<open>The bucket of a contact is full of other contacts.\<close>

definition full_for :: "routing_table \<Rightarrow> node_info \<Rightarrow> bool" where
  "full_for rt n \<longleftrightarrow> (case RoutingTable_get_bucket_index rt (ni_id n) of
     Inl _ \<Rightarrow> False
   | Inr i \<Rightarrow> length (filter (\<lambda>m. ni_id m \<noteq> ni_id n) (kb_nodes (rt_buckets rt ! i))) \<ge> K)"

text \<open>
  A table after a contact was stored in a bucket with room, and whether storing contacts one after
  the other meets a full bucket.
\<close>

definition place :: "node_info \<Rightarrow> routing_table \<Rightarrow> routing_table" where
  "place n rt = (case RoutingTable_get_bucket_index rt (ni_id n) of
     Inl _ \<Rightarrow> rt
   | Inr i \<Rightarrow> rt\<lparr>rt_buckets := (rt_buckets rt)[i := (rt_buckets rt ! i)\<lparr>kb_nodes :=
       filter (\<lambda>m. ni_id m \<noteq> ni_id n) (kb_nodes (rt_buckets rt ! i)) @ [n]\<rparr>]\<rparr>)"

fun crowded :: "routing_table \<Rightarrow> node_info list \<Rightarrow> bool" where
  "crowded rt [] = False"
| "crowded rt (n # ns) = (full_for rt n \<or> crowded (place n rt) ns)"

text \<open>Only the contacts in the buckets matter, not the times of their lookups.\<close>

definition same_contacts :: "routing_table \<Rightarrow> routing_table \<Rightarrow> bool" where
  "same_contacts rt rt' \<longleftrightarrow> rt_id rt' = rt_id rt \<and> map kb_nodes (rt_buckets rt') = map kb_nodes (rt_buckets rt)"

lemma same_contacts_nth:
  "same_contacts rt rt' \<Longrightarrow> i < length (rt_buckets rt) \<Longrightarrow> kb_nodes (rt_buckets rt' ! i) = kb_nodes (rt_buckets rt ! i)"
  unfolding same_contacts_def by (metis nth_map length_map)

lemma same_contacts_index:
  "same_contacts rt rt' \<Longrightarrow> RoutingTable_get_bucket_index rt' k = RoutingTable_get_bucket_index rt k"
  by (simp add: same_contacts_def RoutingTable_get_bucket_index_def)

lemma crowded_cong:
  assumes "same_contacts rt rt'" "wf_key (rt_id rt)" "length (rt_buckets rt) = NUM_BUCKETS" "\<forall>n \<in> set ns. wf_node n"
  shows "crowded rt' ns = crowded rt ns"
  using assms
proof (induction ns arbitrary: rt rt')
  case (Cons n ns)
  have wf: "wf_key (ni_id n)" using Cons.prems(4) by (simp add: wf_node_def)
  note index = same_contacts_index [OF Cons.prems(1), of "ni_id n"]
  have "full_for rt' n = full_for rt n \<and> same_contacts (place n rt) (place n rt') \<and> rt_id (place n rt) = rt_id rt \<and>
      length (rt_buckets (place n rt)) = NUM_BUCKETS"
    using Cons.prems(2) wf
  proof (cases rule: get_bucket_index_cases)
    case (bucket i)
    then have i: "i < length (rt_buckets rt)" using Cons.prems(3) by simp
    then have nodes: "kb_nodes (rt_buckets rt' ! i) = kb_nodes (rt_buckets rt ! i)" using same_contacts_nth [OF Cons.prems(1)] by simp
    show ?thesis using Cons.prems(1,3) i
      by (simp add: full_for_def place_def index bucket(2) nodes) (simp add: same_contacts_def map_update)
  qed (use Cons.prems(1,3) index in \<open>simp add: full_for_def place_def\<close>)
  then show ?case using Cons.IH [of "place n rt" "place n rt'"] Cons.prems(2,4) by simp
qed simp

lemma locked_ping_blocks [simp]: "locked_ping env nd k w = Blocked"
  by (simp add: locked_ping_def Node_ping_def)

lemma node_store_cases:
  assumes "nd_inv nd" "wf_node n"
  obtains (self) "ni_id n = nd_key nd" "Node_store_nodeinfo env n nd w = Ret (Inl AttempStoreSelf, nd, w)"
  | (blocked) "ni_id n \<noteq> nd_key nd" "full_for (nd_routing_table nd) n" "Node_store_nodeinfo env n nd w = Blocked"
  | (stored) rt' where "ni_id n \<noteq> nd_key nd" "\<not> full_for (nd_routing_table nd) n"
      "Node_store_nodeinfo env n nd w = Ret (Inr (), nd\<lparr>nd_routing_table := rt'\<rparr>, w)"
      "nd_inv (nd\<lparr>nd_routing_table := rt'\<rparr>)" "RoutingTable_get_nodeinfo rt' (ni_id n) = Ret (Inr (Some n))"
      "\<And>k. wf_key k \<Longrightarrow> k \<noteq> ni_id n \<Longrightarrow> RoutingTable_get_nodeinfo rt' k = RoutingTable_get_nodeinfo (nd_routing_table nd) k"
      "rt' = place n (nd_routing_table nd)"
proof -
  let ?rt = "nd_routing_table nd"
  have rt: "rt_inv ?rt" "rt_id ?rt = nd_key nd" "wf_key (ni_id n)"
    using assms by (auto simp: nd_inv_def wf_node_def)
  from rt_invD(1) [OF rt(1)] rt(3) show ?thesis
  proof (cases rule: get_bucket_index_cases)
    case self
    then show ?thesis
      using that(1) rt(2) by (simp add: Node_store_nodeinfo_def RoutingTable_store_nodeinfo_def)
  next
    case (bucket i)
    have inv: "kb_inv (rt_buckets ?rt ! i)" by (rule rt_invD(3) [OF rt(1) bucket(3)])
    have full: "full_for ?rt n \<longleftrightarrow> \<not> length (others n (rt_buckets ?rt ! i)) < K"
      using bucket(2) by (simp add: full_for_def others_def not_less)
    show ?thesis
    proof (cases "length (others n (rt_buckets ?rt ! i)) < K")
      case True
      define rt' where "rt' = ?rt\<lparr>rt_buckets := (rt_buckets ?rt)[i := (rt_buckets ?rt ! i)\<lparr>kb_nodes :=
          others n (rt_buckets ?rt ! i) @ [n]\<rparr>]\<rparr>"
      have st: "RoutingTable_store_nodeinfo (locked_ping env nd) n ?rt w = Ret (Inr (), rt', w)"
        using store_nodeinfo_space [OF rt(1) bucket(2,3) True] by (simp add: rt'_def)
      have "nd_inv (nd\<lparr>nd_routing_table := rt'\<rparr>)"
        using assms(1) rt_inv_store [OF rt(1) assms(2) st] rt(2) by (simp add: nd_inv_def)
      then show ?thesis
        using store_then_get(2,3) [OF rt(1) assms(2) bucket(2,3) True st] st full True bucket(1,2) rt(2)
        by (intro that(3) [of rt']) (simp_all add: Node_store_nodeinfo_def place_def rt'_def others_def)
    next
      case False
      obtain head rest where hr: "kb_nodes (rt_buckets ?rt ! i) = head # rest"
        using kb_full_obtain [OF inv False] by metis
      have "Node_store_nodeinfo env n nd w = Blocked"
        using bucket rt_invD(2) [OF rt(1)] add_nodeinfo_full [OF inv False hr, of "locked_ping env nd" w]
        by (simp add: Node_store_nodeinfo_def RoutingTable_store_nodeinfo_def)
      then show ?thesis using that(2) full False bucket(1) rt(2) by simp
    qed
  qed
qed

text \<open>Storing a list of contacts blocks exactly when it meets a full bucket.\<close>

lemma store_all_and_warn_cases:
  assumes "nd_inv nd" "\<forall>n \<in> set ns. wf_node n"
  shows "(\<exists>rt'. store_all_and_warn env ns nd w = Ret (nd\<lparr>nd_routing_table := rt'\<rparr>, w) \<and>
       nd_inv (nd\<lparr>nd_routing_table := rt'\<rparr>) \<and> \<not> crowded (nd_routing_table nd) ns) \<or>
    (store_all_and_warn env ns nd w = Blocked \<and> crowded (nd_routing_table nd) ns)"
  using assms
proof (induction ns arbitrary: nd)
  case Nil
  then show ?case by (auto intro!: exI [of _ "nd_routing_table nd"])
next
  case (Cons n ns)
  have wf: "wf_node n" "\<forall>n \<in> set ns. wf_node n" using Cons.prems by auto
  from Cons.prems(1) wf(1) show ?case
  proof (cases rule: node_store_cases [where env = env and w = w])
    case self
    then have "RoutingTable_get_bucket_index (nd_routing_table nd) (ni_id n) = Inl AttempStoreSelf"
      using Cons.prems(1) get_bucket_index_self [of "nd_routing_table nd"] by (auto simp: nd_inv_def rt_inv_def)
    then have "\<not> full_for (nd_routing_table nd) n" "place n (nd_routing_table nd) = nd_routing_table nd"
      by (simp_all add: full_for_def place_def)
    then show ?thesis using self Cons.IH [OF Cons.prems(1) wf(2)] by auto
  next
    case (stored rt')
    then show ?thesis using Cons.IH [OF stored(4) wf(2)] by auto
  qed simp
qed

lemma store_all_or_fail_cases:
  assumes "nd_inv nd" "\<forall>n \<in> set ns. wf_node n"
  shows "(\<exists>r rt'. store_all_or_fail env ns nd w = Ret (r, nd\<lparr>nd_routing_table := rt'\<rparr>, w) \<and>
       (r = Inr () \<or> r = Inl AttempStoreSelf \<and> (\<exists>n \<in> set ns. ni_id n = nd_key nd)) \<and>
       nd_inv (nd\<lparr>nd_routing_table := rt'\<rparr>) \<and>
       \<not> crowded (nd_routing_table nd) (takeWhile (\<lambda>n. ni_id n \<noteq> nd_key nd) ns)) \<or>
    (store_all_or_fail env ns nd w = Blocked \<and>
       crowded (nd_routing_table nd) (takeWhile (\<lambda>n. ni_id n \<noteq> nd_key nd) ns))"
  using assms
proof (induction ns arbitrary: nd)
  case Nil
  then show ?case by (auto intro!: exI [of _ "nd_routing_table nd"])
next
  case (Cons n ns)
  have wf: "wf_node n" "\<forall>n \<in> set ns. wf_node n" using Cons.prems by auto
  from Cons.prems(1) wf(1) show ?case
  proof (cases rule: node_store_cases [where env = env and w = w])
    case self
    then show ?thesis using Cons.prems(1) by (auto intro!: exI [of _ "nd_routing_table nd"])
  next
    case (stored rt')
    then show ?thesis using Cons.IH [OF stored(4) wf(2)] by auto
  qed simp
qed

end
