(* ===== verification/Sample_Network.thy ===== *)
theory Sample_Network
  imports Node
begin

text \<open>
  A small network for concrete instances: keys and contacts that differ in their last byte, a
  message layer in which every contact answers at once, and routing tables with a few contacts.
  Two instances show where the code does less than its comments say.
\<close>

section \<open>Keys, contacts and answers\<close>

definition small_key :: "u8 \<Rightarrow> key" where "small_key b = Key (replicate 19 0 @ [b])"

definition contact :: "u8 \<Rightarrow> node_info" where
  "contact b = \<lparr>ni_id = small_key b, ni_address = SocketAddrV4 2130706433 (ucast b)\<rparr>"

definition reply_env :: "(socket_addr \<Rightarrow> response_type) \<Rightarrow> socket_addr net" where
  "reply_env answer =
     \<lparr>env_new_v4 = (\<lambda>w. (1, w)), env_json_request = (\<lambda>_. Some []), env_json_response = (\<lambda>_. Some []),
      env_udp_send = (\<lambda>bs a w. (Some 0, a)),
      env_await = (\<lambda>rid t w. (Delivered (Response_new (answer w) (contact 0) (contact 0) rid), w)),
      tcp_bind = (\<lambda>a w. (Some 0, w)), tcp_local_port = (\<lambda>l w. (Some 9, w)),
      tcp_accept = (\<lambda>l t w. (Accepted 1, w)), tcp_read_to_end = (\<lambda>s w. (Some [], w)),
      net_now = (\<lambda>w. (0, w)), net_read_ok = (\<lambda>w. (True, w)), net_create_ok = (\<lambda>w. (True, w)),
      net_write = (\<lambda>w. (WriteOk, w)), net_tcp_send = (\<lambda>ip p bs w. (Inr (), w)),
      net_chunk_input = (\<lambda>w. (sample_inputs 0, w)), net_gen_key = (\<lambda>w. (replicate 32 0, w)),
      net_aead = sample_aead, net_digest = (\<lambda>_. replicate 20 0)\<rparr>"

definition lost_answer :: "socket_addr \<Rightarrow> response_type" where
  "lost_answer a = (if a = ni_address (contact 5) then Nodes [contact 7]
     else if a = ni_address (contact 6) then HasValue (small_key 4)
     else Nodes [])"

text \<open>A routing table of the node with key 0, given by the contacts of its first buckets.\<close>

definition small_rt :: "node_info list list \<Rightarrow> routing_table" where
  "small_rt bs = \<lparr>rt_id = small_key 0, rt_buckets =
     map (\<lambda>ns. (KBucket_new 0)\<lparr>kb_nodes := ns\<rparr>) bs @ replicate (160 - length bs) (KBucket_new 0)\<rparr>"

definition small_nd :: "node_info list list \<Rightarrow> node" where
  "small_nd bs = (Node_new 0 (small_key 0) (SocketAddrV4 2130706433 0) ''store'' Map.empty)
     \<lparr>nd_routing_table := small_rt bs\<rparr>"

definition sample_rt :: routing_table where
  "sample_rt = small_rt [[], [], [contact 5, contact 6]]"

definition sample_nd :: node where
  "sample_nd = small_nd [[], [], [contact 5, contact 6]]"

lemma small_key_simps [simp]:
  "wf_key (small_key a)" "small_key a = small_key b \<longleftrightarrow> a = b"
  "Key_distance (small_key a) (small_key b) = replicate 19 0 @ [a XOR b]"
  by (simp_all add: small_key_def wf_key_def K_def Key_distance_def zip_append zip_replicate)

lemma contact_simps [simp]:
  "ni_id (contact a) = small_key a" "contact a = contact b \<longleftrightarrow> a = b" "wf_node (contact a)"
  "ni_address (contact a) = ni_address (contact b) \<longleftrightarrow> a = b"
proof -
  show "ni_id (contact a) = small_key a" "contact a = contact b \<longleftrightarrow> a = b" "wf_node (contact a)"
    by (auto simp: contact_def wf_node_def dest: arg_cong [where f = ni_id])
  have "(ucast (ucast c :: u16) :: u8) = c" for c
    by (rule bit_word_eqI) (simp add: bit_simps)
  then have "(ucast a :: u16) = ucast b \<longleftrightarrow> a = b" by metis
  then show "ni_address (contact a) = ni_address (contact b) \<longleftrightarrow> a = b" by (simp add: contact_def)
qed

lemma count_leading_zeros_replicate [simp]:
  "count_leading_zeros (replicate n 0 @ bs) = 8 * n + count_leading_zeros bs"
  by (induction n) auto

lemma small_rt_index:
  "RoutingTable_get_bucket_index (small_rt bs) (small_key b) =
     (if b = 0 then Inl AttempStoreSelf else Inr (7 - u8_leading_zeros b))"
proof -
  have "u8_leading_zeros b < 8" if "b \<noteq> 0"
    using that leading_zeros_bounds(1) [of "small_key 0" "small_key b"]
    by (simp add: Key_leading_zeros_in_distance_def K_def)
  moreover have "u8_leading_zeros 0 = 8" by (simp add: u8_leading_zeros_def)
  ultimately show ?thesis
    by (cases "b = 0") (auto simp: RoutingTable_get_bucket_index_def small_rt_def Key_leading_zeros_in_distance_def
        NUM_BUCKETS_def K_def Let_def)
qed

lemma zeros_le [simp]: "replicate n (0::u8) @ [x] \<le> replicate n 0 @ [y] \<longleftrightarrow> x \<le> y"
  by (induction n) auto

lemma small_rt_buckets:
  "length bs \<le> 160 \<Longrightarrow> length (rt_buckets (small_rt bs)) = NUM_BUCKETS"
  "i < length bs \<Longrightarrow> rt_buckets (small_rt bs) ! i = (KBucket_new 0)\<lparr>kb_nodes := bs ! i\<rparr>"
  "length bs \<le> i \<Longrightarrow> i < NUM_BUCKETS \<Longrightarrow> rt_buckets (small_rt bs) ! i = KBucket_new 0"
  by (simp_all add: small_rt_def NUM_BUCKETS_def K_def nth_append)

lemma small_rt_inv:
  assumes "length bs \<le> 160" and "list_all (\<lambda>ns. length ns \<le> K \<and> distinct (map ni_id ns)) bs"
    and "list_all (\<lambda>i. list_all (\<lambda>n. wf_node n \<and>
      RoutingTable_get_bucket_index (small_rt bs) (ni_id n) = Inr i) (bs ! i)) [0..<length bs]"
  shows "rt_inv (small_rt bs)"
  unfolding rt_inv_def
proof (intro conjI allI impI)
  show "wf_key (rt_id (small_rt bs))" by (simp add: small_rt_def)
  show "length (rt_buckets (small_rt bs)) = NUM_BUCKETS" by (rule small_rt_buckets(1) [OF assms(1)])
  fix i assume i: "i < NUM_BUCKETS"
  show "kb_inv (rt_buckets (small_rt bs) ! i)"
    using assms(2) i kb_inv_new
    by (cases "i < length bs") (auto simp: small_rt_buckets kb_inv_def KBucket_new_def list_all_length)
  show "\<forall>n \<in> set (kb_nodes (rt_buckets (small_rt bs) ! i)).
      wf_node n \<and> RoutingTable_get_bucket_index (small_rt bs) (ni_id n) = Inr i"
    using assms(3) i by (cases "i < length bs") (auto simp: small_rt_buckets KBucket_new_def list_all_iff)
qed

lemma small_rt_all: "RoutingTable_get_all_nodeinfos (small_rt bs) = concat bs"
  by (simp add: RoutingTable_get_all_nodeinfos_def small_rt_def KBucket_get_nodeinfos_def KBucket_new_def
      map_replicate comp_def)

lemmas index_eval = small_rt_index u8_leading_zeros_def

lemma sample_rt_inv: "rt_inv sample_rt"
  unfolding sample_rt_def
  by (rule small_rt_inv) (simp_all add: K_def index_eval)

lemma sample_all: "RoutingTable_get_all_nodeinfos sample_rt = [contact 5, contact 6]"
  by (simp add: sample_rt_def small_rt_all)

lemma small_nd_inv: "rt_inv (small_rt bs) \<Longrightarrow> nd_inv (small_nd bs)"
  using ss_inv_new
  by (simp add: nd_inv_def small_nd_def Node_new_def RequestMap_new_def) (simp add: small_rt_def)

lemma sample_nd_inv: "nd_inv sample_nd"
  using small_nd_inv sample_rt_inv by (simp add: sample_nd_def sample_rt_def)

lemma reply_env_await_ok:
  assumes "\<And>a. case answer a of Nodes ns \<Rightarrow> \<forall>n \<in> set ns. wf_node n | _ \<Rightarrow> True"
  shows "await_ok (reply_env answer)"
  using assms by (auto simp: await_ok_def reply_env_def response_wf_def Response_new_def)

lemma lost_answer_ok: "await_ok (reply_env lost_answer)"
  by (rule reply_env_await_ok) (simp add: lost_answer_def)

section \<open>Lookups\<close>

lemma send_reply:
  "MessageDispatcher_send_request (reply_env ans) req w =
     (if rq_receiver req = rq_sender req then (Inl SenderIsReceiver, w)
      else (Inr 0, ni_address (rq_receiver req)))"
  by (simp add: MessageDispatcher_send_request_def reply_env_def)

lemma single_lookup_reply:
  assumes "r \<noteq> Node_to_node_info nd" "nd_request_map nd = []"
  shows "Node_single_lookup (reply_env ans) target r fv nd w =
    (case ans (ni_address r) of
       Nodes ns \<Rightarrow> LookupResponse_new_nodes_successful r ns
     | HasValue _ \<Rightarrow> if fv then LookupResponse_new_value_successful r else LookupResponse_new_failed r
     | _ \<Rightarrow> LookupResponse_new_failed r, nd, ni_address r)"
proof -
  have "env_new_v4 (reply_env ans) = (\<lambda>w. (1, w))"
    "env_await (reply_env ans) = (\<lambda>rid t w. (Delivered (Response_new (ans w) (contact 0) (contact 0) rid), w))"
    by (simp_all add: reply_env_def)
  then show ?thesis
    using assms
    by (simp add: Node_single_lookup_def Request_new_def Node_send_request_and_wait_def send_reply Let_def
        Response_new_def request_map_defs HashMap_put_def HashMap_delete_def HashMap_get_def
        node.update_convs[symmetric] split: response_type.split)
qed

lemma sample_me: "Node_to_node_info sample_nd = contact 0"
  by (simp add: Node_to_node_info_def sample_nd_def small_nd_def Node_new_def contact_def NodeInfo_new_def)

lemma sample_map: "nd_request_map sample_nd = []"
  by (simp add: sample_nd_def small_nd_def Node_new_def RequestMap_new_def HashMap_new_def)

lemma sample_closest: "RoutingTable_get_alpha_closest sample_rt (small_key 4) = Ret (Inr [contact 5, contact 6])"
proof -
  have "RoutingTable_get_n_closest sample_rt (small_key 4) ALPHA = Ret (RoutingTable_get_n_closest_slow sample_rt (small_key 4) ALPHA)"
    by (rule get_n_closest_exact [OF sample_rt_inv, of _ 2]) (simp_all add: small_rt_all ALPHA_def sample_rt_def index_eval)
  also have "RoutingTable_get_n_closest_slow sample_rt (small_key 4) ALPHA = Inr [contact 5, contact 6]"
    using sample_all by (simp add: RoutingTable_get_n_closest_slow_def RoutingTable_get_all_nodeinfos_def ALPHA_def)
  finally show ?thesis by (simp add: RoutingTable_get_alpha_closest_def)
qed


lemmas lookup_eval = LookupBuffer_get_alpha_unqueried_nodes_def LookupBuffer_mark_node_as_queried_def
  LookupBuffer_mark_node_as_responded_def LookupBuffer_record_lookup_round_responses_def
  LookupBuffer_get_resulting_vector_def LookupNodeInfo_has_failed_to_respond_def LookupBuffer_sort_def
  LookupNodeInfo_new_def LookupNodeInfo_eq_def push_node_def target_distance_def Let_def ALPHA_def
  LookupResponse_new_nodes_successful_def LookupResponse_new_value_successful_def LookupResponse_new_failed_def
  LookupBuffer_get_unqueried_resulting_nodes_def is_value_response_def LookupBuffer_new_def K_def

lemma lost_loop: "\<exists>b. Node_lookup_loop (reply_env lost_answer) (small_key 4) True
    (LookupBuffer_new (small_key 4) [contact 5, contact 6] (contact 0)) (sample_nd, w) =
    Some ([LookupResponse_new_nodes_successful (contact 7) []], b, sample_nd, ni_address (contact 7)) \<and>
    LookupBuffer_get_unqueried_resulting_nodes b = []"
  unfolding Node_lookup_loop_def
  apply (subst lookup_rounds.simps)
  apply (simp add: lookup_eval Node_lookup_round_def single_lookup_reply sample_me sample_map lost_answer_def)
  apply (subst lookup_rounds.simps)
  apply (simp add: lookup_eval Node_lookup_round_def single_lookup_reply sample_me sample_map lost_answer_def)
  apply (subst lookup_rounds.simps)
  apply (simp add: lookup_eval Node_lookup_round_def single_lookup_reply sample_me sample_map lost_answer_def)
  done

section \<open>Properties\<close>

text \<open>
  Claim C34. \<open>find_storer\<close> can miss a storer that answered. In a network where contact 5 answers
  with contact 7 and contact 6 answers that it holds chunk 4, the lookup goes on after the
  \<open>HAS_VALUE\<close> answer of the first round, the responses of the next round replace it, and the
  lookup ends with the error that no node stores the chunk.
\<close>

theorem find_storer_loses_value:
  "is_value_response (fst (Node_single_lookup (reply_env lost_answer) (small_key 4) (contact 6) True sample_nd w)) \<and>
   contact 6 \<in> set (Node_get_routing_table_content sample_nd) \<and>
   Node_find_storer (reply_env lost_answer) (small_key 4) sample_nd w =
     Ret (Inl (StorerNotFound (small_key 4)), sample_nd, ni_address (contact 7))"
proof -
  obtain b where "Node_lookup_loop (reply_env lost_answer) (small_key 4) True
    (LookupBuffer_new (small_key 4) [contact 5, contact 6] (contact 0)) (sample_nd, w) =
    Some ([LookupResponse_new_nodes_successful (contact 7) []], b, sample_nd, ni_address (contact 7))"
    "LookupBuffer_get_unqueried_resulting_nodes b = []" using lost_loop by blast
  moreover have rt: "nd_routing_table sample_nd = sample_rt" "nd_disk sample_nd = Map.empty"
    by (simp_all add: sample_nd_def sample_rt_def small_nd_def Node_new_def)
  moreover have "net_read_ok (reply_env lost_answer) w = (True, w)" by (simp add: reply_env_def)
  ultimately show ?thesis
    by (simp add: Node_find_storer_def ShardStorageManager_read_chunk_def sample_closest sample_me
       is_value_response_def LookupResponse_new_nodes_successful_def LookupResponse_new_value_successful_def
       single_lookup_reply sample_map lost_answer_def Node_get_routing_table_content_def sample_all)
qed

text \<open>
  Claim C35. \<open>get_n_closest\<close> does not always return the closest contacts: with contacts 1, 2, 3 and 8
  in the table of node 0, asking for the contact closest to key 4 returns contact 2 at distance
  6, although contact 1 at distance 5 is in the table and is what the exhaustive search of the
  tests returns.
\<close>

theorem get_n_closest_misses_closest:
  "rt_inv (small_rt [[contact 1], [contact 2, contact 3], [], [contact 8]]) \<and>
   RoutingTable_get_n_closest (small_rt [[contact 1], [contact 2, contact 3], [], [contact 8]]) (small_key 4) 1 =
     Ret (Inr [contact 2]) \<and>
   RoutingTable_get_n_closest_slow (small_rt [[contact 1], [contact 2, contact 3], [], [contact 8]]) (small_key 4) 1 =
     Inr [contact 1]"
proof (intro conjI)
  let ?bs = "[[contact 1], [contact 2, contact 3], [], [contact 8]]"
  show "rt_inv (small_rt ?bs)"
    by (rule small_rt_inv) (simp_all add: K_def index_eval)
  have b: "rt_buckets (small_rt ?bs) ! 2 = KBucket_new 0"
    "rt_buckets (small_rt ?bs) ! 3 = (KBucket_new 0)\<lparr>kb_nodes := [contact 8]\<rparr>"
    "rt_buckets (small_rt ?bs) ! Suc 0 = (KBucket_new 0)\<lparr>kb_nodes := [contact 2, contact 3]\<rparr>"
    "length (rt_buckets (small_rt ?bs)) = 160"
    by (simp_all add: small_rt_def KBucket_new_def)
  have "closest_loop (rt_buckets (small_rt ?bs)) 1 True ([], 3, 1) = [contact 8, contact 2, contact 3]"
    by (simp add: closest_loop.simps closest_round_def take_down.simps b KBucket_get_nodeinfos_def Let_def)
  then show "RoutingTable_get_n_closest (small_rt ?bs) (small_key 4) 1 = Ret (Inr [contact 2])"
    using b by (simp add: RoutingTable_get_n_closest_def index_eval KBucket_get_nodeinfos_def KBucket_new_def)
  show "RoutingTable_get_n_closest_slow (small_rt ?bs) (small_key 4) 1 = Inr [contact 1]"
    using small_rt_all [of ?bs] by (simp add: RoutingTable_get_n_closest_slow_def RoutingTable_get_all_nodeinfos_def)
qed

end
