(* ===== verification/Node_Correctness.thy ===== *)
theory Node_Correctness
  imports Sample_Network
begin

text \<open>
  What the lookups of a node end with: the loop over rounds ends, \<open>find_node\<close> and
  \<open>join_network\<close> return sorted results without this node, or wait forever exactly where the own routing table
  has no room for a node that responded, and a storer returned by \<open>find_storer\<close> has claimed to hold the chunk.
\<close>

section \<open>Initial resolvers\<close>

lemma closest_contacts:
  assumes "rt_inv rt" "wf_key k" "0 < n"
  shows "(RoutingTable_get_n_closest rt k n = Ret (Inl AttempStoreSelf) \<and> k = rt_id rt) \<or>
    (RoutingTable_get_n_closest rt k n = Ret (Inl Empty) \<and> RoutingTable_get_all_nodeinfos rt = []) \<or>
    (\<exists>ms. RoutingTable_get_n_closest rt k n = Ret (Inr ms) \<and> length ms \<le> n \<and> distinct ms \<and>
       (ms = [] \<longrightarrow> RoutingTable_get_all_nodeinfos rt = []) \<and> (\<forall>m \<in> set ms. wf_node m \<and> ni_id m \<noteq> rt_id rt))"
proof (cases "k = rt_id rt")
  case True
  then show ?thesis
    using get_bucket_index_self [OF rt_invD(1) [OF assms(1)]] by (simp add: RoutingTable_get_n_closest_def)
next
  case False
  have other: "ni_id m \<noteq> rt_id rt" if "m \<in> set (RoutingTable_get_all_nodeinfos rt)" for m
  proof -
    from that obtain i where "i < NUM_BUCKETS" "m \<in> set (kb_nodes (rt_buckets rt ! i))"
      using rt_invD(2) [OF assms(1)]
      by (auto simp: RoutingTable_get_all_nodeinfos_def KBucket_get_nodeinfos_def
          in_set_conv_nth [of _ "rt_buckets rt"])
    then have "RoutingTable_get_bucket_index rt (ni_id m) = Inr i" "wf_key (ni_id m)"
      using assms(1) by (auto simp: rt_inv_def wf_node_def)
    then show ?thesis using get_bucket_index_bound(2) [OF rt_invD(1) [OF assms(1)]] by blast
  qed
  have "(RoutingTable_get_n_closest rt k n = Ret (Inl Empty) \<and> (n = 0 \<or> RoutingTable_get_all_nodeinfos rt = []))
    \<or> (\<exists>ms. RoutingTable_get_n_closest rt k n = Ret (Inr ms) \<and> sorted (map (dist_to k) ms) \<and>
         mset ms \<subseteq># mset (RoutingTable_get_all_nodeinfos rt) \<and>
         length ms = min n (length (RoutingTable_get_all_nodeinfos rt)))"
    by (rule get_n_closest_shape [OF assms(1,2) False])
  then show ?thesis
  proof (elim disjE exE conjE)
    fix ms
    assume ms: "RoutingTable_get_n_closest rt k n = Ret (Inr ms)"
      "mset ms \<subseteq># mset (RoutingTable_get_all_nodeinfos rt)" "length ms = min n (length (RoutingTable_get_all_nodeinfos rt))"
    have "distinct (RoutingTable_get_all_nodeinfos rt)"
      using all_nodes_distinct [OF assms(1)] by (simp add: distinct_map)
    then have "distinct ms" by (rule distinct_submset [OF ms(2)])
    then show ?thesis
      using ms assms(3) other all_nodes_wf [OF assms(1)] set_mset_mono [OF ms(2)] by (auto simp: min_def split: if_splits)
  qed (use assms(3) in auto)
qed

lemma ALPHA_pos: "0 < ALPHA" by (simp add: ALPHA_def)

lemma same_contacts_all:
  "same_contacts rt rt' \<Longrightarrow> RoutingTable_get_all_nodeinfos rt' = RoutingTable_get_all_nodeinfos rt"
  by (simp add: same_contacts_def RoutingTable_get_all_nodeinfos_def KBucket_get_nodeinfos_def [abs_def])

lemma lookup_closest_contacts:
  assumes "rt_inv rt" "wf_key k" "0 < n"
  shows "\<exists>r rt'. RoutingTable_lookup_get_n_closest now rt k n = Ret (r, rt') \<and> rt_inv rt' \<and> same_contacts rt rt' \<and>
    (case r of
       Inl e \<Rightarrow> e = AttempStoreSelf \<and> k = rt_id rt \<or> e = Empty \<and> RoutingTable_get_all_nodeinfos rt = []
     | Inr ms \<Rightarrow> distinct ms \<and> (ms = [] \<longrightarrow> RoutingTable_get_all_nodeinfos rt = []) \<and> (\<forall>m \<in> set ms. wf_node m \<and> ni_id m \<noteq> rt_id rt))"
  using rt_invD(1) [OF assms(1)] assms(2)
proof (cases rule: get_bucket_index_cases)
  case self
  then show ?thesis using assms(1) by (simp add: RoutingTable_lookup_get_n_closest_def same_contacts_def)
next
  case (bucket i)
  let ?rt = "rt\<lparr>rt_buckets := (rt_buckets rt)[i := KBucket_set_last_lookup_now now (rt_buckets rt ! i)]\<rparr>"
  have eq: "RoutingTable_lookup_get_n_closest now rt k n = bind_run (RoutingTable_get_n_closest ?rt k n) (\<lambda>r. Ret (r, ?rt))"
    using bucket rt_invD(2) [OF assms(1)] by (simp add: RoutingTable_lookup_get_n_closest_def Let_def)
  have "rt_inv ?rt"
    using rt_invD(3-5) [OF assms(1) bucket(3)] assms(1) bucket(3)
    by (intro rt_inv_update) (auto simp: KBucket_set_last_lookup_now_def kb_inv_def)
  moreover have same: "same_contacts rt ?rt"
    using nth_map [of i "rt_buckets rt" kb_nodes] bucket(3) rt_invD(2) [OF assms(1)]
    by (simp add: same_contacts_def KBucket_set_last_lookup_now_def map_update list_update_same_conv)
  ultimately show ?thesis using closest_contacts [of ?rt k n] assms(2,3) bucket(1)
    by (auto simp: eq same_contacts_all [OF same])
qed

section \<open>The lookup of a node\<close>

text \<open>All rounds of a node lookup, up to the update of the routing table.\<close>

lemma lookup_phase:
  assumes "await_ok env" "nd_inv nd" "\<forall>n \<in> set ns. wf_node n" "this \<notin> set ns"
  obtains cur b2 nd2 w2 b3 nd3 w3 where
    "Node_lookup_loop env target False (LookupBuffer_new target ns this) (nd, w) = Some (cur, b2, nd2, w2)"
    "Node_last_round env target b2 (nd2, w2) = (b3, nd3, w3)"
    "loop_inv nd (LookupBuffer_new target ns this) False nd3 b3" "nd_inv nd3" "same_but_map nd nd3"
proof -
  let ?b = "LookupBuffer_new target ns this"
  have start: "loop_inv nd ?b False nd ?b" by (rule loop_inv_start [OF assms(2-4)])
  obtain cur b2 nd2 w2 where lo: "Node_lookup_loop env target False ?b (nd, w) = Some (cur, b2, nd2, w2)"
    using lookup_loop_returns [OF assms(1) lb_inv_new, of target ns this] assms(3) by fastforce
  obtain b3 nd3 w3 where la: "Node_last_round env target b2 (nd2, w2) = (b3, nd3, w3)"
    by (cases "Node_last_round env target b2 (nd2, w2)")
  have "loop_inv nd ?b False nd3 b3"
    by (rule last_round_inv [OF la assms(1) lookup_loop_inv [OF lo assms(1) start]])
  then show thesis using that [OF lo la] by (simp add: loop_inv_def)
qed

section \<open>Properties\<close>

text \<open>
  Claim C5. Every lookup ends: from any buffer of well-formed contacts, whatever the contacted
  nodes answer and in whatever state the node is, the loop over rounds of \<open>join_network\<close>,
  \<open>find_node\<close> and \<open>find_storer\<close> returns, and the buffer still knows every contact it knew.
\<close>

theorem lookup_terminates:
  assumes "await_ok env" and "\<forall>n \<in> set ns. wf_node n"
  shows "\<exists>responses b nd' w'.
    Node_lookup_loop env target for_value (LookupBuffer_new target ns this) (nd, w) = Some (responses, b, nd', w') \<and>
    set ns \<subseteq> lb_known b \<and> (\<forall>n \<in> lb_known b. wf_node n)"
proof -
  have "lb_known (LookupBuffer_new target ns this) \<subseteq> {n. wf_node n}" using assms(2) by auto
  from lookup_loop_returns [OF assms(1) lb_inv_new this, of target for_value "(nd, w)"] show ?thesis
    by auto
qed

theorem lookup_terminates_witness:
  "\<exists>responses b nd' w'. Node_lookup_loop (reply_env lost_answer) (small_key 4) False
     (LookupBuffer_new (small_key 4) [contact 5, contact 6] (contact 0)) (sample_nd, ni_address (contact 0)) =
       Some (responses, b, nd', w') \<and> contact 6 \<in> lb_known b"
proof -
  have "\<forall>n \<in> set [contact 5, contact 6]. wf_node n" by simp
  from lookup_terminates [OF lost_answer_ok this] show ?thesis by fastforce
qed

text \<open>
  The nodes that answered the lookup of \<open>find_node\<close>, in the order in which it stores them: the same lookup, without
  the update of the routing table.
\<close>

definition find_node_responsive :: "('w, 'z) net_scheme \<Rightarrow> key \<Rightarrow> node \<Rightarrow> 'w \<Rightarrow> node_info list" where
  "find_node_responsive env target nd w =
     (let (now, w1) = net_now env w in
      case RoutingTable_lookup_get_alpha_closest now (nd_routing_table nd) target of
        Ret (Inr ns, rt) \<Rightarrow>
          if ns = [] then []
          else (case Node_lookup_loop env target False (LookupBuffer_new target ns (Node_to_node_info nd))
                       (nd\<lparr>nd_routing_table := rt\<rparr>, w1) of
                  None \<Rightarrow> []
                | Some (_, b, s) \<Rightarrow> LookupBuffer_get_responsive_nodes (fst (Node_last_round env target b s)))
      | _ \<Rightarrow> [])"

text \<open>\<open>find_node\<close> fails before it asks anyone, or runs a whole lookup and then stores the nodes that responded.\<close>

lemma find_node_shape:
  assumes "await_ok env" and "nd_inv nd" and "wf_key target"
  obtains (failed) e nd' w' where "Node_find_node env target nd w = Ret (Inl e, nd', w')" "nd_inv nd'"
      "e = ClosestFailed AttempStoreSelf \<and> target = nd_key nd \<or>
       (e = ClosestFailed Empty \<or> e = NoInitialResolvers) \<and> RoutingTable_get_all_nodeinfos (nd_routing_table nd) = []"
      "find_node_responsive env target nd w = []"
  | (found) nd1 ns b nd2 w2 where "distinct ns" "same_contacts (nd_routing_table nd) (nd_routing_table nd2)" "Node_to_node_info nd1 = Node_to_node_info nd"
      "loop_inv nd1 (LookupBuffer_new target ns (Node_to_node_info nd)) False nd2 b" "nd_inv nd2"
      "Node_find_node env target nd w =
         bind_run (store_all_and_warn env (LookupBuffer_get_responsive_nodes b) nd2 w2)
           (\<lambda>(nd', w'). Ret (Inr (LookupBuffer_get_resulting_vector b), nd', w'))"
      "find_node_responsive env target nd w = LookupBuffer_get_responsive_nodes b"
proof -
  obtain now w1 where now: "net_now env w = (now, w1)" by (cases "net_now env w")
  have rt: "rt_inv (nd_routing_table nd)" "rt_id (nd_routing_table nd) = nd_key nd"
    using assms(2) by (auto simp: nd_inv_def)
  obtain r rt' where l: "RoutingTable_lookup_get_alpha_closest now (nd_routing_table nd) target = Ret (r, rt')"
      "rt_inv rt'" "same_contacts (nd_routing_table nd) rt'"
    and r: "case r of
        Inl e \<Rightarrow> e = AttempStoreSelf \<and> target = nd_key nd \<or>
          e = Empty \<and> RoutingTable_get_all_nodeinfos (nd_routing_table nd) = []
      | Inr ms \<Rightarrow> distinct ms \<and> (ms = [] \<longrightarrow> RoutingTable_get_all_nodeinfos (nd_routing_table nd) = []) \<and> (\<forall>m \<in> set ms. wf_node m \<and> ni_id m \<noteq> nd_key nd)"
    using lookup_closest_contacts [OF rt(1) assms(3) ALPHA_pos, of now]
    unfolding RoutingTable_lookup_get_alpha_closest_def rt(2) by blast
  let ?nd1 = "nd\<lparr>nd_routing_table := rt'\<rparr>"
  have inv1: "nd_inv ?nd1" using assms(2) l by (simp add: nd_inv_def same_contacts_def)
  have me: "Node_to_node_info ?nd1 = Node_to_node_info nd" by (simp add: Node_to_node_info_def)
  consider (error) e where "r = Inl e" | (none) "r = Inr []" | (some) ns where "r = Inr ns" "ns \<noteq> []"
    by (cases r) auto
  then show thesis
  proof cases
    case (some ns)
    have ns: "distinct ns" "\<forall>n \<in> set ns. wf_node n" "Node_to_node_info nd \<notin> set ns"
      using r some by (auto simp: Node_to_node_info_def NodeInfo_new_def)
    let ?b = "LookupBuffer_new target ns (Node_to_node_info nd)"
    obtain cur b2 nd2 w2 b3 nd3 w3 where
      lo: "Node_lookup_loop env target False ?b (?nd1, w1) = Some (cur, b2, nd2, w2)"
      and la: "Node_last_round env target b2 (nd2, w2) = (b3, nd3, w3)"
      and inv3: "loop_inv ?nd1 ?b False nd3 b3" "nd_inv nd3" "same_but_map ?nd1 nd3"
      using lookup_phase [OF assms(1) inv1 ns(2,3), of target w1] .
    show thesis
      by (rule found [OF ns(1) _ me inv3(1,2)])
        (use same_but_map_simps(3) [OF inv3(3)] some in
          \<open>simp_all add: Node_find_node_def find_node_responsive_def now l lo la me\<close>)
  qed (use r failed inv1 l now in \<open>auto simp: Node_find_node_def find_node_responsive_def\<close>)
qed

lemma find_node_cases:
  assumes "await_ok env" and "nd_inv nd" and "wf_key target"
  shows "case Node_find_node env target nd w of
      Panicked \<Rightarrow> False
    | Blocked \<Rightarrow> crowded (nd_routing_table nd) (find_node_responsive env target nd w)
    | Ret (Inl e, nd', w') \<Rightarrow>
        (e = ClosestFailed AttempStoreSelf \<and> target = nd_key nd \<or>
         (e = ClosestFailed Empty \<or> e = NoInitialResolvers) \<and> RoutingTable_get_all_nodeinfos (nd_routing_table nd) = []) \<and>
        nd_inv nd' \<and> \<not> crowded (nd_routing_table nd) (find_node_responsive env target nd w)
    | Ret (Inr res, nd', w') \<Rightarrow>
        \<not> crowded (nd_routing_table nd) (find_node_responsive env target nd w) \<and>
        length res \<le> K \<and> distinct res \<and> sorted (map (\<lambda>n. Key_distance (ni_id n) target) res) \<and>
        Node_to_node_info nd \<notin> set res \<and> (\<forall>n \<in> set res. wf_node n) \<and> nd_inv nd'"
  using assms
proof (cases rule: find_node_shape [where w = w])
  case (failed e nd' w')
  then show ?thesis by simp
next
  case (found nd1 ns b nd2 w2)
  note res = loop_inv_result [OF found(4)]
  have "rt_inv (nd_routing_table nd)" using assms(2) by (simp add: nd_inv_def)
  then have "crowded (nd_routing_table nd2) (LookupBuffer_get_responsive_nodes b) =
      crowded (nd_routing_table nd) (find_node_responsive env target nd w)"
    using crowded_cong [OF found(2) rt_invD(1,2)] res(6) found(7) by simp
  then show ?thesis
    using store_all_and_warn_cases [OF found(5) res(6), of env w2] res(1-5) found(1) by (auto simp: found(6))
qed

text \<open>
  Claim C6. What \<open>find_node\<close> ends with, for a node in a consistent state and a well-formed target.
  It never panics. If it reports an error, the target is the node's own key, or the node's routing table
  has no contact at all. If it returns contacts, they are at most \<open>K\<close>, without repetition, in the order of
  their distance to the target, never this node itself, and the node is in a consistent state
  with no pending request. The only other outcome is that it waits forever, and it does so exactly when storing
  the nodes that answered this lookup, one after the other, in this node's own routing table meets a contact
  whose bucket already holds \<open>K\<close> other contacts.
\<close>

theorem find_node_outcome:
  assumes "await_ok env" and "nd_inv nd" and "wf_key target"
  shows "case Node_find_node env target nd w of
      Panicked \<Rightarrow> False
    | Blocked \<Rightarrow> crowded (nd_routing_table nd) (find_node_responsive env target nd w)
    | Ret (Inl e, nd', w') \<Rightarrow>
        (e = ClosestFailed AttempStoreSelf \<and> target = nd_key nd \<or>
         (e = ClosestFailed Empty \<or> e = NoInitialResolvers) \<and> RoutingTable_get_all_nodeinfos (nd_routing_table nd) = []) \<and>
        nd_inv nd' \<and> \<not> crowded (nd_routing_table nd) (find_node_responsive env target nd w)
    | Ret (Inr res, nd', w') \<Rightarrow>
        \<not> crowded (nd_routing_table nd) (find_node_responsive env target nd w) \<and>
        length res \<le> K \<and> distinct res \<and> sorted (map (\<lambda>n. Key_distance (ni_id n) target) res) \<and>
        Node_to_node_info nd \<notin> set res \<and> (\<forall>n \<in> set res. wf_node n) \<and> nd_inv nd'"
  by (rule find_node_cases [OF assms])

theorem find_node_outcome_witness:
  "case Node_find_node (reply_env lost_answer) (small_key 4) sample_nd (ni_address (contact 0)) of
      Panicked \<Rightarrow> False
    | Blocked \<Rightarrow> crowded (nd_routing_table sample_nd)
        (find_node_responsive (reply_env lost_answer) (small_key 4) sample_nd (ni_address (contact 0)))
    | Ret (Inl e, nd', w') \<Rightarrow>
        (e = ClosestFailed AttempStoreSelf \<and> small_key 4 = nd_key sample_nd \<or>
         (e = ClosestFailed Empty \<or> e = NoInitialResolvers) \<and>
         RoutingTable_get_all_nodeinfos (nd_routing_table sample_nd) = []) \<and> nd_inv nd' \<and>
        \<not> crowded (nd_routing_table sample_nd)
          (find_node_responsive (reply_env lost_answer) (small_key 4) sample_nd (ni_address (contact 0)))
    | Ret (Inr res, nd', w') \<Rightarrow>
        \<not> crowded (nd_routing_table sample_nd)
          (find_node_responsive (reply_env lost_answer) (small_key 4) sample_nd (ni_address (contact 0))) \<and>
        length res \<le> K \<and> distinct res \<and> sorted (map (\<lambda>n. Key_distance (ni_id n) (small_key 4)) res) \<and>
        Node_to_node_info sample_nd \<notin> set res \<and> (\<forall>n \<in> set res. wf_node n) \<and> nd_inv nd'"
  by (rule find_node_outcome [OF lost_answer_ok sample_nd_inv small_key_simps(1)])

lemma ping_returns:
  assumes "await_ok env" "nd_inv nd" "RoutingTable_get_nodeinfo (nd_routing_table nd) k = Ret (Inr (Some n))"
  obtains r nd' w' where "Node_ping env False k nd w = Ret (r, nd', w')" "nd_inv nd'" "same_but_map nd nd'"
    "r \<noteq> Inl PingMissingNode"
proof -
  obtain req w1 where q: "Request_new env Ping (Node_to_node_info nd) n w = (req, w1)"
    by (cases "Request_new env Ping (Node_to_node_info nd) n w")
  obtain r nd' w' where s: "Node_send_request_and_wait env req BASIC_REQUEST_TIMEOUT_MILLISECONDS nd w1 = (r, nd', w')"
    by (cases "Node_send_request_and_wait env req BASIC_REQUEST_TIMEOUT_MILLISECONDS nd w1")
  have "r \<noteq> Inl PingMissingNode"
    using s by (auto simp: Node_send_request_and_wait_def Let_def split: prod.splits sum.splits await_result.splits)
  then show thesis
    using that send_request_keeps [OF s assms(1,2)] assms(3) q s by (simp add: Node_ping_def)
qed

text \<open>
  The nodes that answered the lookup of \<open>join_network\<close>, and the two ways in which it meets a full bucket of the own
  routing table: storing the beacon, or, with the beacon in the table, storing the nodes that responded. The loop
  that stores them stops at the first one with the node's own key.
\<close>

definition join_responsive :: "('w, 'z) net_scheme \<Rightarrow> node_info \<Rightarrow> node \<Rightarrow> 'w \<Rightarrow> node_info list" where
  "join_responsive env beacon nd w = (case Node_store_nodeinfo env beacon nd w of
     Ret (Inr _, nd1, w1) \<Rightarrow> (case Node_ping env False (ni_id beacon) nd1 w1 of
       Ret (Inr _, nd2, w2) \<Rightarrow>
         let (lr, nd3, w3) = Node_single_lookup env (nd_key nd) beacon False nd2 w2;
             ns = filter (\<lambda>n. n \<noteq> Node_to_node_info nd) (lr_k_closest lr)
         in if lr_k_closest lr = [] then []
            else (case Node_lookup_loop env (nd_key nd) False (LookupBuffer_new (nd_key nd) ns (Node_to_node_info nd)) (nd3, w3) of
                    None \<Rightarrow> []
                  | Some (_, b, s) \<Rightarrow> LookupBuffer_get_responsive_nodes (fst (Node_last_round env (nd_key nd) b s)))
     | _ \<Rightarrow> [])
   | _ \<Rightarrow> [])"

definition join_stuck :: "('w, 'z) net_scheme \<Rightarrow> node_info \<Rightarrow> node \<Rightarrow> 'w \<Rightarrow> bool" where
  "join_stuck env beacon nd w \<longleftrightarrow> full_for (nd_routing_table nd) beacon \<or>
     crowded (place beacon (nd_routing_table nd)) (takeWhile (\<lambda>n. ni_id n \<noteq> nd_key nd) (join_responsive env beacon nd w))"

text \<open>
  After the beacon was stored, \<open>join_network\<close> fails with a consistent node, or runs a whole lookup
  of its own key and then stores the nodes that responded.
\<close>

lemma join_network_shape:
  assumes "await_ok env" and "ni_id beacon \<noteq> nd_key nd" and "nd_inv (nd\<lparr>nd_routing_table := rt1\<rparr>)"
    and "Node_store_nodeinfo env beacon nd w = Ret (Inr (), nd\<lparr>nd_routing_table := rt1\<rparr>, w)"
    and "RoutingTable_get_nodeinfo rt1 (ni_id beacon) = Ret (Inr (Some beacon))"
  obtains (failed) e nd' w' where "Node_join_network env beacon nd w = Ret (Inl e, nd', w')" "nd_inv nd'"
      "e \<noteq> BeaconUnavailable PingMissingNode" "e \<noteq> StoreBeaconFailed AttempStoreSelf" "join_responsive env beacon nd w = []"
  | (found) nd3 ns b nd5 w5 where "nd_key nd5 = nd_key nd" "nd_inv nd5"
      "loop_inv nd3 (LookupBuffer_new (nd_key nd) ns (Node_to_node_info nd)) False nd5 b"
      "Node_join_network env beacon nd w =
         bind_run (store_all_or_fail env (LookupBuffer_get_responsive_nodes b) nd5 w5) (\<lambda>(r6, nd6, w6). case r6 of
            Inl e \<Rightarrow> Ret (Inl (StoreResponsiveFailed e), nd6, w6)
          | Inr _ \<Rightarrow> Ret (Inr (LookupBuffer_get_resulting_vector b), nd6, w6))"
      "join_responsive env beacon nd w = LookupBuffer_get_responsive_nodes b" "nd_routing_table nd5 = rt1"
proof -
  let ?nd1 = "nd\<lparr>nd_routing_table := rt1\<rparr>"
  have get: "RoutingTable_get_nodeinfo (nd_routing_table ?nd1) (ni_id beacon) = Ret (Inr (Some beacon))"
    using assms(5) by simp
  obtain r2 nd2 w2 where p: "Node_ping env False (ni_id beacon) ?nd1 w = Ret (r2, nd2, w2)"
      "nd_inv nd2" "same_but_map ?nd1 nd2" "r2 \<noteq> Inl PingMissingNode"
    using ping_returns [OF assms(1,3) get, of w] .
  obtain lr nd3 w3 where sl: "Node_single_lookup env (nd_key nd2) beacon False nd2 w2 = (lr, nd3, w3)"
    by (cases "Node_single_lookup env (nd_key nd2) beacon False nd2 w2")
  note k3 = single_lookup_keeps [OF sl]
  have nd3: "nd_inv nd3" "same_but_map ?nd1 nd3" "\<forall>n \<in> set (lr_k_closest lr). wf_node n"
    using k3(2) [OF assms(1) p(2)] k3(3) [OF assms(1)] same_but_map_trans [OF p(3)] by auto
  have key2: "nd_key nd2 = nd_key nd" using same_but_map_simps(1) [OF p(3)] by simp
  have me: "nd_key nd3 = nd_key nd" "Node_to_node_info nd3 = Node_to_node_info nd"
    using same_but_map_simps(1,7) [OF nd3(2)] by (simp_all add: Node_to_node_info_def)
  consider (no_answer) e where "r2 = Inl e" | (no_nodes) x where "r2 = Inr x" "lr_k_closest lr = []"
    | (nodes) x where "r2 = Inr x" "lr_k_closest lr \<noteq> []" by (cases r2) auto
  then show thesis
  proof cases
    case nodes
    let ?ns = "filter (\<lambda>n. n \<noteq> Node_to_node_info nd) (lr_k_closest lr)"
    let ?b = "LookupBuffer_new (nd_key nd) ?ns (Node_to_node_info nd)"
    have ns: "\<forall>n \<in> set ?ns. wf_node n" "Node_to_node_info nd \<notin> set ?ns" using nd3(3) by auto
    obtain cur b4 nd4 w4 b5 nd5 w5 where
      lo: "Node_lookup_loop env (nd_key nd) False ?b (nd3, w3) = Some (cur, b4, nd4, w4)"
      and la: "Node_last_round env (nd_key nd) b4 (nd4, w4) = (b5, nd5, w5)"
      and inv5: "loop_inv nd3 ?b False nd5 b5" "nd_inv nd5" "same_but_map nd3 nd5"
      using lookup_phase [OF assms(1) nd3(1) ns, of "nd_key nd" w3] .
    show thesis
      by (rule found [OF _ inv5(2,1)])
        (use same_but_map_simps(1,3) [OF inv5(3)] same_but_map_simps(3) [OF nd3(2)] key2 me assms(4) p(1) sl nodes in
          \<open>simp_all add: Node_join_network_def join_responsive_def lo la\<close>)
  qed (use failed assms(4) p sl nd3(1) key2 in \<open>auto simp: Node_join_network_def join_responsive_def\<close>)
qed

lemma join_network_cases:
  assumes "await_ok env" and "nd_inv nd" and "wf_node beacon"
  shows "case Node_join_network env beacon nd w of
      Panicked \<Rightarrow> False
    | Blocked \<Rightarrow> join_stuck env beacon nd w
    | Ret (Inl e, nd', w') \<Rightarrow> \<not> join_stuck env beacon nd w \<and> nd_inv nd' \<and> e \<noteq> BeaconUnavailable PingMissingNode \<and>
        (ni_id beacon = nd_key nd \<longleftrightarrow> e = StoreBeaconFailed AttempStoreSelf)
    | Ret (Inr res, nd', w') \<Rightarrow> \<not> join_stuck env beacon nd w \<and> ni_id beacon \<noteq> nd_key nd \<and>
        length res \<le> K \<and> sorted (map (\<lambda>n. Key_distance (ni_id n) (nd_key nd)) res) \<and>
        Node_to_node_info nd \<notin> set res \<and> (\<forall>n \<in> set res. wf_node n) \<and> nd_inv nd'"
  using assms(2,3)
proof (cases rule: node_store_cases [where env = env and w = w])
  case self
  have "rt_inv (nd_routing_table nd)" "rt_id (nd_routing_table nd) = nd_key nd" using assms(2) by (auto simp: nd_inv_def)
  then have "RoutingTable_get_bucket_index (nd_routing_table nd) (ni_id beacon) = Inl AttempStoreSelf"
    using get_bucket_index_self [OF rt_invD(1)] self(1) by metis
  then show ?thesis using self assms(2)
    by (simp add: Node_join_network_def join_stuck_def join_responsive_def full_for_def)
next
  case blocked
  then show ?thesis by (simp add: Node_join_network_def join_stuck_def)
next
  case (stored rt1)
  from assms(1) stored(1,4,3,5) show ?thesis
  proof (cases rule: join_network_shape)
    case (failed e nd' w')
    then show ?thesis using stored(1,2) by (simp add: join_stuck_def)
  next
    case (found nd3 ns b nd5 w5)
    note res = loop_inv_result [OF found(3)]
    have "join_stuck env beacon nd w =
        crowded (nd_routing_table nd5) (takeWhile (\<lambda>n. ni_id n \<noteq> nd_key nd5) (LookupBuffer_get_responsive_nodes b))"
      using stored(2,7) found(1,5,6) by (simp add: join_stuck_def)
    then show ?thesis
      using store_all_or_fail_cases [OF found(2) res(6), of env w5] stored(1) res(1-4)
      by (auto simp: found(4))
  qed
qed

text \<open>
  Claim C7. What \<open>join_network\<close> ends with, from a consistent state and for a well-formed beacon.
  It never panics and never fails because the beacon is missing from the routing table. With its
  own contact as beacon it reports \<open>AttempStoreSelf\<close>. If it returns contacts, they are at most \<open>K\<close>,
  in the order of their distance to the node's own key, never the node itself, and the node is
  in a consistent state. It waits forever exactly when the beacon's bucket in this node's own routing table already
  holds \<open>K\<close> other contacts, or when storing, after the beacon, the nodes that answered the lookup meets such a
  bucket; then nothing is returned.
\<close>

theorem join_network_outcome:
  assumes "await_ok env" and "nd_inv nd" and "wf_node beacon"
  shows "case Node_join_network env beacon nd w of
      Panicked \<Rightarrow> False
    | Blocked \<Rightarrow> join_stuck env beacon nd w
    | Ret (Inl e, nd', w') \<Rightarrow> \<not> join_stuck env beacon nd w \<and> nd_inv nd' \<and> e \<noteq> BeaconUnavailable PingMissingNode \<and>
        (ni_id beacon = nd_key nd \<longleftrightarrow> e = StoreBeaconFailed AttempStoreSelf)
    | Ret (Inr res, nd', w') \<Rightarrow> \<not> join_stuck env beacon nd w \<and> ni_id beacon \<noteq> nd_key nd \<and>
        length res \<le> K \<and> sorted (map (\<lambda>n. Key_distance (ni_id n) (nd_key nd)) res) \<and>
        Node_to_node_info nd \<notin> set res \<and> (\<forall>n \<in> set res. wf_node n) \<and> nd_inv nd'"
  by (rule join_network_cases [OF assms])

theorem join_network_outcome_witness:
  "case Node_join_network (reply_env lost_answer) (contact 5) sample_nd (ni_address (contact 0)) of
      Panicked \<Rightarrow> False
    | Blocked \<Rightarrow> join_stuck (reply_env lost_answer) (contact 5) sample_nd (ni_address (contact 0))
    | Ret (Inl e, nd', w') \<Rightarrow> \<not> join_stuck (reply_env lost_answer) (contact 5) sample_nd (ni_address (contact 0)) \<and> nd_inv nd' \<and> e \<noteq> BeaconUnavailable PingMissingNode \<and>
        (ni_id (contact 5) = nd_key sample_nd \<longleftrightarrow> e = StoreBeaconFailed AttempStoreSelf)
    | Ret (Inr res, nd', w') \<Rightarrow> \<not> join_stuck (reply_env lost_answer) (contact 5) sample_nd (ni_address (contact 0)) \<and> ni_id (contact 5) \<noteq> nd_key sample_nd \<and>
        length res \<le> K \<and> sorted (map (\<lambda>n. Key_distance (ni_id n) (nd_key sample_nd)) res) \<and>
        Node_to_node_info sample_nd \<notin> set res \<and> (\<forall>n \<in> set res. wf_node n) \<and> nd_inv nd'"
  by (rule join_network_outcome [OF lost_answer_ok sample_nd_inv contact_simps(3)])

lemma value_round_origin:
  assumes "Node_lookup_round env target True ns s = (rs, s')" "find is_value_response rs = Some r"
  shows "\<exists>nd1 w1. is_value_response (fst (Node_single_lookup env target (lr_resolver r) True nd1 w1))"
proof -
  have "r \<in> set rs" "is_value_response r" using assms(2) by (auto simp: find_Some_iff)
  then show ?thesis using lookup_round_origin [OF assms(1)] by metis
qed

lemma lookup_loop_last_round:
  assumes "Node_lookup_loop env target b ns s = Some (cur, b2, nd2, w2)"
  shows "cur = [] \<or> (\<exists>ns s s'. Node_lookup_round env target b ns s = (cur, s'))"
  by (rule lookup_rounds_invariant [OF assms [unfolded Node_lookup_loop_def],
      where I = "\<lambda>cur _ _. cur = [] \<or> (\<exists>ns s s'. Node_lookup_round env target b ns s = (cur, s'))"
        and Q = "\<lambda>cur _ _. cur = [] \<or> (\<exists>ns s s'. Node_lookup_round env target b ns s = (cur, s'))"])
    (rule disjI1, rule refl, assumption, blast)

lemma find_storer_remote:
  assumes "Node_find_storer env target nd w = Ret (Inr storer, nd', w')" "net_read_ok env w = (ok, w1)"
    and "ShardStorageManager_read_chunk ok target (nd_storage nd) (nd_disk nd) = Inl e"
  shows "\<exists>ns s rs s' r. Node_lookup_round env target True ns s = (rs, s') \<and>
    find is_value_response rs = Some r \<and> storer = lr_resolver r"
proof -
  note fs = assms(1) [unfolded Node_find_storer_def, simplified assms(2,3) Let_def prod.case sum.case]
  obtain r1 where r1: "RoutingTable_get_alpha_closest (nd_routing_table nd) target = Ret r1"
    using fs by (auto simp: bind_run_Ret_iff)
  obtain ns where ns: "r1 = Inr ns" "ns \<noteq> []" using fs r1 by (cases r1) (auto split: if_splits)
  let ?loop = "Node_lookup_loop env target True (LookupBuffer_new target ns (Node_to_node_info nd)) (nd, w1)"
  obtain cur b2 nd2 w2 where lo: "?loop = Some (cur, b2, nd2, w2)"
    using fs r1 ns by (cases ?loop) (auto simp: split_paired_all)
  show ?thesis
  proof (cases "find is_value_response cur")
    case None
    let ?round = "Node_lookup_round env target True (LookupBuffer_get_unqueried_resulting_nodes b2) (nd2, w2)"
    obtain rs nd3 w3 where rd: "?round = (rs, nd3, w3)" by (cases ?round)
    have "\<exists>r. find is_value_response rs = Some r \<and> storer = lr_resolver r"
      using fs r1 ns lo None rd by (cases "find is_value_response rs") (auto split: if_splits)
    then show ?thesis using rd by blast
  next
    case (Some r)
    then have "storer = lr_resolver r" "cur \<noteq> []" using fs r1 ns lo by auto
    then show ?thesis using lookup_loop_last_round [OF lo] Some by blast
  qed
qed

text \<open>
  Claim C27. A storer found for a chunk is one that claims to have it: when \<open>find_storer\<close> returns a
  contact, it is this node and the file of the chunk is on its disk, or it is a contact whose
  answer to a \<open>FIND_VALUE\<close> request for this chunk was \<open>HAS_VALUE\<close>.
\<close>

theorem find_storer_sound:
  assumes "Node_find_storer env target nd w = Ret (Inr storer, nd', w')"
  shows "storer = Node_to_node_info nd \<and> nd_disk nd (chunk_path (nd_storage nd) target) \<noteq> None \<or>
    (\<exists>nd1 w1. is_value_response (fst (Node_single_lookup env target storer True nd1 w1)))"
proof -
  obtain ok w1 where ok: "net_read_ok env w = (ok, w1)" by (cases "net_read_ok env w")
  show ?thesis
  proof (cases "ShardStorageManager_read_chunk ok target (nd_storage nd) (nd_disk nd)")
    case (Inr data)
    then show ?thesis using assms ok
      by (auto simp: Node_find_storer_def ShardStorageManager_read_chunk_def split: option.splits)
  next
    case (Inl e)
    then show ?thesis using find_storer_remote [OF assms ok] value_round_origin by blast
  qed
qed

definition found_answer :: "socket_addr \<Rightarrow> response_type" where
  "found_answer a = HasValue (small_key 4)"

lemma found_storer:
  "Node_find_storer (reply_env found_answer) (small_key 4) sample_nd w =
     Ret (Inr (contact 5), sample_nd, ni_address (contact 6))"
proof -
  have "\<exists>b. Node_lookup_loop (reply_env found_answer) (small_key 4) True
    (LookupBuffer_new (small_key 4) [contact 5, contact 6] (contact 0)) (sample_nd, w) =
    Some ([LookupResponse_new_value_successful (contact 5), LookupResponse_new_value_successful (contact 6)],
      b, sample_nd, ni_address (contact 6))"
    unfolding Node_lookup_loop_def
    apply (subst lookup_rounds.simps)
    apply (simp add: lookup_eval Node_lookup_round_def single_lookup_reply sample_me sample_map found_answer_def)
    apply (subst lookup_rounds.simps)
    apply (simp add: lookup_eval Node_lookup_round_def single_lookup_reply sample_me sample_map found_answer_def)
    done
  moreover have "nd_routing_table sample_nd = sample_rt" "nd_disk sample_nd = Map.empty"
    by (simp_all add: sample_nd_def sample_rt_def small_nd_def Node_new_def)
  moreover have "net_read_ok (reply_env found_answer) w = (True, w)" by (simp add: reply_env_def)
  ultimately show ?thesis
    by (auto simp: Node_find_storer_def ShardStorageManager_read_chunk_def sample_closest sample_me
       is_value_response_def LookupResponse_new_value_successful_def)
qed

theorem find_storer_sound_witness:
  "contact 5 = Node_to_node_info sample_nd \<and> nd_disk sample_nd (chunk_path (nd_storage sample_nd) (small_key 4)) \<noteq> None \<or>
    (\<exists>nd1 w1. is_value_response (fst (Node_single_lookup (reply_env found_answer) (small_key 4) (contact 5) True nd1 w1)))"
  by (rule find_storer_sound [OF found_storer [of "ni_address (contact 0)"]])

end
