(* ===== verification/Routing_Correctness.thy ===== *)
theory Routing_Correctness
  imports Sample_Network
begin


text \<open>Claim C29. \<open>get_bucket_index\<close> partitions the keys by distance: bucket \<open>i\<close> is exactly for
  the keys at a distance from \<open>2 ^ i\<close> to below \<open>2 ^ (i + 1)\<close>; the node's own key, and only it, is
  refused with \<open>AttempStoreSelf\<close>; \<open>BucketNotFoundForId\<close> is never returned. So the distances of
  bucket \<open>i\<close> have \<open>159 - i\<close> leading zeroes, not \<open>i\<close> as the comment on \<open>KBucket\<close> in
  \<open>routing/kbucket.rs\<close> has it.\<close>

theorem bucket_index_partition:
  assumes "wf_key (rt_id rt)" "wf_key k"
  shows "(RoutingTable_get_bucket_index rt k = Inr i \<longleftrightarrow>
      2 ^ i \<le> dist_num (rt_id rt) k \<and> dist_num (rt_id rt) k < 2 ^ Suc i) \<and>
    (RoutingTable_get_bucket_index rt k = Inl e \<longleftrightarrow> e = AttempStoreSelf \<and> k = rt_id rt) \<and>
    (RoutingTable_get_bucket_index rt k = Inr i \<longrightarrow> i < 160 \<and> Key_leading_zeros_in_distance (rt_id rt) k = 159 - i)"
proof -
  have "RoutingTable_get_bucket_index rt k = Inl e \<longleftrightarrow> e = AttempStoreSelf \<and> k = rt_id rt"
    using assms by (cases rule: get_bucket_index_cases) auto
  moreover have "i < 160 \<and> Key_leading_zeros_in_distance (rt_id rt) k = 159 - i" if "RoutingTable_get_bucket_index rt k = Inr i"
    using get_bucket_index_bound(1) [OF assms that] that
    by (auto simp: const_defs RoutingTable_get_bucket_index_def Let_def split: if_split_asm)
  ultimately show ?thesis using get_bucket_index_iff [OF assms] by blast
qed

theorem bucket_index_partition_witness:
  "RoutingTable_get_bucket_index sample_rt (small_key 0) = Inl AttempStoreSelf \<and>
   (RoutingTable_get_bucket_index sample_rt (small_key 6) = Inr 2 \<longleftrightarrow>
      2 ^ 2 \<le> dist_num (rt_id sample_rt) (small_key 6) \<and> dist_num (rt_id sample_rt) (small_key 6) < 2 ^ Suc 2)"
  using bucket_index_partition [of sample_rt "small_key 0" 0 AttempStoreSelf]
    bucket_index_partition [of sample_rt "small_key 6" 2 AttempStoreSelf]
  by (simp add: sample_rt_def) (simp add: small_rt_def)

lemma sample_rt_room:
  "RoutingTable_get_bucket_index sample_rt (ni_id (contact 4)) = Inr 2"
  "length (others (contact 4) (rt_buckets sample_rt ! 2)) < K"
  "2 < NUM_BUCKETS"
  by (simp_all add: sample_rt_def index_eval small_rt_buckets others_def const_defs)

text \<open>Claim C16. The invariant of the routing table: 160 buckets, each with at most \<open>K\<close> contacts
  of distinct identifiers, every contact in the bucket its distance selects. A new table has it,
  and storing one contact, storing several, and a lookup, which stamps a bucket, keep it and the
  table's own key, whatever the ping of a full bucket returns.\<close>

theorem routing_table_invariant:
  assumes "wf_key k" "rt_inv rt" "wf_node n" "\<forall>n \<in> set ns. wf_node n"
  shows "rt_inv (RoutingTable_new now k) \<and>
    (RoutingTable_store_nodeinfo ping n rt w = Ret (r, rt', w') \<longrightarrow> rt_inv rt' \<and> rt_id rt' = rt_id rt) \<and>
    (RoutingTable_store_nodeinfo_multiple ping ns rt w = Ret (r, rt', w') \<longrightarrow>
       rt_inv rt' \<and> rt_id rt' = rt_id rt) \<and>
    (RoutingTable_lookup_get_n_closest now rt k m = Ret (l, rt') \<longrightarrow> rt_inv rt' \<and> rt_id rt' = rt_id rt)"
  using rt_inv_new [OF assms(1), of now] rt_inv_store [OF assms(2,3), of ping w r rt' w']
    rt_inv_store_multiple [OF assms(2,4), of ping w r rt' w'] rt_inv_lookup [OF assms(2,1), of now m l rt']
  by blast

theorem routing_table_invariant_witness:
  "\<exists>rt'. RoutingTable_store_nodeinfo (\<lambda>k w. Blocked) (contact 4) sample_rt () = Ret (Inr (), rt', ()) \<and> rt_inv rt'"
proof -
  obtain rt' where st: "RoutingTable_store_nodeinfo (\<lambda>k w. Blocked) (contact 4) sample_rt () = Ret (Inr (), rt', ())"
    using store_nodeinfo_space [OF sample_rt_inv sample_rt_room(1,3,2), of "\<lambda>k w. Blocked" "()"] by blast
  have "\<forall>n \<in> set []. wf_node n" by simp
  from routing_table_invariant [OF _ sample_rt_inv _ this, of "small_key 0" "contact 4" 0 "\<lambda>k w. Blocked" "()" "Inr ()" rt' "()"]
  have "rt_inv rt'" using st by (simp only: small_key_simps contact_simps simp_thms)
  with st show ?thesis by blast
qed

text \<open>Storing then looking up: when the bucket of a contact has room, storing it
  succeeds, the table then returns exactly this contact for its identifier, and what it returns
  for any other identifier has not changed.\<close>

lemma store_then_lookup:
  assumes "rt_inv rt" "wf_node n" "RoutingTable_get_bucket_index rt (ni_id n) = Inr i"
    and "length (others n (rt_buckets rt ! i)) < K"
  shows "\<exists>rt'. RoutingTable_store_nodeinfo ping n rt w = Ret (Inr (), rt', w) \<and> rt_inv rt' \<and>
    RoutingTable_get_nodeinfo rt' (ni_id n) = Ret (Inr (Some n)) \<and>
    (\<forall>k. wf_key k \<and> k \<noteq> ni_id n \<longrightarrow> RoutingTable_get_nodeinfo rt' k = RoutingTable_get_nodeinfo rt k)"
proof -
  have i: "i < NUM_BUCKETS"
    using get_bucket_index_bound(1) [OF rt_invD(1) [OF assms(1)] _ assms(3)] assms(2)
    by (simp add: wf_node_def)
  obtain rt' where st: "RoutingTable_store_nodeinfo ping n rt w = Ret (Inr (), rt', w)"
    using store_nodeinfo_space [OF assms(1,3) i assms(4), of ping w] by blast
  show ?thesis
    using st rt_inv_store(1) [OF assms(1,2) st] store_then_get [OF assms(1-3) i assms(4) st] by blast
qed



text \<open>Claim C18. The two-sided bucket search agrees with the reference search that sorts every
  contact of the table, whenever the key's own bucket already holds enough contacts or the whole
  table holds no more than were asked for. The comment on \<open>get_n_closest\<close> says of the first of these cases that not all
  of the contacts returned are closest; the code returns the closest ones there, sorted, and it is in the other case, where
  the comment guarantees them, that it can miss one.\<close>

theorem get_n_closest_reference:
  assumes "rt_inv rt" "wf_key k" "RoutingTable_get_bucket_index rt k = Inr j" "0 < n"
    and "n \<le> length (kb_nodes (rt_buckets rt ! j)) \<or> length (RoutingTable_get_all_nodeinfos rt) \<le> n"
  shows "RoutingTable_get_n_closest rt k n = Ret (RoutingTable_get_n_closest_slow rt k n)"
  by (rule get_n_closest_exact [OF assms])

theorem get_n_closest_reference_witness:
  "RoutingTable_get_n_closest sample_rt (small_key 4) 2 = Ret (RoutingTable_get_n_closest_slow sample_rt (small_key 4) 2)"
  using get_n_closest_reference [OF sample_rt_inv, of "small_key 4" 2 2] sample_all
  by (simp add: sample_rt_def index_eval)

text \<open>Claim C30. The keys drawn for a refresh: with a clock that has not gone back, there is one
  key for each bucket whose last lookup is an hour or more ago, in the order of the buckets, and
  each key falls in its bucket. A bucket stamped after the current time makes the call panic.\<close>

theorem refresh_ids_cover_stale_buckets:
  assumes "rt_inv rt" "\<And>i. length (rng i) = K"
  shows "((\<forall>b \<in> set (rt_buckets rt). kb_last_lookup_at b \<le> now) \<longrightarrow>
      (\<exists>ks. RoutingTable_get_node_ids_for_refresh now rng rt = Ret ks \<and>
         map (RoutingTable_get_bucket_index rt) ks =
         map Inr (filter (\<lambda>i. 3600 \<le> (now - kb_last_lookup_at (rt_buckets rt ! i)) div 10 ^ 9) [0..<160]))) \<and>
    ((\<exists>b \<in> set (rt_buckets rt). now < kb_last_lookup_at b) \<longrightarrow>
      RoutingTable_get_node_ids_for_refresh now rng rt = Panicked)"
proof -
  have "RoutingTable_get_bucket_index rt (RoutingTable_get_random_id_for_bucket rt (rng i) i) = Inr i"
    if "i < NUM_BUCKETS" for i
    using random_id_bucket [OF rt_invD(1) [OF assms(1)] assms(2) that] .
  then show ?thesis
    using rt_invD(2) [OF assms(1)]
    by (auto simp: RoutingTable_get_node_ids_for_refresh_def KBucket_get_last_lookup_def const_defs)
qed

theorem refresh_ids_cover_stale_buckets_witness:
  "\<exists>ks. RoutingTable_get_node_ids_for_refresh (10 ^ 13) (\<lambda>i. replicate 20 9) (small_rt []) = Ret ks \<and> length ks = 160"
proof -
  have inv: "rt_inv (small_rt [])" by (rule small_rt_inv) simp_all
  have b: "rt_buckets (small_rt []) = replicate 160 (KBucket_new 0)" by (simp add: small_rt_def)
  have f: "filter (\<lambda>i. 3600 \<le> (10 ^ 13 - kb_last_lookup_at (rt_buckets (small_rt []) ! i)) div 10 ^ 9) [0..<160] = [0..<160]"
    by (auto simp: filter_id_conv b KBucket_new_def)
  obtain ks where ks: "RoutingTable_get_node_ids_for_refresh (10 ^ 13) (\<lambda>i. replicate 20 9) (small_rt []) = Ret ks"
      "map (RoutingTable_get_bucket_index (small_rt [])) ks = map Inr [0..<160]"
    using refresh_ids_cover_stale_buckets [OF inv, of "\<lambda>i. replicate 20 9" "10 ^ 13", unfolded f]
    by (auto simp: K_def b KBucket_new_def)
  from ks(2) have "length ks = 160" by (auto dest: arg_cong [where f = length])
  with ks(1) show ?thesis by blast
qed

end
