(* ===== verification/Request_Handler.thy ===== *)
theory Request_Handler
  imports Sample_Network
begin

text \<open>
  \<open>core/request_handler.rs\<close> and the receive workers of \<open>core/node.rs\<close>: a datagram is parsed as
  a response or a request; a request for this node first records its sender in the routing
  table and is then answered by the handler of its type. Answers go through the dispatcher, so
  what a handler did is visible in the state of the outside world. A task spawned by a handler
  is returned and run by \<open>run_spawned\<close>.
\<close>

section \<open>Definitions\<close>

datatype spawned = ReceiveUpload tcp_listener_service

definition record_possible_neighbour ::
  "('w, 'z) net_scheme \<Rightarrow> node_info \<Rightarrow> node \<Rightarrow> 'w \<Rightarrow> (node \<times> 'w) run" where
  "record_possible_neighbour env n nd w =
     bind_run (Node_store_nodeinfo env n nd w) (\<lambda>(r, nd', w'). Ret (nd', w'))"

definition handle_ping_message :: "('w, 'z) net_scheme \<Rightarrow> node_info \<Rightarrow> request \<Rightarrow> 'w \<Rightarrow> 'w" where
  "handle_ping_message env me request w =
     snd (MessageDispatcher_send_response env
       (Response_new Pong me (rq_sender request) (rq_request_id request)) w)"

definition handle_find_node_message ::
  "('w, 'z) net_scheme \<Rightarrow> node_info \<Rightarrow> request \<Rightarrow> key \<Rightarrow> node \<Rightarrow> 'w \<Rightarrow> 'w run" where
  "handle_find_node_message env me request target nd w =
     bind_run (RoutingTable_get_k_closest (nd_routing_table nd) target) (\<lambda>r.
       case r of
         Inl e \<Rightarrow> Ret w
       | Inr closest_nodes \<Rightarrow>
           (case ResponseType_new_nodes closest_nodes of
              Inl _ \<Rightarrow> Panicked
            | Inr rt \<Rightarrow> Ret (snd (MessageDispatcher_send_response env
                (Response_new rt me (rq_sender request) (rq_request_id request)) w))))"

definition handle_find_value_message ::
  "('w, 'z) net_scheme \<Rightarrow> node_info \<Rightarrow> request \<Rightarrow> key \<Rightarrow> node \<Rightarrow> 'w \<Rightarrow> 'w run" where
  "handle_find_value_message env me request target nd w =
     (if \<not> ShardStorageManager_is_chunk_already_stored target (nd_storage nd)
      then handle_find_node_message env me request target nd w
      else Ret (snd (MessageDispatcher_send_response env
             (Response_new (HasValue target) me (rq_sender request) (rq_request_id request)) w)))"

definition handle_get_value ::
  "('w, 'z) net_scheme \<Rightarrow> request \<Rightarrow> key \<Rightarrow> u16 \<Rightarrow> node \<Rightarrow> 'w \<Rightarrow> 'w" where
  "handle_get_value env request chunk_id port nd w =
     (let (read_ok, w1) = net_read_ok env w in
      case ShardStorageManager_read_chunk read_ok chunk_id (nd_storage nd) (nd_disk nd) of
        Inl e \<Rightarrow> w1
      | Inr data \<Rightarrow> snd (net_tcp_send env (SocketAddr_ip (ni_address (rq_sender request))) port data w1))"

definition handle_store_message ::
  "('w, 'z) net_scheme \<Rightarrow> node_info \<Rightarrow> request \<Rightarrow> key \<Rightarrow> node \<Rightarrow> 'w \<Rightarrow> node \<times> 'w" where
  "handle_store_message env me request file_id nd w =
     (if \<not> ShardStorageManager_is_chunk_already_stored file_id (nd_storage nd)
      then (nd, snd (MessageDispatcher_send_response env
             (Response_new StoreOK me (rq_sender request) (rq_request_id request)) w))
      else let (now, w1) = net_now env w;
               (_, storage) = ShardStorageManager_update_chunk_upload_time now file_id (nd_storage nd)
           in (nd\<lparr>nd_storage := storage\<rparr>, snd (MessageDispatcher_send_response env
                (Response_new StoreChunkUpdated me (rq_sender request) (rq_request_id request)) w1)))"

definition handle_get_port_message ::
  "('w, 'z) net_scheme \<Rightarrow> node_info \<Rightarrow> request \<Rightarrow> key \<Rightarrow> node \<Rightarrow> 'w \<Rightarrow> spawned list \<times> node \<times> 'w" where
  "handle_get_port_message env me request file_id nd w =
     (case TcpListenerService_new env w of
        (Inl e, w1) \<Rightarrow> ([], nd, w1)
      | (Inr tcp_listener_service, w1) \<Rightarrow>
          let port = TcpListenerService_get_port tcp_listener_service;
              (previous, storage) = ShardStorageManager_add_active_tcp_connection port
                (rq_sender request) file_id (nd_storage nd);
              nd1 = nd\<lparr>nd_storage := storage\<rparr>
          in case previous of
               Some _ \<Rightarrow> ([], nd1, w1)
             | None \<Rightarrow>
                 (case MessageDispatcher_send_response env
                    (Response_new (PortOK port) me (rq_sender request) (rq_request_id request)) w1 of
                    (Inl _, w2) \<Rightarrow> ([], nd1, w2)
                  | (Inr _, w2) \<Rightarrow> ([ReceiveUpload tcp_listener_service], nd1, w2)))"

definition handle_tcp_upload ::
  "('w, 'z) net_scheme \<Rightarrow> bytes \<Rightarrow> u16 \<Rightarrow> node \<Rightarrow> 'w \<Rightarrow> node \<times> 'w" where
  "handle_tcp_upload env data port nd w =
     (let (now, w1) = net_now env w;
          (create_ok, w2) = net_create_ok env w1;
          (wr, w3) = net_write env w2;
          (_, storage, disk) = ShardStorageManager_store_chunk_for_known_peer now create_ok wr data port
             (nd_storage nd) (nd_disk nd)
      in (nd\<lparr>nd_storage := storage, nd_disk := disk\<rparr>, w3))"

text \<open>The task spawned by \<open>handle_get_port_message\<close>.\<close>

fun run_spawned :: "('w, 'z) net_scheme \<Rightarrow> spawned \<Rightarrow> node \<Rightarrow> 'w \<Rightarrow> node \<times> 'w" where
  "run_spawned env (ReceiveUpload tcp_listener_service) nd w =
     (case TcpListenerService_receive_data env tcp_listener_service w of
        (Inr data, w1) \<Rightarrow>
          handle_tcp_upload env data (TcpListenerService_get_port tcp_listener_service) nd w1
      | (Inl e, w1) \<Rightarrow> (nd, w1))"

text \<open>The \<open>match\<close> on the type of a request, then the router around it.\<close>

definition dispatch_request ::
  "('w, 'z) net_scheme \<Rightarrow> node_info \<Rightarrow> request \<Rightarrow> node \<Rightarrow> 'w \<Rightarrow> (spawned list \<times> node \<times> 'w) run" where
  "dispatch_request env me request nd w =
     (case rq_request_type request of
        Ping \<Rightarrow> Ret ([], nd, handle_ping_message env me request w)
      | FindNode node_id \<Rightarrow>
          bind_run (handle_find_node_message env me request node_id nd w) (\<lambda>w'. Ret ([], nd, w'))
      | Store chunk_id \<Rightarrow> Ret ([], handle_store_message env me request chunk_id nd w)
      | GetPort chunk_id \<Rightarrow> Ret (handle_get_port_message env me request chunk_id nd w)
      | FindValue chunk_id \<Rightarrow>
          bind_run (handle_find_value_message env me request chunk_id nd w) (\<lambda>w'. Ret ([], nd, w'))
      | GetValue chunk_id port \<Rightarrow> Ret ([], nd, handle_get_value env request chunk_id port nd w))"

definition handle_received_request ::
  "('w, 'z) net_scheme \<Rightarrow> node_info \<Rightarrow> request \<Rightarrow> node \<Rightarrow> 'w \<Rightarrow> (spawned list \<times> node \<times> 'w) run" where
  "handle_received_request env me request nd0 w0 =
     (if ni_id (rq_receiver request) \<noteq> ni_id me then Ret ([], nd0, w0)
      else bind_run (record_possible_neighbour env (rq_sender request) nd0 w0) (\<lambda>(nd, w).
        dispatch_request env me request nd w))"

text \<open>
  One message of a receive worker of \<open>start_listening\<close>; the JSON parsers are parameters. A
  response goes to the request map; its channel is named by the first component.
\<close>

definition process_message ::
  "('w, 'z) net_scheme \<Rightarrow> (bytes \<Rightarrow> response option) \<Rightarrow> (bytes \<Rightarrow> request option) \<Rightarrow> bytes \<Rightarrow> node \<Rightarrow> 'w \<Rightarrow>
     (request_id option \<times> spawned list \<times> node \<times> 'w) run" where
  "process_message env parse_response parse_request data nd w =
     (case parse_response data of
        Some response \<Rightarrow>
          let (channel, m) = RequestMap_handle_response response (nd_request_map nd)
          in Ret (channel, [], nd\<lparr>nd_request_map := m\<rparr>, w)
      | None \<Rightarrow>
          (case parse_request data of
             Some request \<Rightarrow>
               bind_run (handle_received_request env (Node_to_node_info nd) request nd w)
                 (\<lambda>(tasks, nd', w'). Ret (None, tasks, nd', w'))
           | None \<Rightarrow> Ret (None, [], nd, w)))"

text \<open>A worker that processes a queue of datagrams; it stops with the first that blocks or panics.\<close>

fun serve ::
  "('w, 'z) net_scheme \<Rightarrow> (bytes \<Rightarrow> response option) \<Rightarrow> (bytes \<Rightarrow> request option) \<Rightarrow> bytes list \<Rightarrow> node \<Rightarrow> 'w \<Rightarrow>
     (spawned list \<times> node \<times> 'w) run" where
  "serve env pr pq [] nd w = Ret ([], nd, w)"
| "serve env pr pq (data # rest) nd w =
     bind_run (process_message env pr pq data nd w) (\<lambda>(channel, tasks, nd1, w1).
       bind_run (serve env pr pq rest nd1 w1) (\<lambda>(tasks', nd2, w2). Ret (tasks @ tasks', nd2, w2)))"

section \<open>What handlers keep\<close>

text \<open>A parsed request holds 20-byte keys.\<close>

definition request_wf :: "request \<Rightarrow> bool" where
  "request_wf r \<longleftrightarrow> wf_node (rq_sender r) \<and> (case rq_request_type r of
     Ping \<Rightarrow> True | FindNode k \<Rightarrow> wf_key k | FindValue k \<Rightarrow> wf_key k | Store k \<Rightarrow> wf_key k
   | GetPort k \<Rightarrow> wf_key k | GetValue k p \<Rightarrow> wf_key k)"

abbreviation nd_contents :: "node \<Rightarrow> key \<Rightarrow> bytes option" where
  "nd_contents nd \<equiv> ss_contents (nd_storage nd, nd_disk nd)"

lemma nd_inv_storage:
  "nd_inv nd \<Longrightarrow> ss_inv (storage, d) \<Longrightarrow> nd_inv (nd\<lparr>nd_storage := storage, nd_disk := d\<rparr>)"
  "nd_inv nd \<Longrightarrow> ss_inv (storage, nd_disk nd) \<Longrightarrow> nd_inv (nd\<lparr>nd_storage := storage\<rparr>)"
  by (auto simp: nd_inv_def)

text \<open>The closest contacts never exceed \<open>K\<close>, so the \<open>unwrap\<close> of the response type succeeds.\<close>

lemma get_k_closest_cases:
  assumes "nd_inv nd" "wf_key target"
  obtains (failed) e where "RoutingTable_get_k_closest (nd_routing_table nd) target = Ret (Inl e)"
      "target = nd_key nd \<or> Node_get_routing_table_content nd = []"
  | (nodes) ns where "RoutingTable_get_k_closest (nd_routing_table nd) target = Ret (Inr ns)"
      "target \<noteq> nd_key nd" "length ns = min K (length (Node_get_routing_table_content nd))"
      "set ns \<subseteq> set (Node_get_routing_table_content nd)"
      "sorted (map (\<lambda>n. Key_distance (ni_id n) target) ns)"
proof -
  have rt: "rt_inv (nd_routing_table nd)" "rt_id (nd_routing_table nd) = nd_key nd"
    using assms(1) by (auto simp: nd_inv_def)
  show thesis
  proof (cases "target = nd_key nd")
    case True
    then show thesis
      using failed [of AttempStoreSelf] get_bucket_index_self [OF rt_invD(1) [OF rt(1)]] rt(2)
      by (simp add: RoutingTable_get_k_closest_def RoutingTable_get_n_closest_def)
  next
    case False
    then show thesis
      using get_n_closest_shape [OF rt(1) assms(2), of K] rt(2) failed [of Empty] nodes
      by (auto simp: RoutingTable_get_k_closest_def Node_get_routing_table_content_def K_def
          dest: set_mset_mono)
  qed
qed

lemma handle_find_node_returns:
  assumes "nd_inv nd" "wf_key target"
  shows "\<exists>w'. handle_find_node_message env me request target nd w = Ret w'"
  using assms
proof (cases rule: get_k_closest_cases)
  case (failed e)
  then show ?thesis by (simp add: handle_find_node_message_def)
next
  case (nodes ns)
  then show ?thesis by (simp add: handle_find_node_message_def ResponseType_new_nodes_def)
qed

lemma handle_store_keeps:
  assumes "nd_inv nd" "handle_store_message env me request h nd w = (nd', w')"
  shows "nd_inv nd' \<and> nd_contents nd' = nd_contents nd \<and> nd_routing_table nd' = nd_routing_table nd"
proof -
  have inv: "ss_inv (nd_storage nd, nd_disk nd)" using assms(1) by (simp add: nd_inv_def)
  obtain now w1 where n: "net_now env w = (now, w1)" by (cases "net_now env w")
  obtain r st where u: "ShardStorageManager_update_chunk_upload_time now h (nd_storage nd) = (r, st)"
    by (cases "ShardStorageManager_update_chunk_upload_time now h (nd_storage nd)")
  show ?thesis
    using assms ss_inv_update_time [OF inv u] nd_inv_storage(2) [OF assms(1), of st]
    by (auto simp: handle_store_message_def n u split: if_splits)
qed

lemma handle_get_port_keeps:
  assumes "nd_inv nd" "wf_key h" "handle_get_port_message env me request h nd w = (tasks, nd', w')"
  shows "nd_inv nd' \<and> nd_contents nd' = nd_contents nd \<and> nd_routing_table nd' = nd_routing_table nd"
proof -
  have inv: "ss_inv (nd_storage nd, nd_disk nd)" using assms(1) by (simp add: nd_inv_def)
  show ?thesis
  proof (cases "TcpListenerService_new env w")
    case (Pair p w1)
    show ?thesis
    proof (cases p)
      case (Inr srv)
      define port where "port = TcpListenerService_get_port srv"
      obtain prev st where a: "ShardStorageManager_add_active_tcp_connection port (rq_sender request) h (nd_storage nd) = (prev, st)"
        by (cases "ShardStorageManager_add_active_tcp_connection port (rq_sender request) h (nd_storage nd)")
      have "nd' = nd\<lparr>nd_storage := st\<rparr>"
        using assms(3) Pair Inr a
        by (auto simp: handle_get_port_message_def Let_def port_def split: option.splits prod.splits sum.splits)
      then show ?thesis
        using announce_laws(1,2) [OF inv assms(2) a] nd_inv_storage(2) [OF assms(1)] by simp
    qed (use assms Pair in \<open>simp add: handle_get_port_message_def\<close>)
  qed
qed

lemma dispatch_request_keeps:
  assumes "nd_inv nd" "request_wf request"
  shows "\<exists>tasks nd' w'. dispatch_request env me request nd w = Ret (tasks, nd', w') \<and> nd_inv nd' \<and>
    nd_contents nd' = nd_contents nd \<and> nd_routing_table nd' = nd_routing_table nd"
proof (cases "rq_request_type request")
  case (FindNode k)
  then show ?thesis
    using handle_find_node_returns [OF assms(1), of k env me request w] assms
    by (auto simp: request_wf_def dispatch_request_def)
next
  case (FindValue k)
  then show ?thesis
    using handle_find_node_returns [OF assms(1), of k env me request w] assms
    by (auto simp: request_wf_def dispatch_request_def handle_find_value_message_def)
next
  case (Store k)
  then show ?thesis
    using handle_store_keeps [OF assms(1), of env me request k w]
    by (cases "handle_store_message env me request k nd w") (simp add: dispatch_request_def)
next
  case (GetPort k)
  then show ?thesis
    using handle_get_port_keeps [OF assms(1), of k env me request w] assms(2)
    by (cases "handle_get_port_message env me request k nd w")
      (simp add: dispatch_request_def request_wf_def)
qed (use assms in \<open>simp_all add: dispatch_request_def\<close>)

section \<open>A full routing table\<close>

text \<open>Twenty contacts in the bucket of the keys from 128 to 255.\<close>

definition crowd :: "node_info list" where
  "crowd = map contact [128, 129, 130, 131, 132, 133, 134, 135, 136, 137,
     138, 139, 140, 141, 142, 143, 144, 145, 146, 147]"

definition crowded_nd :: node where
  "crowded_nd = small_nd [[], [], [], [], [], [], [], crowd]"

lemma crowded_rt_inv: "rt_inv (small_rt [[], [], [], [], [], [], [], crowd])"
  by (rule small_rt_inv) (simp_all add: crowd_def K_def index_eval)

lemma crowded_nd_inv: "nd_inv crowded_nd"
  unfolding crowded_nd_def by (rule small_nd_inv [OF crowded_rt_inv])

lemma crowded_full: "full_for (nd_routing_table crowded_nd) (contact 200)"
  by (simp add: full_for_def crowded_nd_def small_nd_def small_rt_buckets index_eval crowd_def K_def)

lemma crowded_me: "Node_to_node_info crowded_nd = contact 0" "nd_key crowded_nd = small_key 0"
  by (simp_all add: Node_to_node_info_def crowded_nd_def small_nd_def Node_new_def contact_def NodeInfo_new_def)

section \<open>Properties\<close>

lemma request_handler_cases:
  assumes "nd_inv nd" and "request_wf request" and "me = Node_to_node_info nd"
  shows "if ni_id (rq_receiver request) \<noteq> ni_id me
     then handle_received_request env me request nd w = Ret ([], nd, w)
     else case handle_received_request env me request nd w of
         Panicked \<Rightarrow> False
       | Blocked \<Rightarrow> full_for (nd_routing_table nd) (rq_sender request)
       | Ret (tasks, nd', w') \<Rightarrow> \<not> full_for (nd_routing_table nd) (rq_sender request) \<and>
           nd_inv nd' \<and> nd_contents nd' = nd_contents nd \<and>
           (ni_id (rq_sender request) \<noteq> nd_key nd \<longrightarrow>
              RoutingTable_get_nodeinfo (nd_routing_table nd') (ni_id (rq_sender request)) =
                Ret (Inr (Some (rq_sender request)))) \<and>
           (\<forall>k. wf_key k \<and> k \<noteq> ni_id (rq_sender request) \<longrightarrow>
              RoutingTable_get_nodeinfo (nd_routing_table nd') k = RoutingTable_get_nodeinfo (nd_routing_table nd) k)"
proof (cases "ni_id (rq_receiver request) = ni_id me")
  case True
  have key: "wf_node (rq_sender request)" using assms(2) by (simp add: request_wf_def)
  from assms(1) key show ?thesis
  proof (cases rule: node_store_cases [where env = env and w = w])
    case self
    have "\<not> full_for (nd_routing_table nd) (rq_sender request)"
      using self(1) assms(1) get_bucket_index_self [of "nd_routing_table nd"]
      by (auto simp: full_for_def nd_inv_def rt_inv_def)
    then show ?thesis
      using dispatch_request_keeps [OF assms(1,2), of env me w] self True
      by (auto simp: handle_received_request_def record_possible_neighbour_def)
  next
    case blocked
    then show ?thesis
      using True by (simp add: handle_received_request_def record_possible_neighbour_def)
  next
    case (stored rt')
    then show ?thesis
      using dispatch_request_keeps [OF stored(4) assms(2), of env me w] True
      by (auto simp: handle_received_request_def record_possible_neighbour_def)
  qed
qed (simp add: handle_received_request_def)

text \<open>
  Claim C8. What handling a request ends with, for a node in a consistent state: a request for
  another node changes nothing and sends nothing. A request for this node never panics. It waits
  forever exactly when the bucket of its sender is full of other contacts. Otherwise the handler
  returns, the node is consistent again, its stored chunks are unchanged, the sender can be
  looked up in the routing table (unless it carries this node's key) and no other entry of the
  table has changed.
\<close>

theorem request_handler_outcome:
  assumes "nd_inv nd" and "request_wf request" and "me = Node_to_node_info nd"
  shows "if ni_id (rq_receiver request) \<noteq> ni_id me
     then handle_received_request env me request nd w = Ret ([], nd, w)
     else case handle_received_request env me request nd w of
         Panicked \<Rightarrow> False
       | Blocked \<Rightarrow> full_for (nd_routing_table nd) (rq_sender request)
       | Ret (tasks, nd', w') \<Rightarrow> \<not> full_for (nd_routing_table nd) (rq_sender request) \<and>
           nd_inv nd' \<and> nd_contents nd' = nd_contents nd \<and>
           (ni_id (rq_sender request) \<noteq> nd_key nd \<longrightarrow>
              RoutingTable_get_nodeinfo (nd_routing_table nd') (ni_id (rq_sender request)) =
                Ret (Inr (Some (rq_sender request)))) \<and>
           (\<forall>k. wf_key k \<and> k \<noteq> ni_id (rq_sender request) \<longrightarrow>
              RoutingTable_get_nodeinfo (nd_routing_table nd') k = RoutingTable_get_nodeinfo (nd_routing_table nd) k)"
  by (rule request_handler_cases [OF assms])

definition sample_request :: "request_type \<Rightarrow> node_info \<Rightarrow> request" where
  "sample_request rt sender = \<lparr>rq_request_type = rt, rq_sender = sender, rq_receiver = contact 0, rq_request_id = 3\<rparr>"

theorem request_handler_outcome_witness:
  "case handle_received_request (reply_env lost_answer) (contact 0) (sample_request (FindNode (small_key 4)) (contact 9))
       sample_nd (ni_address (contact 0)) of
     Panicked \<Rightarrow> False
   | Blocked \<Rightarrow> full_for (nd_routing_table sample_nd) (contact 9)
   | Ret (tasks, nd', w') \<Rightarrow> RoutingTable_get_nodeinfo (nd_routing_table nd') (small_key 9) = Ret (Inr (Some (contact 9)))"
proof -
  have wf: "request_wf (sample_request (FindNode (small_key 4)) (contact 9))"
    by (simp add: request_wf_def sample_request_def)
  have "nd_key sample_nd = small_key 0" by (simp add: sample_nd_def small_nd_def Node_new_def)
  with request_handler_outcome [OF sample_nd_inv wf sample_me [symmetric], of "reply_env lost_answer" "ni_address (contact 0)"]
  show ?thesis by (simp add: sample_request_def split: run.splits prod.splits)
qed

lemma full_bucket_blocks:
  assumes "nd_inv nd" and "wf_node n" and "full_for (nd_routing_table nd) n"
  shows "Node_store_nodeinfo env n nd w = Blocked"
  using assms(1,2)
proof (cases rule: node_store_cases [where env = env and w = w])
  case self
  then show ?thesis
    using assms(1,3) get_bucket_index_self [of "nd_routing_table nd"]
    by (auto simp: full_for_def nd_inv_def rt_inv_def)
qed (use assms(3) in simp_all)

lemma full_bucket_message:
  assumes "nd_inv nd" and "wf_node (rq_sender request)" and "ni_id (rq_receiver request) = nd_key nd"
    and "full_for (nd_routing_table nd) (rq_sender request)"
    and "parse_response data = None" and "parse_request data = Some request"
  shows "process_message env parse_response parse_request data nd w = Blocked"
  using full_bucket_blocks [OF assms(1,2,4), of env w] assms(3,5,6)
  by (simp add: process_message_def handle_received_request_def record_possible_neighbour_def
      Node_to_node_info_def NodeInfo_new_def)

text \<open>
  A full bucket stops the node. When the bucket of the sender of a request for this
  node is full of other contacts, storing the sender pings the least recently seen contact of the
  bucket while the routing table is locked for writing, and the ping waits for a read lock on the
  same table: the receive worker never finishes this message nor any message behind it, and
  \<open>join_network\<close> through such a contact never returns either.
\<close>

lemma full_bucket_deadlock:
  assumes "nd_inv nd" and "wf_node (rq_sender request)" and "ni_id (rq_receiver request) = nd_key nd"
    and "full_for (nd_routing_table nd) (rq_sender request)"
    and "parse_response data = None" and "parse_request data = Some request"
  shows "serve env parse_response parse_request (data # rest) nd w = Blocked \<and>
    Node_join_network env (rq_sender request) nd w = Blocked"
  using full_bucket_message [where parse_response = parse_response and parse_request = parse_request and data = data and
      env = env and w = w, OF assms] full_bucket_blocks [OF assms(1,2,4), of env w]
  by (simp add: Node_join_network_def)

text \<open>
  Claim C33. From sixteen contacts on, \<open>FIND_NODE\<close> goes unanswered: the JSON text of the response is
  then longer than \<open>MAX_MESSAGE_SIZE\<close>, the dispatcher refuses it, and no datagram is sent at all.
\<close>

theorem find_node_unanswered:
  assumes "nd_inv nd" and "wf_key target" and "target \<noteq> nd_key nd" and "wf_node (rq_sender request)"
    and "json_response_spec (env_json_response env)"
    and "16 \<le> length (Node_get_routing_table_content nd)"
  shows "handle_find_node_message env (Node_to_node_info nd) request target nd w = Ret w"
  using assms(1,2)
proof (cases rule: get_k_closest_cases)
  case (nodes ns)
  let ?resp = "Response_new (Nodes ns) (Node_to_node_info nd) (rq_sender request) (rq_request_id request)"
  have "wf_node (Node_to_node_info nd)"
    using nd_inv_wf [OF assms(1)] by (simp add: wf_node_def Node_to_node_info_def NodeInfo_new_def)
  moreover have "\<forall>n \<in> set ns. wf_node n"
    using nodes(4) all_nodes_wf assms(1) by (auto simp: nd_inv_def Node_get_routing_table_content_def)
  ultimately have "\<exists>e. MessageDispatcher_send_response env ?resp w = (Inl e, w)"
    using assms(4,6) nodes(3)
    by (intro send_response_too_large [OF assms(5)]) (auto simp: Response_new_def K_def)
  then show ?thesis
    using nodes by (auto simp: handle_find_node_message_def ResponseType_new_nodes_def)
qed (use assms(3,6) in auto)

definition verbose_env :: "socket_addr net" where
  "verbose_env = (reply_env lost_answer)\<lparr>env_json_response := (\<lambda>r. case rs_response_type r of
     Nodes ns \<Rightarrow> Some (replicate (68 * (length ns + 2)) 0) | _ \<Rightarrow> Some [])\<rparr>"

theorem find_node_unanswered_witness:
  "handle_find_node_message verbose_env (contact 0) (sample_request (FindNode (small_key 4)) (contact 130))
     (small_key 4) crowded_nd (ni_address (contact 9)) = Ret (ni_address (contact 9))"
proof -
  have spec: "json_response_spec (env_json_response verbose_env)"
    by (simp add: json_response_spec_def verbose_env_def json_node_min_def)
  have "16 \<le> length (Node_get_routing_table_content crowded_nd)"
    by (simp add: Node_get_routing_table_content_def crowded_nd_def small_nd_def small_rt_all crowd_def)
  from find_node_unanswered [OF crowded_nd_inv small_key_simps(1) _ _ spec this,
      of 4 "sample_request (FindNode (small_key 4)) (contact 130)" "ni_address (contact 9)"]
  show ?thesis by (simp add: crowded_me sample_request_def)
qed

lemma chunk_transfer_ok:
  assumes "nd_inv nd" and "wf_key h"
    and "handle_get_port_message env me request h nd w = ([ReceiveUpload srv], nd1, w1)"
    and "TcpListenerService_receive_data env srv w1 = (Inr data, w2)"
    and "\<And>w. fst (net_create_ok env w)" and "\<And>w. fst (net_write env w) = WriteOk"
    and "length data \<le> ENCRYPTED_CHUNK_SIZE_B"
    and "HashMap_len (ss_owned_chunks (nd_storage nd)) < MAX_SHARDS_STORED"
    and "nd_disk nd (chunk_path (nd_storage nd) h) = None"
  shows "\<exists>nd2 w3. run_spawned env (ReceiveUpload srv) nd1 w1 = (nd2, w3) \<and> nd_inv nd2 \<and>
    (\<forall>request w. handle_find_value_message env me request h nd2 w =
       Ret (snd (MessageDispatcher_send_response env
         (Response_new (HasValue h) me (rq_sender request) (rq_request_id request)) w))) \<and>
    (\<forall>request p w. fst (net_read_ok env w) \<longrightarrow> handle_get_value env request h p nd2 w =
       snd (net_tcp_send env (SocketAddr_ip (ni_address (rq_sender request))) p data (snd (net_read_ok env w)))) \<and>
    (\<forall>h'. h' \<noteq> h \<longrightarrow> nd_contents nd2 h' = nd_contents nd h') \<and> nd_contents nd2 h = Some data"
proof -
  have inv: "ss_inv (nd_storage nd, nd_disk nd)" using assms(1) by (simp add: nd_inv_def)
  define port where "port = TcpListenerService_get_port srv"
  obtain st where a: "ShardStorageManager_add_active_tcp_connection port (rq_sender request) h (nd_storage nd) = (None, st)"
    and nd1: "nd1 = nd\<lparr>nd_storage := st\<rparr>"
    using assms(3) by (auto simp: handle_get_port_message_def Let_def port_def split: option.splits prod.splits sum.splits)
  have inv1: "ss_inv (st, nd_disk nd)" by (rule announce_laws(1) [OF inv assms(2) a])
  have st: "st = (nd_storage nd)\<lparr>ss_data_transfers_table :=
      HashMap_put port \<lparr>dt_sender = rq_sender request, dt_chunk_hash = h\<rparr> (ss_data_transfers_table (nd_storage nd))\<rparr>"
    using a by (auto simp: ShardStorageManager_add_active_tcp_connection_def storage_defs Let_def)
  have t: "DataTransfersTable_get port (ss_data_transfers_table st) = Some \<lparr>dt_sender = rq_sender request, dt_chunk_hash = h\<rparr>"
    using inv by (simp add: st DataTransfersTable_get_def ss_inv_def)
  have path: "chunk_path st h = chunk_path (nd_storage nd) h" by (simp add: st chunk_path_def)
  obtain now w3 where n: "net_now env w2 = (now, w3)" by (cases "net_now env w2")
  obtain w4 where c: "net_create_ok env w3 = (True, w4)" using assms(5) [of w3] by (cases "net_create_ok env w3") simp
  obtain w5 where wr: "net_write env w4 = (WriteOk, w5)" using assms(6) [of w4] by (cases "net_write env w4") simp
  let ?store = "ShardStorageManager_store_chunk_for_known_peer now True WriteOk data port st (nd_disk nd)"
  have "fst ?store = Inr ()"
    using t assms(7-9) memory_check_passes [of st data] inv1
    by (simp add: ShardStorageManager_store_chunk_for_known_peer_def Let_def path ss_inv_def) (simp add: st)
  then obtain m2 d2 where s: "?store = (Inr (), m2, d2)" by (cases ?store) auto
  define nd2 where "nd2 = nd1\<lparr>nd_storage := m2, nd_disk := d2\<rparr>"
  have run: "run_spawned env (ReceiveUpload srv) nd1 w1 = (nd2, w5)"
    using assms(4) n c wr s by (simp add: handle_tcp_upload_def nd1 nd2_def port_def)
  have up: "(\<lambda>(m, d). ShardStorageManager_is_chunk_already_stored h m) (m2, d2) \<and>
      (\<lambda>(m, d). ShardStorageManager_read_chunk True h m d) (m2, d2) = Inr data \<and>
      (\<forall>h'. h' \<noteq> h \<longrightarrow> ss_contents (m2, d2) h' = nd_contents nd h')"
    by (rule ss.upload_then_read [OF inv assms(2), of now True WriteOk data port "rq_sender request" "()"])
      (use a s in simp)
  have "nd_inv nd2"
    using ss.put_ok [OF inv1, of now True WriteOk data port "()" "(m2, d2)"] s nd_inv_storage(1) [OF assms(1)]
    by (simp add: nd2_def nd1)
  moreover have "ss_contents (m2, d2) h = Some data"
    using up by (auto simp: ss_contents_def ShardStorageManager_read_chunk_def split: option.splits)
  ultimately show ?thesis using run up
    by (intro exI [of _ nd2] exI [of _ w5])
      (auto simp: nd2_def handle_find_value_message_def handle_get_value_def split: prod.splits)
qed

text \<open>
  Claim C17. Storing and serving a chunk, end to end at the storer. After a \<open>GET_PORT\<close> request for
  hash \<open>h\<close> was answered with a port, and data of admissible size arrives on it while there is room
  for a chunk and no file of that name, the node ends in a consistent state in which every
  \<open>FIND_VALUE\<close> request for \<open>h\<close> is answered with \<open>HAS_VALUE\<close>, every \<open>GET_VALUE\<close> request
  transfers exactly the data received, and all other stored chunks are as before.
\<close>

theorem chunk_transfer_served:
  assumes "nd_inv nd" and "wf_key h"
    and "handle_get_port_message env me request h nd w = ([ReceiveUpload srv], nd1, w1)"
    and "TcpListenerService_receive_data env srv w1 = (Inr data, w2)"
    and "\<And>w. fst (net_create_ok env w)" and "\<And>w. fst (net_write env w) = WriteOk"
    and "length data \<le> ENCRYPTED_CHUNK_SIZE_B"
    and "HashMap_len (ss_owned_chunks (nd_storage nd)) < MAX_SHARDS_STORED"
    and "nd_disk nd (chunk_path (nd_storage nd) h) = None"
  shows "\<exists>nd2 w3. run_spawned env (ReceiveUpload srv) nd1 w1 = (nd2, w3) \<and> nd_inv nd2 \<and>
    (\<forall>request w. handle_find_value_message env me request h nd2 w =
       Ret (snd (MessageDispatcher_send_response env
         (Response_new (HasValue h) me (rq_sender request) (rq_request_id request)) w))) \<and>
    (\<forall>request p w. fst (net_read_ok env w) \<longrightarrow> handle_get_value env request h p nd2 w =
       snd (net_tcp_send env (SocketAddr_ip (ni_address (rq_sender request))) p data (snd (net_read_ok env w)))) \<and>
    (\<forall>h'. h' \<noteq> h \<longrightarrow> nd_contents nd2 h' = nd_contents nd h')"
  using chunk_transfer_ok [OF assms] by blast

theorem chunk_transfer_served_witness:
  "\<exists>nd2. run_spawned (reply_env lost_answer) (ReceiveUpload \<lparr>tl_listener = 0, tl_port = 9\<rparr>)
     (sample_nd\<lparr>nd_storage := snd (ShardStorageManager_add_active_tcp_connection 9 (contact 5) (small_key 4) (nd_storage sample_nd))\<rparr>)
     (ni_address (contact 5)) = (nd2, ni_address (contact 5)) \<and> nd_inv nd2 \<and>
     handle_find_value_message (reply_env lost_answer) (contact 0) (sample_request (FindValue (small_key 4)) (contact 6))
       (small_key 4) nd2 (ni_address (contact 9)) = Ret (ni_address (contact 6))"
proof -
  have st: "nd_storage sample_nd = ShardStorageManager_new ''store''" "nd_disk sample_nd = Map.empty"
    by (simp_all add: sample_nd_def small_nd_def Node_new_def)
  have env: "TcpListenerService_new (reply_env lost_answer) w = (Inr \<lparr>tl_listener = 0, tl_port = 9\<rparr>, w)"
    "TcpListenerService_receive_data (reply_env lost_answer) p w = (Inr [], w)"
    "fst (net_create_ok (reply_env lost_answer) w)" "fst (net_write (reply_env lost_answer) w) = WriteOk"
    "env_json_response (reply_env lost_answer) r = Some []" "env_udp_send (reply_env lost_answer) bs a w = (Some 0, a)"
    for w p r bs a by (simp_all add: reply_env_def TcpListenerService_new_def TcpListenerService_receive_data_def)
  have port: "handle_get_port_message (reply_env lost_answer) (contact 0) (sample_request (GetPort (small_key 4)) (contact 5))
      (small_key 4) sample_nd (ni_address (contact 0)) =
      ([ReceiveUpload \<lparr>tl_listener = 0, tl_port = 9\<rparr>], sample_nd\<lparr>nd_storage := snd (ShardStorageManager_add_active_tcp_connection 9 (contact 5)
        (small_key 4) (nd_storage sample_nd))\<rparr>, ni_address (contact 5))"
    by (simp add: handle_get_port_message_def env st storage_eval sample_request_def TcpListenerService_get_port_def MessageDispatcher_send_response_def
        Response_new_def)
  have room: "HashMap_len (ss_owned_chunks (nd_storage sample_nd)) < MAX_SHARDS_STORED"
    by (simp add: st ShardStorageManager_new_def HashMap_new_def HashMap_len_def MAX_SHARDS_STORED_def)
  from chunk_transfer_served [OF sample_nd_inv small_key_simps(1) port env(2,3,4) _ room]
  obtain nd2 w3 where r: "run_spawned (reply_env lost_answer) (ReceiveUpload \<lparr>tl_listener = 0, tl_port = 9\<rparr>)
     (sample_nd\<lparr>nd_storage := snd (ShardStorageManager_add_active_tcp_connection 9 (contact 5) (small_key 4) (nd_storage sample_nd))\<rparr>)
     (ni_address (contact 5)) = (nd2, w3)" "nd_inv nd2"
     "\<And>request w. handle_find_value_message (reply_env lost_answer) (contact 0) request (small_key 4) nd2 w =
       Ret (snd (MessageDispatcher_send_response (reply_env lost_answer)
         (Response_new (HasValue (small_key 4)) (contact 0) (rq_sender request) (rq_request_id request)) w))"
    by (auto simp: st)
  have "w3 = ni_address (contact 5)"
    using r(1) by (simp add: env handle_tcp_upload_def TcpListenerService_get_port_def split: prod.splits) (simp add: reply_env_def)
  with r show ?thesis
    by (auto simp: MessageDispatcher_send_response_def env sample_request_def Response_new_def)
qed

end
