(* ===== verification/Listener.thy ===== *)
theory Listener
  imports Request_Handler
begin

text \<open>
  \<open>Node::start_listening\<close> as a step relation: one task reads datagrams into a bounded queue, four
  workers take them out and process them, spawned tasks receive uploads. A message is processed
  in one step on the shared node; a worker that waits for the routing table for ever keeps its
  message. Clients of the node are left out here; their interplay with the workers through the
  request map is in \<open>Request_Map\<close>.
\<close>

section \<open>Definitions\<close>

definition RECEIVE_WORKER_TASK_COUNT :: nat where "RECEIVE_WORKER_TASK_COUNT = 4"

definition QUEUE_CAPACITY :: nat where "QUEUE_CAPACITY = 100"

type_synonym datagram = "bytes \<times> socket_addr"

datatype reader = Receiving | Enqueueing datagram

datatype receive_worker = AwaitingMessage | Handling datagram | Stuck datagram | Crashed datagram

text \<open>
  \<open>li_table_locked\<close>: a task holds the write lock of the routing table and will never release it.
  \<open>li_received\<close> and \<open>li_handled\<close> record what was read from the socket and what was processed.
\<close>

record 'w listener =
  li_reader :: reader
  li_queue :: "datagram list"
  li_workers :: "receive_worker list"
  li_table_locked :: bool
  li_spawned :: "spawned list"
  li_node :: node
  li_world :: 'w
  li_received :: "datagram list"
  li_handled :: "datagram list"

definition start_listening :: "node \<Rightarrow> 'w \<Rightarrow> 'w listener" where
  "start_listening nd w =
     \<lparr>li_reader = Receiving, li_queue = [], li_workers = replicate RECEIVE_WORKER_TASK_COUNT AwaitingMessage,
      li_table_locked = False, li_spawned = [], li_node = nd, li_world = w, li_received = [], li_handled = []\<rparr>"

text \<open>A request for this node records its sender, for which it locks the routing table.\<close>

definition locks_table :: "(bytes \<Rightarrow> response option) \<Rightarrow> (bytes \<Rightarrow> request option) \<Rightarrow> bytes \<Rightarrow> node \<Rightarrow> bool" where
  "locks_table pr pq data nd = (case pr data of
      Some _ \<Rightarrow> False
    | None \<Rightarrow> (case pq data of None \<Rightarrow> False | Some q \<Rightarrow> ni_id (rq_receiver q) = ni_id (Node_to_node_info nd)))"

inductive listen_step ::
  "('w, 'z) net_scheme \<Rightarrow> (bytes \<Rightarrow> response option) \<Rightarrow> (bytes \<Rightarrow> request option) \<Rightarrow> 'w listener \<Rightarrow> 'w listener \<Rightarrow> bool"
  for env pr pq where
  receive: "li_reader s = Receiving \<Longrightarrow> m = (take MAX_MESSAGE_SIZE datagram, src) \<Longrightarrow>
    listen_step env pr pq s (s\<lparr>li_reader := Enqueueing m, li_received := li_received s @ [m]\<rparr>)"
| enqueue: "li_reader s = Enqueueing m \<Longrightarrow> length (li_queue s) < QUEUE_CAPACITY \<Longrightarrow>
    listen_step env pr pq s (s\<lparr>li_reader := Receiving, li_queue := li_queue s @ [m]\<rparr>)"
| dequeue: "i < length (li_workers s) \<Longrightarrow> li_workers s ! i = AwaitingMessage \<Longrightarrow> li_queue s = m # rest \<Longrightarrow>
    listen_step env pr pq s (s\<lparr>li_queue := rest, li_workers := (li_workers s)[i := Handling m]\<rparr>)"
| handled: "i < length (li_workers s) \<Longrightarrow> li_workers s ! i = Handling m \<Longrightarrow>
    \<not> (li_table_locked s \<and> locks_table pr pq (fst m) (li_node s)) \<Longrightarrow>
    process_message env pr pq (fst m) (li_node s) (li_world s) = Ret (channel, tasks, nd', w') \<Longrightarrow>
    listen_step env pr pq s (s\<lparr>li_workers := (li_workers s)[i := AwaitingMessage], li_spawned := li_spawned s @ tasks,
      li_node := nd', li_world := w', li_handled := li_handled s @ [m]\<rparr>)"
| blocked: "i < length (li_workers s) \<Longrightarrow> li_workers s ! i = Handling m \<Longrightarrow> \<not> li_table_locked s \<Longrightarrow>
    process_message env pr pq (fst m) (li_node s) (li_world s) = Blocked \<Longrightarrow>
    listen_step env pr pq s (s\<lparr>li_workers := (li_workers s)[i := Stuck m], li_table_locked := True\<rparr>)"
| waiting: "i < length (li_workers s) \<Longrightarrow> li_workers s ! i = Handling m \<Longrightarrow> li_table_locked s \<Longrightarrow>
    locks_table pr pq (fst m) (li_node s) \<Longrightarrow>
    listen_step env pr pq s (s\<lparr>li_workers := (li_workers s)[i := Stuck m]\<rparr>)"
| panicked: "i < length (li_workers s) \<Longrightarrow> li_workers s ! i = Handling m \<Longrightarrow>
    \<not> (li_table_locked s \<and> locks_table pr pq (fst m) (li_node s)) \<Longrightarrow>
    process_message env pr pq (fst m) (li_node s) (li_world s) = Panicked \<Longrightarrow>
    listen_step env pr pq s (s\<lparr>li_workers := (li_workers s)[i := Crashed m]\<rparr>)"
| upload: "j < length (li_spawned s) \<Longrightarrow> run_spawned env (li_spawned s ! j) (li_node s) (li_world s) = (nd', w') \<Longrightarrow>
    listen_step env pr pq s (s\<lparr>li_spawned := take j (li_spawned s) @ drop (Suc j) (li_spawned s),
      li_node := nd', li_world := w'\<rparr>)"


section \<open>What processing keeps\<close>

lemma process_message_cases:
  assumes "nd_inv nd" "\<And>q. pq data = Some q \<Longrightarrow> request_wf q"
  shows "case process_message env pr pq data nd w of
      Panicked \<Rightarrow> False
    | Blocked \<Rightarrow> locks_table pr pq data nd
    | Ret (channel, tasks, nd', w') \<Rightarrow> nd_inv nd'"
proof (cases "pr data")
  case (Some r)
  have "nd_inv (nd\<lparr>nd_request_map := snd (RequestMap_handle_response r (nd_request_map nd))\<rparr>)"
    using assms(1) by (simp add: nd_inv_def request_map_defs RequestMap_handle_response_def split: option.split)
  then show ?thesis by (simp add: process_message_def Some case_prod_unfold Let_def)
next
  case None
  show ?thesis
  proof (cases "pq data")
    case (Some q)
    note rh = request_handler_cases [OF assms(1) assms(2) [OF Some] refl, of env w]
    show ?thesis
      using rh assms(1) None Some
      by (cases "handle_received_request env (Node_to_node_info nd) q nd w")
        (auto simp: process_message_def locks_table_def split: if_split_asm)
  qed (use None assms(1) in \<open>simp add: process_message_def\<close>)
qed

lemma store_chunk_keeps:
  assumes "ss_inv (m, d)" "ShardStorageManager_store_chunk_for_known_peer now ok wr data port m d = (r, m', d')"
  shows "ss_inv (m', d')"
  using assms
proof (cases rule: store_chunk_cases)
  case (accepted t)
  show ?thesis by (rule ss_accepted(1) [OF assms(1) accepted(1-4,6,5) written_length])
qed (use assms(1) in simp)

lemma run_spawned_keeps:
  assumes "run_spawned env t nd w = (nd', w')" "nd_inv nd"
  shows "nd_inv nd'"
proof (cases t)
  case (ReceiveUpload l)
  have put: "ss_inv (storage, disk)"
    if "ShardStorageManager_store_chunk_for_known_peer now ok wr data port (nd_storage nd) (nd_disk nd) = (r, storage, disk)"
    for now ok wr data port r storage disk
    using store_chunk_keeps [OF _ that] assms(2) by (simp add: nd_inv_def)
  show ?thesis
    using assms nd_inv_storage(1) [OF assms(2)] put
    by (auto simp: ReceiveUpload handle_tcp_upload_def Let_def split: prod.splits sum.splits)
qed

section \<open>Messages on their way\<close>

fun worker_messages :: "receive_worker \<Rightarrow> datagram list" where
  "worker_messages AwaitingMessage = []"
| "worker_messages (Handling m) = [m]"
| "worker_messages (Stuck m) = [m]"
| "worker_messages (Crashed m) = [m]"

fun reader_messages :: "reader \<Rightarrow> datagram list" where
  "reader_messages Receiving = []"
| "reader_messages (Enqueueing m) = [m]"

definition in_flight :: "'w listener \<Rightarrow> datagram multiset" where
  "in_flight s = mset (reader_messages (li_reader s)) + mset (li_queue s) +
     mset (concat (map worker_messages (li_workers s)))"

lemma mset_update:
  "i < length ws \<Longrightarrow>
    mset (concat (map f (ws[i := x]))) + mset (f (ws ! i)) = mset (concat (map f ws)) + mset (f x)"
proof (induction ws arbitrary: i)
  case (Cons w ws)
  then show ?case by (cases i) (simp_all add: add.assoc add.commute add.left_commute)
qed simp

definition is_stuck :: "receive_worker \<Rightarrow> bool" where
  "is_stuck v = (case v of Stuck _ \<Rightarrow> True | _ \<Rightarrow> False)"

definition is_crashed :: "receive_worker \<Rightarrow> bool" where
  "is_crashed v = (case v of Crashed _ \<Rightarrow> True | _ \<Rightarrow> False)"

definition li_inv :: "'w listener \<Rightarrow> bool" where
  "li_inv s \<longleftrightarrow> length (li_queue s) \<le> QUEUE_CAPACITY \<and> length (li_workers s) = RECEIVE_WORKER_TASK_COUNT \<and>
     nd_inv (li_node s) \<and> list_all (\<lambda>v. \<not> is_crashed v) (li_workers s) \<and>
     (li_table_locked s \<longleftrightarrow> list_ex is_stuck (li_workers s)) \<and>
     mset (li_received s) = mset (li_handled s) + in_flight s \<and>
     list_all (\<lambda>m. length (fst m) \<le> MAX_MESSAGE_SIZE) (li_received s)"

lemma list_all_update: "list_all P xs \<Longrightarrow> P x \<Longrightarrow> list_all P (xs[i := x])"
  by (cases "i < length xs") (auto simp: list_all_length nth_list_update)

lemma list_ex_update:
  assumes "i < length xs" "\<not> P (xs ! i)"
  shows "list_ex P (xs[i := x]) \<longleftrightarrow> P x \<or> list_ex P xs"
  using assms by (auto simp: list_ex_length nth_list_update)

lemma listen_step_inv:
  assumes "listen_step env pr pq s s'" "li_inv s" "\<And>data q. pq data = Some q \<Longrightarrow> request_wf q"
  shows "li_inv s'"
  using assms(1)
proof cases
  case (receive m datagram src)
  then show ?thesis using assms(2) by (simp add: li_inv_def in_flight_def)
next
  case (enqueue m)
  then show ?thesis using assms(2) by (simp add: li_inv_def in_flight_def)
next
  case (dequeue i m rest)
  then show ?thesis
    using assms(2) mset_update [OF dequeue(2), of worker_messages "Handling m"] list_ex_update [OF dequeue(2), of is_stuck]
    by (auto simp: li_inv_def in_flight_def is_stuck_def is_crashed_def intro: list_all_update)
next
  case (handled i m channel tasks nd' w')
  have "nd_inv nd'" using process_message_cases [where nd = "li_node s" and pq = pq and data = "fst m" and env = env and pr = pr and w = "li_world s"] assms(2,3) handled(5)
    by (auto simp: li_inv_def)
  then show ?thesis
    using assms(2) handled mset_update [OF handled(2), of worker_messages AwaitingMessage] list_ex_update [OF handled(2), of is_stuck]
    by (auto simp: li_inv_def in_flight_def is_stuck_def is_crashed_def intro: list_all_update)
next
  case (blocked i m)
  then show ?thesis
    using assms(2) mset_update [OF blocked(2), of worker_messages "Stuck m"] list_ex_update [OF blocked(2), of is_stuck]
    by (auto simp: li_inv_def in_flight_def is_stuck_def is_crashed_def intro: list_all_update)
next
  case (waiting i m)
  then show ?thesis
    using assms(2) mset_update [OF waiting(2), of worker_messages "Stuck m"] list_ex_update [OF waiting(2), of is_stuck]
    by (auto simp: li_inv_def in_flight_def is_stuck_def is_crashed_def intro: list_all_update)
next
  case (panicked i m)
  then have False using process_message_cases [where nd = "li_node s" and pq = pq and data = "fst m" and env = env and pr = pr and w = "li_world s"] assms(2,3)
    by (auto simp: li_inv_def)
  then show ?thesis ..
next
  case (upload j nd' w')
  then show ?thesis using assms(2) run_spawned_keeps [OF upload(3)] by (simp add: li_inv_def in_flight_def)
qed

lemma li_inv_start [inv_intros]: "nd_inv nd \<Longrightarrow> li_inv (start_listening nd w)"
  by (simp add: li_inv_def start_listening_def in_flight_def is_stuck_def is_crashed_def RECEIVE_WORKER_TASK_COUNT_def
      eval_nat_numeral)

section \<open>Deadlock\<close>






section \<open>Properties\<close>

text \<open>Claim C12. The listener loses and repeats nothing: in every state it reaches, what was read from
  the socket is what was handled, is being handled, is queued or is about to be queued; a message
  is never longer than \<open>MAX_MESSAGE_SIZE\<close>, the queue never exceeds its capacity, all workers
  are alive, the node satisfies its invariant, and the routing table is locked exactly when a
  worker is stuck.\<close>

theorem listener_invariant:
  assumes "(listen_step env pr pq)\<^sup>*\<^sup>* (start_listening nd w) s" "nd_inv nd"
    and "\<And>data q. pq data = Some q \<Longrightarrow> request_wf q"
  shows "li_inv s"
  using assms(1)
proof (induction rule: rtranclp_induct)
  case base
  then show ?case using assms(2) by (rule li_inv_start)
next
  case (step s1 s2)
  show ?case by (rule listen_step_inv [OF step(2,3) assms(3)])
qed


theorem listener_invariant_witness:
  "\<exists>s. (listen_step (reply_env lost_answer) (\<lambda>_. None) (\<lambda>_. None))\<^sup>*\<^sup>* (start_listening sample_nd (ni_address (contact 0))) s \<and>
     li_queue s = [([1], ni_address (contact 5))] \<and> li_inv s"
proof -
  let ?step = "listen_step (reply_env lost_answer) (\<lambda>_. None) (\<lambda>_. None)"
  let ?s0 = "start_listening sample_nd (ni_address (contact 0))" and ?m = "([1], ni_address (contact 5)) :: bytes \<times> socket_addr"
  let ?s1 = "?s0\<lparr>li_reader := Enqueueing ?m, li_received := li_received ?s0 @ [?m]\<rparr>"
  let ?s2 = "?s1\<lparr>li_reader := Receiving, li_queue := li_queue ?s1 @ [?m]\<rparr>"
  have "?step ?s0 ?s1" by (rule listen_step.receive [where datagram = "[1]"]) (simp_all add: start_listening_def const_defs)
  moreover have "?step ?s1 ?s2" by (rule listen_step.enqueue) (simp_all add: start_listening_def QUEUE_CAPACITY_def)
  ultimately have reached: "?step\<^sup>*\<^sup>* ?s0 ?s2" by (meson rtranclp.rtrancl_into_rtrancl rtranclp.rtrancl_refl)
  have "li_inv ?s2" by (rule listener_invariant [OF reached sample_nd_inv]) simp
  moreover have "li_queue ?s2 = [?m]" by (simp add: start_listening_def)
  ultimately show ?thesis using reached by blast
qed


end
