(* ===== verification/Storage_Refinement.thy ===== *)
theory Storage_Refinement
  imports Storage
begin

text \<open>
  What the chunk storage promises, as operations with answers on maps from hashes, and the proof
  that \<open>ShardStorageManager\<close> with its tables and files gives the same answers to every sequence
  of operations.
\<close>

section \<open>Specification\<close>

text \<open>
  A chunk has its data and the time from which it ages. A file under the hash of a chunk that is
  not stored (left by a failed write, or found in the directory at the start) takes the place of
  the chunk: it can be read, and it keeps the chunk from being stored.
\<close>

record chunk_db =
  db_chunks :: "key \<Rightarrow> (bytes \<times> time) option"
  db_debris :: "key \<Rightarrow> bytes option"
  db_transfers :: "u16 \<Rightarrow> key option"

datatype storage_op =
    Announce u16 node_info key
  | Receive time bool write_outcome bytes u16
  | Expire time
  | Refresh time key
  | Read bool key
  | Owns key
  | Owned
  | Due time

datatype storage_answer =
    Previous "key option"
  | Outcome "shard_storage_error + unit"
  | Contents "shard_storage_error + bytes"
  | Verdict bool
  | Keys "key set"

definition aged :: "nat \<Rightarrow> time \<Rightarrow> (bytes \<times> time) option \<Rightarrow> bool" where
  "aged secs now c = (case c of None \<Rightarrow> False | Some (data, t) \<Rightarrow> now - t \<ge> secs * 10 ^ 9)"

text \<open>
  An arrival on an announced port is stored under the announced hash, exactly once, when there is
  room, the data is not too long and nothing is there yet.
\<close>

definition db_receive :: "time \<Rightarrow> bool \<Rightarrow> write_outcome \<Rightarrow> bytes \<Rightarrow> u16 \<Rightarrow> chunk_db \<Rightarrow> (shard_storage_error + unit) \<times> chunk_db" where
  "db_receive now create_ok wr data port s =
     (case db_transfers s port of
        None \<Rightarrow> (Inl DataTransferNotFound, s)
      | Some h \<Rightarrow>
          if card (dom (db_chunks s)) \<ge> MAX_SHARDS_STORED then (Inl MaxShardsExceeded, s)
          else if length data > ENCRYPTED_CHUNK_SIZE_B then (Inl InvalidChunkSize, s)
          else if db_chunks s h \<noteq> None \<or> db_debris s h \<noteq> None then (Inl ChunkAlreadyStored, s)
          else if \<not> create_ok then (Inl IoError, s)
          else let s1 = s\<lparr>db_transfers := (db_transfers s)(port := None)\<rparr>
               in if wr = WriteOk then (Inr (), s1\<lparr>db_chunks := (db_chunks s)(h \<mapsto> (data, now))\<rparr>)
                  else (Inl IoError, s1\<lparr>db_debris := (db_debris s)(h \<mapsto> written wr data)\<rparr>))"

fun db_apply :: "storage_op \<Rightarrow> chunk_db \<Rightarrow> storage_answer \<times> chunk_db" where
  "db_apply (Announce port sender h) s = (Previous (db_transfers s port), s\<lparr>db_transfers := (db_transfers s)(port \<mapsto> h)\<rparr>)"
| "db_apply (Receive now create_ok wr data port) s =
     (let (r, s') = db_receive now create_ok wr data port s in (Outcome r, s'))"
| "db_apply (Expire now) s = (Outcome (Inr ()),
     s\<lparr>db_chunks := (\<lambda>h. if aged DEFAULT_CHUNK_EXPIRE_TIME_S now (db_chunks s h) then None else db_chunks s h)\<rparr>)"
| "db_apply (Refresh now h) s =
     (case db_chunks s h of
        None \<Rightarrow> (Outcome (Inl ChunkNotFoundInStorage), s)
      | Some (data, t) \<Rightarrow> (Outcome (Inr ()), s\<lparr>db_chunks := (db_chunks s)(h \<mapsto> (data, now))\<rparr>))"
| "db_apply (Read read_ok h) s = (Contents
     (case (if db_chunks s h = None then db_debris s h else map_option fst (db_chunks s h)) of
        None \<Rightarrow> Inl ChunkNotFound
      | Some data \<Rightarrow> if read_ok then Inr data else Inl IoError), s)"
| "db_apply (Owns h) s = (Verdict (db_chunks s h \<noteq> None), s)"
| "db_apply Owned s = (Keys (dom (db_chunks s)), s)"
| "db_apply (Due now) s = (Keys {h. aged DEFAULT_CHUNK_REUPLOAD_INTERVAL_S now (db_chunks s h)}, s)"

definition db_new :: "(key \<Rightarrow> bytes option) \<Rightarrow> chunk_db" where
  "db_new debris = \<lparr>db_chunks = Map.empty, db_debris = debris, db_transfers = Map.empty\<rparr>"

definition db_ok :: "chunk_db \<Rightarrow> bool" where
  "db_ok s \<longleftrightarrow> card (dom (db_chunks s)) \<le> MAX_SHARDS_STORED \<and>
     (\<forall>h data t. db_chunks s h = Some (data, t) \<longrightarrow> wf_key h \<and> length data \<le> ENCRYPTED_CHUNK_SIZE_B) \<and>
     (\<forall>port h. db_transfers s port = Some h \<longrightarrow> wf_key h)"

text \<open>The data of a stored chunk never changes; the chunk can only disappear, and only by expiring.\<close>

lemma db_apply_immutable:
  assumes "db_chunks s h = Some (data, t)"
  shows "(\<exists>t'. db_chunks (snd (db_apply op s)) h = Some (data, t')) \<or>
    (\<exists>now. op = Expire now \<and> now - t \<ge> DEFAULT_CHUNK_EXPIRE_TIME_S * 10 ^ 9)"
  using assms by (cases op) (auto simp: db_receive_def aged_def Let_def split: option.splits)

section \<open>The operations of the manager\<close>

fun storage_apply :: "storage_op \<Rightarrow> shard_storage_manager \<times> disk \<Rightarrow> storage_answer \<times> shard_storage_manager \<times> disk" where
  "storage_apply (Announce port sender h) (m, d) =
     (let (previous, m') = ShardStorageManager_add_active_tcp_connection port sender h m
      in (Previous (map_option dt_chunk_hash previous), m', d))"
| "storage_apply (Receive now create_ok write data port) (m, d) =
     (let (r, s') = ShardStorageManager_store_chunk_for_known_peer now create_ok write data port m d in (Outcome r, s'))"
| "storage_apply (Expire now) (m, d) =
     (let (r, s') = ShardStorageManager_remove_dead_chunks now (\<lambda>_. True) m d in (Outcome r, s'))"
| "storage_apply (Refresh now h) (m, d) =
     (let (r, m') = ShardStorageManager_update_chunk_upload_time now h m in (Outcome r, m', d))"
| "storage_apply (Read read_ok h) (m, d) = (Contents (ShardStorageManager_read_chunk read_ok h m d), m, d)"
| "storage_apply (Owns h) (m, d) = (Verdict (ShardStorageManager_is_chunk_already_stored h m), m, d)"
| "storage_apply Owned (m, d) = (Keys (set (ShardStorageManager_get_owned_chunk_keys m)), m, d)"
| "storage_apply (Due now) (m, d) = (Keys (set (ShardStorageManager_get_chunks_for_reupload now m)), m, d)"

text \<open>A sequence of operations, with the answers.\<close>

fun op_run :: "('o \<Rightarrow> 's \<Rightarrow> 'a \<times> 's) \<Rightarrow> 'o list \<Rightarrow> 's \<Rightarrow> 'a list \<times> 's" where
  "op_run f [] s = ([], s)"
| "op_run f (x # xs) s = (let (a, s1) = f x s; (as, s2) = op_run f xs s1 in (a # as, s2))"

definition storage_op_ok :: "storage_op \<Rightarrow> bool" where
  "storage_op_ok op = (case op of Announce port sender h \<Rightarrow> wf_key h | Read read_ok h \<Rightarrow> wf_key h | _ \<Rightarrow> True)"

section \<open>Abstraction\<close>

definition db_abs :: "shard_storage_manager \<times> disk \<Rightarrow> chunk_db" where
  "db_abs = (\<lambda>(m, d).
     \<lparr>db_chunks = (\<lambda>h. case HashMap_get (ss_owned_chunks m) h of None \<Rightarrow> None
         | Some info \<Rightarrow> map_option (\<lambda>data. (data, sc_time_stored_at info)) (d (chunk_path m h))),
      db_debris = (\<lambda>h. if wf_key h \<and> HashMap_get (ss_owned_chunks m) h = None then d (chunk_path m h) else None),
      db_transfers = ss_announced (m, d)\<rparr>)"

definition std_inv :: "shard_storage_manager \<times> disk \<Rightarrow> bool" where
  "std_inv = (\<lambda>(m, d). ss_inv (m, d) \<and> ss_expire_time_s m = DEFAULT_CHUNK_EXPIRE_TIME_S \<and>
     ss_reupload_interval_s m = DEFAULT_CHUNK_REUPLOAD_INTERVAL_S)"

lemma std_invD:
  assumes "std_inv (m, d)"
  shows "ss_inv (m, d)" "ss_expire_time_s m = DEFAULT_CHUNK_EXPIRE_TIME_S"
    "ss_reupload_interval_s m = DEFAULT_CHUNK_REUPLOAD_INTERVAL_S"
    "wf_map (ss_owned_chunks m)" "wf_map (ss_data_transfers_table m)"
  using assms by (auto simp: std_inv_def ss_inv_def)

lemma abs_chunks:
  assumes "ss_inv (m, d)"
  shows "db_chunks (db_abs (m, d)) h = None \<longleftrightarrow> HashMap_get (ss_owned_chunks m) h = None"
    "HashMap_get (ss_owned_chunks m) h = Some info \<Longrightarrow>
       \<exists>data. d (chunk_path m h) = Some data \<and> db_chunks (db_abs (m, d)) h = Some (data, sc_time_stored_at info)"
  using ss_inv_owned(2) [OF assms, of h] by (auto simp: db_abs_def split: option.split)

lemma dom_abs_chunks:
  assumes "ss_inv (m, d)"
  shows "dom (db_chunks (db_abs (m, d))) = set (HashMap_keys (ss_owned_chunks m))"
    "card (dom (db_chunks (db_abs (m, d)))) = HashMap_len (ss_owned_chunks m)"
proof -
  have wf: "wf_map (ss_owned_chunks m)" using assms by (simp add: ss_inv_def)
  show 1: "dom (db_chunks (db_abs (m, d))) = set (HashMap_keys (ss_owned_chunks m))"
    using hm.keys_dom [OF wf] abs_chunks(1) [OF assms] by (auto simp: dom_def)
  show "card (dom (db_chunks (db_abs (m, d)))) = HashMap_len (ss_owned_chunks m)"
    unfolding 1 using hm.keys_distinct [OF wf] by (simp add: distinct_card HashMap_len_keys)
qed

lemma abs_aged:
  assumes "ss_inv (m, d)"
  shows "aged secs now (db_chunks (db_abs (m, d)) h) \<longleftrightarrow>
    (\<exists>info. HashMap_get (ss_owned_chunks m) h = Some info \<and> older_than secs now info)"
  using abs_chunks [OF assms, of h]
  by (cases "HashMap_get (ss_owned_chunks m) h") (auto simp: aged_def older_than_def)

lemma abs_ok: "ss_inv (m, d) \<Longrightarrow> db_ok (db_abs (m, d))"
  using dom_abs_chunks(2) [of m d]
  by (auto simp: db_ok_def ss_inv_def db_abs_def ss_announced_def DataTransfersTable_get_def split: option.splits)

section \<open>Refinement\<close>

text \<open>One operation gives the same answer and the same state as its specification.\<close>

definition refines :: "storage_op \<Rightarrow> shard_storage_manager \<times> disk \<Rightarrow> bool" where
  "refines op s \<longleftrightarrow> std_inv (snd (storage_apply op s)) \<and>
     db_apply op (db_abs s) = (fst (storage_apply op s), db_abs (snd (storage_apply op s)))"

lemma announce_refines:
  assumes "std_inv (m, d)" "wf_key h"
  shows "refines (Announce port sender h) (m, d)"
proof -
  note inv = std_invD [OF assms(1)]
  obtain prev m' where a: "ShardStorageManager_add_active_tcp_connection port sender h m = (prev, m')"
    by (cases "ShardStorageManager_add_active_tcp_connection port sender h m")
  then have m': "m' = m\<lparr>ss_data_transfers_table :=
      HashMap_put port \<lparr>dt_sender = sender, dt_chunk_hash = h\<rparr> (ss_data_transfers_table m)\<rparr>"
    and prev: "map_option dt_chunk_hash prev = ss_announced (m, d) port"
    by (auto simp: ShardStorageManager_add_active_tcp_connection_def storage_defs Let_def)
  have path: "chunk_path m' k = chunk_path m k" for k by (simp add: chunk_path_def m')
  have "std_inv (m', d)" using announce_laws(1) [OF inv(1) assms(2) a] inv(2,3) by (simp add: std_inv_def m')
  moreover have "db_abs (m', d) = (db_abs (m, d))\<lparr>db_transfers := (ss_announced (m, d))(port \<mapsto> h)\<rparr>"
    using announce_laws(3) [OF inv(1) assms(2) a] unfolding db_abs_def prod.case path by (simp add: m')
  ultimately show ?thesis using prev by (simp add: refines_def a db_abs_def)
qed

lemma receive_accepted:
  assumes "std_inv (m, d)" "DataTransfersTable_get port (ss_data_transfers_table m) = Some t"
    and "length data \<le> ENCRYPTED_CHUNK_SIZE_B" "HashMap_len (ss_owned_chunks m) < MAX_SHARDS_STORED"
    and "d (chunk_path m (dt_chunk_hash t)) = None"
    and m': "m' = m\<lparr>ss_data_transfers_table := HashMap_delete port (ss_data_transfers_table m),
         ss_owned_chunks := if wr = WriteOk
           then HashMap_put (dt_chunk_hash t) \<lparr>sc_time_stored_at = now\<rparr> (ss_owned_chunks m) else ss_owned_chunks m\<rparr>"
    and d': "d' = d(chunk_path m (dt_chunk_hash t) \<mapsto> written wr data)"
  shows "std_inv (m', d')"
    "db_receive now True wr data port (db_abs (m, d)) =
       (if wr = WriteOk then Inr () else Inl IoError, db_abs (m', d'))"
proof -
  let ?h = "dt_chunk_hash t"
  note inv = std_invD [OF assms(1)]
  note acc = ss_accepted [OF inv(1) assms(2-5) m' d' written_length]
  have h: "wf_key ?h" using inv(1) assms(2) by (auto simp: ss_inv_def DataTransfersTable_get_def)
  show "std_inv (m', d')" using acc(1) inv(2,3) by (simp add: std_inv_def m')
  have path: "chunk_path m' k = chunk_path m k" for k by (simp add: chunk_path_def m')
  have other: "d' (chunk_path m k) = d (chunk_path m k)" if "wf_key k" "k \<noteq> ?h" for k
    using chunk_path_inj [OF that(1) h] that(2) by (simp add: d')
  have own: "HashMap_get (ss_owned_chunks m') k = (if wr = WriteOk \<and> k = ?h then Some \<lparr>sc_time_stored_at = now\<rparr>
      else HashMap_get (ss_owned_chunks m) k)" for k
    using inv(4) by (simp add: m')
  have new: "d' (chunk_path m ?h) = Some (written wr data)" by (simp add: d')
  have "db_chunks (db_abs (m', d')) k = (if wr = WriteOk then (db_chunks (db_abs (m, d)))(?h \<mapsto> (data, now))
      else db_chunks (db_abs (m, d))) k" for k
    using other [of k] new acc(2) ss_inv_owned(1) [OF inv(1), of k]
    by (cases "k = ?h"; cases "HashMap_get (ss_owned_chunks m) k") (auto simp: db_abs_def path own)
  then have chs: "db_chunks (db_abs (m', d')) = (if wr = WriteOk then (db_chunks (db_abs (m, d)))(?h \<mapsto> (data, now))
      else db_chunks (db_abs (m, d)))" by (rule ext)
  have "db_debris (db_abs (m', d')) k = (if wr = WriteOk then db_debris (db_abs (m, d))
      else (db_debris (db_abs (m, d)))(?h \<mapsto> written wr data)) k" for k
    using other [of k] new acc(2) assms(5) h by (cases "k = ?h") (auto simp: db_abs_def path own)
  then have deb: "db_debris (db_abs (m', d')) = (if wr = WriteOk then db_debris (db_abs (m, d))
      else (db_debris (db_abs (m, d)))(?h \<mapsto> written wr data))" by (rule ext)
  have "db_transfers (db_abs (m', d')) = (db_transfers (db_abs (m, d)))(port := None)"
    using inv(5) by (simp add: fun_eq_iff db_abs_def storage_defs m')
  moreover have "db_transfers (db_abs (m, d)) port = Some ?h" using assms(2) by (simp add: db_abs_def ss_announced_def)
  moreover have "db_chunks (db_abs (m, d)) ?h = None" "db_debris (db_abs (m, d)) ?h = None"
    using acc(2) assms(5) by (simp_all add: db_abs_def)
  ultimately show "db_receive now True wr data port (db_abs (m, d)) =
       (if wr = WriteOk then Inr () else Inl IoError, db_abs (m', d'))"
    using assms(3,4) dom_abs_chunks(2) [OF inv(1)] chs deb by (simp add: db_receive_def Let_def)
qed

lemma receive_refines:
  assumes "std_inv (m, d)"
  shows "refines (Receive now create_ok wr data port) (m, d)"
proof (cases "DataTransfersTable_get port (ss_data_transfers_table m)")
  case None
  then show ?thesis using assms
    by (simp add: refines_def ShardStorageManager_store_chunk_for_known_peer_def db_receive_def db_abs_def ss_announced_def)
next
  case (Some t)
  let ?h = "dt_chunk_hash t"
  note inv = std_invD [OF assms]
  have h: "wf_key ?h" using inv(1) Some by (auto simp: ss_inv_def DataTransfersTable_get_def)
  have tr: "db_transfers (db_abs (m, d)) port = Some ?h" using Some by (simp add: db_abs_def ss_announced_def)
  have there: "d (chunk_path m ?h) = None \<longleftrightarrow> db_chunks (db_abs (m, d)) ?h = None \<and> db_debris (db_abs (m, d)) ?h = None"
    using h by (auto simp: db_abs_def split: option.splits)
  have mem: "length data \<le> ENCRYPTED_CHUNK_SIZE_B \<Longrightarrow>
      \<not> of_nat (MAX_DATA_STORED_MB * 1024) - ss_total_stored_kb m < of_nat (length data)"
    using memory_check_passes [of m data] inv(1) by (simp add: ss_inv_def)
  show ?thesis
  proof (cases "HashMap_len (ss_owned_chunks m) < MAX_SHARDS_STORED \<and> length data \<le> ENCRYPTED_CHUNK_SIZE_B \<and>
      d (chunk_path m ?h) = None \<and> create_ok")
    case False
    then show ?thesis
      using assms Some tr there mem dom_abs_chunks(2) [OF inv(1)]
      by (auto simp: refines_def ShardStorageManager_store_chunk_for_known_peer_def db_receive_def Let_def)
  next
    case True
    then show ?thesis
      using receive_accepted [where data = data and wr = wr and now = now, OF assms Some _ _ _ refl refl] mem Some
      by (cases "wr = WriteOk")
        (simp_all add: refines_def ShardStorageManager_store_chunk_for_known_peer_def Let_def hash_map_defs DataTransfersTable_remove_def)
  qed
qed

lemma expire_refines:
  assumes "std_inv (m, d)"
  shows "refines (Expire now) (m, d)"
proof -
  note inv = std_invD [OF assms]
  obtain m' d' where r: "ShardStorageManager_remove_dead_chunks now (\<lambda>_. True) m d = (Inr (), m', d')"
      "remove_files (\<lambda>_. True) (map (chunk_path m) (dead_chunks now m)) d = (Inr (), d')"
    using remove_dead_chunks_succeeds [OF inv(1), of "\<lambda>_. True" now] by blast
  let ?dead = "set (dead_chunks now m)"
  have m': "m' = m\<lparr>ss_owned_chunks := HashMap_retain (\<lambda>k. k \<notin> ?dead) (ss_owned_chunks m)\<rparr>"
    using r by (simp add: remove_dead_chunks_eq)
  have d': "d' = (\<lambda>p. if p \<in> chunk_path m ` ?dead then None else d p)" using remove_files_ok [OF r(2)] by simp
  have dead: "h \<in> ?dead \<longleftrightarrow> aged DEFAULT_CHUNK_EXPIRE_TIME_S now (db_chunks (db_abs (m, d)) h)" for h
    using abs_aged [OF inv(1)] inv(2) by (simp add: set_dead_chunks [OF inv(4)])
  have wf: "wf_key h" if "h \<in> ?dead \<or> HashMap_get (ss_owned_chunks m) h \<noteq> None" for h
    using that ss_inv_owned(1) [OF inv(1), of h] by (auto simp: set_dead_chunks [OF inv(4)])
  have gone: "d' (chunk_path m h) = (if h \<in> ?dead then None else d (chunk_path m h))" if "wf_key h" for h
    using that wf chunk_path_inj [OF that] by (auto simp: d')
  have own: "HashMap_get (ss_owned_chunks m) h \<noteq> None" if "h \<in> ?dead" for h
    using that by (auto simp: set_dead_chunks [OF inv(4)])
  have path: "chunk_path m' h = chunk_path m h" for h by (simp add: chunk_path_def m')
  have get: "HashMap_get (ss_owned_chunks m') h = (if h \<in> ?dead then None else HashMap_get (ss_owned_chunks m) h)" for h
    by (simp add: m' HashMap_get_retain)
  have "db_chunks (db_abs (m', d')) h = (if h \<in> ?dead then None else db_chunks (db_abs (m, d)) h)" for h
    using gone wf [of h] by (auto simp: db_abs_def path get split: option.split)
  moreover have "db_debris (db_abs (m', d')) h = db_debris (db_abs (m, d)) h" for h
    using gone [of h] own [of h] by (auto simp: db_abs_def path get)
  moreover have "db_transfers (db_abs (m', d')) = db_transfers (db_abs (m, d))"
    using ss_inv_remove_dead(2) [OF inv(1) r(1)] by (simp add: db_abs_def)
  moreover have "std_inv (m', d')" using ss_inv_remove_dead(1) [OF inv(1) r(1)] inv(2,3) by (simp add: std_inv_def m')
  ultimately show ?thesis unfolding refines_def by (auto simp: r(1) dead fun_eq_iff intro!: chunk_db.equality)
qed

lemma refresh_refines:
  assumes "std_inv (m, d)"
  shows "refines (Refresh now h) (m, d)"
proof (cases "HashMap_get (ss_owned_chunks m) h")
  case None
  then show ?thesis using assms abs_chunks(1) [OF std_invD(1) [OF assms], of h]
    by (simp add: refines_def ShardStorageManager_update_chunk_upload_time_def)
next
  case (Some info)
  note inv = std_invD [OF assms]
  obtain data where data: "d (chunk_path m h) = Some data" "db_chunks (db_abs (m, d)) h = Some (data, sc_time_stored_at info)"
    using abs_chunks(2) [OF inv(1) Some] by blast
  let ?m = "m\<lparr>ss_owned_chunks := HashMap_put h (info\<lparr>sc_time_stored_at := now\<rparr>) (ss_owned_chunks m)\<rparr>"
  have u: "ShardStorageManager_update_chunk_upload_time now h m = (Inr (), ?m)"
    using Some by (simp add: ShardStorageManager_update_chunk_upload_time_def)
  have "db_chunks (db_abs (?m, d)) = (db_chunks (db_abs (m, d)))(h \<mapsto> (data, now))"
    using data(1) inv(4) by (auto simp: fun_eq_iff db_abs_def chunk_path_def split: option.split)
  moreover have "db_debris (db_abs (?m, d)) = db_debris (db_abs (m, d))"
    using Some inv(4) by (auto simp: fun_eq_iff db_abs_def chunk_path_def)
  moreover have "db_transfers (db_abs (?m, d)) = db_transfers (db_abs (m, d))" by (simp add: db_abs_def ss_announced_def)
  moreover have "std_inv (?m, d)" using ss_inv_update_time(1) [OF inv(1) u] inv(2,3) by (simp add: std_inv_def)
  ultimately show ?thesis using data(2) by (simp add: refines_def u)
qed

lemma query_refines:
  assumes "std_inv (m, d)"
  shows "wf_key h \<Longrightarrow> refines (Read read_ok h) (m, d)" "refines (Owns h) (m, d)" "refines Owned (m, d)" "refines (Due now) (m, d)"
proof -
  note inv = std_invD [OF assms]
  show "refines (Read read_ok h) (m, d)" if "wf_key h"
    using that assms ss_inv_owned(2) [OF inv(1), of h]
    by (auto simp: refines_def ShardStorageManager_read_chunk_def db_abs_def split: option.split)
  show "refines (Owns h) (m, d)"
    using assms abs_chunks(1) [OF inv(1), of h]
    by (simp add: refines_def ShardStorageManager_is_chunk_already_stored_def HashMap_contains_key_def)
  show "refines Owned (m, d)"
    using assms dom_abs_chunks(1) [OF inv(1)] by (simp add: refines_def ShardStorageManager_get_owned_chunk_keys_def)
  have "h \<in> set (ShardStorageManager_get_chunks_for_reupload now m) \<longleftrightarrow>
      aged DEFAULT_CHUNK_REUPLOAD_INTERVAL_S now (db_chunks (db_abs (m, d)) h)" for h
    using abs_aged [OF inv(1), of _ now h] HashMap_entries [OF inv(4), of h] inv(3)
    by (auto simp: ShardStorageManager_get_chunks_for_reupload_def image_iff)
  then show "refines (Due now) (m, d)" using assms by (auto simp: refines_def)
qed

lemma storage_apply_refines:
  assumes "std_inv s" "storage_op_ok op"
  shows "refines op s"
proof -
  obtain m d where s: "s = (m, d)" by (cases s)
  show ?thesis
    using assms announce_refines receive_refines expire_refines refresh_refines query_refines unfolding s
    by (cases op) (simp_all only: storage_op_ok_def storage_op.case)
qed

lemma storage_run_refines:
  assumes "std_inv s" "list_all storage_op_ok ops"
  shows "std_inv (snd (op_run storage_apply ops s)) \<and>
    op_run db_apply ops (db_abs s) = (fst (op_run storage_apply ops s), db_abs (snd (op_run storage_apply ops s)))"
  using assms
proof (induction ops arbitrary: s)
  case (Cons op ops)
  have "refines op s" using storage_apply_refines [OF Cons.prems(1)] Cons.prems(2) by simp
  then show ?case
    using Cons.IH [of "snd (storage_apply op s)"] Cons.prems(2)
    by (auto simp: refines_def Let_def split: prod.splits)
qed simp

text \<open>Claim C11. The chunk storage implements its specification: for every sequence of announcements, arrivals,
  expirations, refreshes and queries on a new manager over any disk, with deletions that succeed, the manager gives exactly
  the answers of the specification, errors included, and ends in the state of the
  specification; so what is read back under a hash is what arrived for it and has not expired. In that state every
  chunk has a full key and at most the size of an encrypted chunk, and there are at most \<open>MAX_SHARDS_STORED\<close>.\<close>

theorem storage_refinement:
  assumes "list_all storage_op_ok ops" "op_run storage_apply ops (ShardStorageManager_new root, d) = (answers, m', d')"
  shows "op_run db_apply ops (db_new (\<lambda>h. if wf_key h then d (Path_join root (Key_display h)) else None)) =
      (answers, db_abs (m', d')) \<and> db_ok (db_abs (m', d'))"
proof -
  have "db_abs (ShardStorageManager_new root, d) = db_new (\<lambda>h. if wf_key h then d (Path_join root (Key_display h)) else None)"
    by (simp add: db_abs_def db_new_def fun_eq_iff storage_defs ShardStorageManager_new_def chunk_path_def)
  moreover have "std_inv (ShardStorageManager_new root, d)"
    using ss_inv_new [of root d] by (simp add: std_inv_def ShardStorageManager_new_def)
  ultimately show ?thesis
    using storage_run_refines [OF _ assms(1), of "(ShardStorageManager_new root, d)"] assms(2)
    by (auto simp: std_inv_def abs_ok)
qed

text \<open>A chunk that arrives, is refused a second time, is read, and expires.\<close>

definition sample_ops :: "storage_op list" where
  "sample_ops = [Announce 8080 sample_node sample_key, Receive 5 True WriteOk [1, 2] 8080, Announce 81 sample_node sample_key,
     Receive 6 True WriteOk [3] 81, Read True sample_key, Expire (10 ^ 15), Read True sample_key]"

theorem storage_refinement_witness:
  "fst (op_run db_apply sample_ops (db_new (\<lambda>_. None))) =
     [Previous None, Outcome (Inr ()), Previous None, Outcome (Inl ChunkAlreadyStored), Contents (Inr [1, 2]),
      Outcome (Inr ()), Contents (Inl ChunkNotFound)]"
proof -
  have ok: "list_all storage_op_ok sample_ops" by (simp add: sample_ops_def storage_op_ok_def sample_key_wf)
  obtain answers m' d' where run: "op_run storage_apply sample_ops (ShardStorageManager_new ''store'', Map.empty) = (answers, m', d')"
    by (cases "op_run storage_apply sample_ops (ShardStorageManager_new ''store'', Map.empty)")
  moreover have "fst (op_run storage_apply sample_ops (ShardStorageManager_new ''store'', Map.empty)) =
     [Previous None, Outcome (Inr ()), Previous None, Outcome (Inl ChunkAlreadyStored), Contents (Inr [1, 2]),
      Outcome (Inr ()), Contents (Inl ChunkNotFound)]"
    by (simp add: sample_ops_def storage_eval const_defs chunk_path_def ShardStorageManager_read_chunk_def
        ShardStorageManager_remove_dead_chunks_def older_than_def HashMap_retain_def)
  ultimately show ?thesis using storage_refinement [OF ok run] by simp
qed

end
