(* ===== verification/Answers.thy ===== *)
theory Answers
  imports Request_Handler
begin

text \<open>
  The type of what a node sends in answer to a request. A handler hands responses to the
  serialiser of the environment only; that it hands over nothing else than well-formed answers to its
  request is stated by replacing the serialiser: one that agrees on such answers makes no
  difference.
\<close>

section \<open>Answers\<close>

definition is_answer :: "node_info \<Rightarrow> request \<Rightarrow> response \<Rightarrow> bool" where
  "is_answer me request r \<longleftrightarrow> response_wf r \<and> rs_sender r = me \<and> rs_receiver r = rq_sender request \<and>
     rs_request_id r = rq_request_id request \<and>
     (case rs_response_type r of
        Pong \<Rightarrow> rq_request_type request = Ping
      | Nodes ns \<Rightarrow> length ns \<le> K \<and> (\<exists>k. rq_request_type request \<in> {FindNode k, FindValue k})
      | StoreChunkUpdated \<Rightarrow> (\<exists>k. rq_request_type request = Store k)
      | StoreOK \<Rightarrow> (\<exists>k. rq_request_type request = Store k)
      | PortOK _ \<Rightarrow> (\<exists>k. rq_request_type request = GetPort k)
      | HasValue k \<Rightarrow> rq_request_type request = FindValue k)"

lemma send_response_cong:
  assumes "f r = env_json_response env r"
  shows "MessageDispatcher_send_response (env\<lparr>env_json_response := f\<rparr>) r w = MessageDispatcher_send_response env r w"
  using assms by (simp add: MessageDispatcher_send_response_def split: option.split)

lemma store_nodeinfo_env: "Node_store_nodeinfo (env\<lparr>env_json_response := f\<rparr>) n nd w = Node_store_nodeinfo env n nd w"
proof -
  have "locked_ping (env\<lparr>env_json_response := f\<rparr>) nd = locked_ping env nd" by (simp add: fun_eq_iff)
  then show ?thesis by (simp add: Node_store_nodeinfo_def)
qed

lemma is_answer_simple:
  assumes "wf_node me"
  shows "is_answer me request (Response_new rt me (rq_sender request) (rq_request_id request)) \<longleftrightarrow>
    (case rt of
        Pong \<Rightarrow> rq_request_type request = Ping
      | Nodes ns \<Rightarrow> (\<forall>n \<in> set ns. wf_node n) \<and> length ns \<le> K \<and> (\<exists>k. rq_request_type request \<in> {FindNode k, FindValue k})
      | StoreChunkUpdated \<Rightarrow> (\<exists>k. rq_request_type request = Store k)
      | StoreOK \<Rightarrow> (\<exists>k. rq_request_type request = Store k)
      | PortOK _ \<Rightarrow> (\<exists>k. rq_request_type request = GetPort k)
      | HasValue k \<Rightarrow> rq_request_type request = FindValue k)"
  using assms by (auto simp: is_answer_def response_wf_def Response_new_def split: response_type.split)

lemma find_node_typed:
  assumes "nd_inv nd" "wf_key k" "wf_node me" "rq_request_type request \<in> {FindNode k, FindValue k}"
    and f: "\<And>r. is_answer me request r \<Longrightarrow> f r = env_json_response env r"
  shows "handle_find_node_message (env\<lparr>env_json_response := f\<rparr>) me request k nd w =
    handle_find_node_message env me request k nd w"
  using assms(1,2)
proof (cases rule: get_k_closest_cases)
  case (nodes ns)
  have "is_answer me request (Response_new (Nodes ns) me (rq_sender request) (rq_request_id request))"
    using nodes assms(1,3,4) all_nodes_wf [of "nd_routing_table nd"]
    by (auto simp: is_answer_simple Node_get_routing_table_content_def nd_inv_def)
  with nodes show ?thesis
    by (simp add: handle_find_node_message_def ResponseType_new_nodes_def send_response_cong f)
qed (simp add: handle_find_node_message_def)

lemma dispatch_typed:
  assumes "nd_inv nd" "request_wf request" "wf_node me"
    and f: "\<And>r. is_answer me request r \<Longrightarrow> f r = env_json_response env r"
  shows "dispatch_request (env\<lparr>env_json_response := f\<rparr>) me request nd w = dispatch_request env me request nd w"
proof -
  have send: "MessageDispatcher_send_response (env\<lparr>env_json_response := f\<rparr>)
      (Response_new rt me (rq_sender request) (rq_request_id request)) w =
      MessageDispatcher_send_response env (Response_new rt me (rq_sender request) (rq_request_id request)) w"
    if "is_answer me request (Response_new rt me (rq_sender request) (rq_request_id request))" for rt w
    by (rule send_response_cong) (rule f [OF that])
  have find: "handle_find_node_message (env\<lparr>env_json_response := f\<rparr>) me request k nd w =
      handle_find_node_message env me request k nd w" if "rq_request_type request \<in> {FindNode k, FindValue k}" for k
    by (rule find_node_typed [OF assms(1) _ assms(3) that f]) (use assms(2) that in \<open>auto simp: request_wf_def\<close>)
  have tcp: "TcpListenerService_new (env\<lparr>env_json_response := f\<rparr>) = TcpListenerService_new env"
    by (simp add: fun_eq_iff TcpListenerService_new_def split: prod.split option.split)
  show ?thesis
  proof (cases "rq_request_type request")
    case (GetPort k)
    then have "MessageDispatcher_send_response (env\<lparr>env_json_response := f\<rparr>)
        (Response_new (PortOK p) me (rq_sender request) (rq_request_id request)) w =
        MessageDispatcher_send_response env (Response_new (PortOK p) me (rq_sender request) (rq_request_id request)) w" for p w
      by (intro send) (simp add: is_answer_simple assms(3))
    then show ?thesis
      by (simp add: dispatch_request_def handle_get_port_message_def GetPort tcp Let_def split: prod.split sum.split option.split)
  next
    case (GetValue k p)
    then show ?thesis
      by (simp add: dispatch_request_def handle_get_value_def split: prod.split sum.split)
  qed (use assms(3) find send in \<open>simp_all add: dispatch_request_def handle_ping_message_def handle_find_value_message_def
        handle_store_message_def is_answer_simple split: prod.split\<close>)
qed

text \<open>Claim C10. Whatever a node sends in answer to a request is an answer to it: it carries the request's
  identifier, goes from this node to the sender of the request, is of a type that belongs to the type of the request
  as \<open>is_answer\<close> lists them,
  names only contacts with 20-byte keys and at most \<open>K\<close> of them. Two serialisers that agree on such
  responses give the same run of the handler. The types are those of the handlers and of the lookups that read
  them: \<open>FIND_VALUE\<close> is answered with \<open>HasValue\<close> or \<open>Nodes\<close>, and \<open>GET_VALUE\<close> with no message
  at all, the data going over TCP. The comments on \<open>ResponseType\<close> in \<open>networking/messages.rs\<close> say
  otherwise: they associate \<open>HasValue\<close> with \<open>GetValue\<close> and \<open>Nodes\<close> with \<open>FindNode\<close> only.\<close>

theorem handler_sends_answers:
  assumes "nd_inv nd" "request_wf request" "me = Node_to_node_info nd"
    and "\<And>r. is_answer me request r \<Longrightarrow> f r = env_json_response env r"
  shows "handle_received_request (env\<lparr>env_json_response := f\<rparr>) me request nd w =
    handle_received_request env me request nd w"
proof -
  have me: "wf_node me" using nd_inv_wf [OF assms(1)] by (simp add: assms(3) Node_to_node_info_def NodeInfo_new_def wf_node_def)
  have "dispatch_request (env\<lparr>env_json_response := f\<rparr>) me request nd' w' = dispatch_request env me request nd' w'"
    if "Node_store_nodeinfo env (rq_sender request) nd w = Ret (r, nd', w')" for r nd' w'
  proof -
    have "wf_node (rq_sender request)" using assms(2) by (simp add: request_wf_def)
    with assms(1) have "nd_inv nd'"
      by (cases rule: node_store_cases [where env = env and w = w]) (use that assms(1) in auto)
    then show ?thesis by (rule dispatch_typed [OF _ assms(2) me assms(4)])
  qed
  then show ?thesis
    by (cases "Node_store_nodeinfo env (rq_sender request) nd w")
      (auto simp: handle_received_request_def record_possible_neighbour_def store_nodeinfo_env)
qed

theorem handler_sends_answers_witness:
  "handle_received_request ((reply_env lost_answer)\<lparr>env_json_response :=
       (\<lambda>r. if rs_request_id r = 3 then Some [] else None)\<rparr>) (contact 0)
     (sample_request (FindNode (small_key 4)) (contact 9)) sample_nd (ni_address (contact 0)) =
   handle_received_request (reply_env lost_answer) (contact 0)
     (sample_request (FindNode (small_key 4)) (contact 9)) sample_nd (ni_address (contact 0))"
  by (rule handler_sends_answers [OF sample_nd_inv _ sample_me [symmetric]])
    (simp_all add: request_wf_def sample_request_def is_answer_def reply_env_def)

end
