(* ===== verification/File_Transfer.thy ===== *)
theory File_Transfer
  imports Node_Correctness
begin

text \<open>
  \<open>core/node.rs\<close>, second part: uploading a file chunk by chunk to the contacts closest to each
  chunk, and downloading it again from the contacts that store the chunks.
\<close>

section \<open>Upload\<close>

datatype transfer_error =
    FileMissing
  | FindNodeFailed node_op_error
  | ShardingFailed sharding_error
  | NoResponsiveNodes
  | NoNodes
  | TooManyNodes
  | NoPorts
  | ChunkNotSent
  | NoTcpStream
  | TcpFailed tcp_error
  | LocalReadFailed shard_storage_error
  | ListenerFailed tcp_listener_error
  | SendDownloadFailed dispatch_error
  | ReceiveFailed tcp_listener_error

definition Node_send_initial_store_request ::
  "('w, 'z) net_scheme \<Rightarrow> key \<Rightarrow> node_info \<Rightarrow> node \<times> 'w \<Rightarrow> response option \<times> node \<times> 'w" where
  "Node_send_initial_store_request env file_id n = (\<lambda>(nd, w).
     let (request, w1) = Request_new env (Store file_id) (Node_to_node_info nd) n w;
         (r, s2) = Node_send_request_and_wait env request BASIC_REQUEST_TIMEOUT_MILLISECONDS nd w1
     in (case r of
           Inr response \<Rightarrow>
             if rs_response_type response = StoreOK then Some response else None
         | Inl _ \<Rightarrow> None, s2))"

definition Node_send_get_port_request ::
  "('w, 'z) net_scheme \<Rightarrow> key \<Rightarrow> node_info \<Rightarrow> node \<times> 'w \<Rightarrow> response option \<times> node \<times> 'w" where
  "Node_send_get_port_request env k n = (\<lambda>(nd, w).
     let (request, w1) = Request_new env (GetPort k) (Node_to_node_info nd) n w;
         (r, s2) = Node_send_request_and_wait env request BASIC_REQUEST_TIMEOUT_MILLISECONDS nd w1
     in (case r of
           Inr response \<Rightarrow> (case rs_response_type response of PortOK _ \<Rightarrow> Some response | _ \<Rightarrow> None)
         | Inl _ \<Rightarrow> None, s2))"

definition Node_send_chunk_over_tcp ::
  "('w, 'z) net_scheme \<Rightarrow> chunk \<Rightarrow> response \<Rightarrow> 'w \<Rightarrow> (transfer_error + unit) \<times> 'w" where
  "Node_send_chunk_over_tcp env chunk response w =
     (case rs_response_type response of
        PortOK port \<Rightarrow>
          (case net_tcp_send env (SocketAddr_ip (ni_address (rs_sender response))) port (ch_data chunk) w of
             (Inl e, w1) \<Rightarrow> (Inl (TcpFailed e), w1)
           | (Inr _, w1) \<Rightarrow> (Inr (), w1))
      | _ \<Rightarrow> (Inl NoTcpStream, w))"

definition Node_store_chunk ::
  "('w, 'z) net_scheme \<Rightarrow> response list \<Rightarrow> chunk \<Rightarrow> 'w \<Rightarrow> (transfer_error + unit) \<times> 'w" where
  "Node_store_chunk env ports chunk w =
     (let (sent_results, w1) = join_all (Node_send_chunk_over_tcp env chunk) ports w;
          successes = filter (\<lambda>r. r = Inr ()) sent_results
      in if successes \<noteq> [] then (Inr (), w1) else (Inl ChunkNotSent, w1))"

text \<open>\<open>into_iter().flatten()\<close> over options.\<close>

fun flatten :: "'a option list \<Rightarrow> 'a list" where
  "flatten [] = []"
| "flatten (None # xs) = flatten xs"
| "flatten (Some x # xs) = x # flatten xs"

definition Node_resolve_alpha_closest_nodes_to_key ::
  "('w, 'z) net_scheme \<Rightarrow> key \<Rightarrow> node \<Rightarrow> 'w \<Rightarrow> ((transfer_error + response list) \<times> node \<times> 'w) run" where
  "Node_resolve_alpha_closest_nodes_to_key env chunk_id nd w =
     bind_run (Node_find_node env chunk_id nd w) (\<lambda>(r, nd1, w1).
       case r of
         Inl e \<Rightarrow> Ret (Inl (FindNodeFailed e), nd1, w1)
       | Inr closest_nodes \<Rightarrow>
           let (answers, nd2, w2) = join_all (Node_send_initial_store_request env chunk_id) closest_nodes (nd1, w1);
               responsive_nodes = flatten answers
           in if responsive_nodes = [] then Ret (Inl NoResponsiveNodes, nd2, w2)
              else Ret (Inr (take ALPHA
                     (sort_key (\<lambda>r. Key_distance (ni_id (rs_sender r)) chunk_id) responsive_nodes)), nd2, w2))"

definition Node_get_ports_for_nodes ::
  "('w, 'z) net_scheme \<Rightarrow> response list \<Rightarrow> key \<Rightarrow> node \<times> 'w \<Rightarrow> (transfer_error + response list) \<times> node \<times> 'w" where
  "Node_get_ports_for_nodes env nodes k s =
     (if nodes = [] then (Inl NoNodes, s)
      else if length nodes > ALPHA then (Inl TooManyNodes, s)
      else let (answers, s1) = join_all (\<lambda>n. Node_send_get_port_request env k (rs_sender n)) nodes s;
               responsive_nodes = flatten answers
           in if responsive_nodes = [] then (Inl NoPorts, s1) else (Inr responsive_nodes, s1))"

text \<open>The loop of \<open>upload_file\<close> over the chunks.\<close>

function upload_chunks ::
  "('w, 'z) net_scheme \<Rightarrow> file_uploader \<Rightarrow> node \<Rightarrow> 'w \<Rightarrow> ((transfer_error + unit) \<times> file_uploader \<times> node \<times> 'w) run" where
  "upload_chunks env u nd w =
     (case FileUploader_get_next_chunk_encrypt (net_aead env) (net_digest env) (fst (net_chunk_input env w)) u of
        Panicked \<Rightarrow> Panicked
      | Blocked \<Rightarrow> Blocked
      | Ret (Inl e, u1) \<Rightarrow> Ret (Inl (ShardingFailed e), u1, nd, snd (net_chunk_input env w))
      | Ret (Inr None, u1) \<Rightarrow> Ret (Inr (), u1, nd, snd (net_chunk_input env w))
      | Ret (Inr (Some chunk), u1) \<Rightarrow>
          bind_run (Node_resolve_alpha_closest_nodes_to_key env (ch_hash chunk) nd (snd (net_chunk_input env w)))
            (\<lambda>(r2, nd2, w2). case r2 of
               Inl e \<Rightarrow> Ret (Inl e, u1, nd2, w2)
             | Inr responsible_nodes \<Rightarrow>
                 (case Node_get_ports_for_nodes env responsible_nodes (ch_hash chunk) (nd2, w2) of
                    (Inl e, nd3, w3) \<Rightarrow> Ret (Inl e, u1, nd3, w3)
                  | (Inr ports, nd3, w3) \<Rightarrow>
                      (case Node_store_chunk env ports chunk w3 of
                         (Inl e, w4) \<Rightarrow> Ret (Inl e, u1, nd3, w4)
                       | (Inr _, w4) \<Rightarrow> upload_chunks env u1 nd3 w4))))"
  by pat_completeness auto
termination
  by (relation "measure (\<lambda>(env, u, nd, w). length (fu_remaining u))")
    (auto elim!: get_next_chunk_Some simp: next_metadata_def)

declare upload_chunks.simps [simp del]

definition Node_upload_file ::
  "('w, 'z) net_scheme \<Rightarrow> string \<Rightarrow> node \<Rightarrow> 'w \<Rightarrow> ((transfer_error + file_metadata) \<times> node \<times> 'w) run" where
  "Node_upload_file env file_path nd0 w0 =
     (if nd_disk nd0 file_path = None then Ret (Inl FileMissing, nd0, w0)
      else let (open_ok, w1) = net_read_ok env w0; (gen_key, w2) = net_gen_key env w1 in
        bind_run (FileUploader_new open_ok gen_key file_path (nd_disk nd0)) (\<lambda>(r1, d).
          let nd1 = nd0\<lparr>nd_disk := d\<rparr> in
          case r1 of
            Inl e \<Rightarrow> Ret (Inl (ShardingFailed e), nd1, w2)
          | Inr uploader \<Rightarrow>
              bind_run (upload_chunks env uploader nd1 w2) (\<lambda>(r3, u3, nd3, w3).
                case r3 of
                  Inl e \<Rightarrow> Ret (Inl e, nd3, w3)
                | Inr _ \<Rightarrow>
                    let (now, w4) = net_now env w3;
                        nd4 = nd3\<lparr>nd_file_manager := FileManager_add_file_uploaded_entry now file_path (nd_file_manager nd3)\<rparr>;
                        (read_ok, w5) = net_read_ok env w4
                    in case FileUploader_get_metadata read_ok u3 of
                         Inl e \<Rightarrow> Ret (Inl (ShardingFailed e), nd4, w5)
                       | Inr md \<Rightarrow> Ret (Inr md, nd4, w5))))"

section \<open>Download\<close>

definition Node_download_chunk_from_storer ::
  "('w, 'z) net_scheme \<Rightarrow> key \<Rightarrow> node_info \<Rightarrow> node \<Rightarrow> 'w \<Rightarrow> (transfer_error + bytes) \<times> 'w" where
  "Node_download_chunk_from_storer env chunk_id chunk_storer nd w =
     (if ni_id chunk_storer = nd_key nd
      then let (read_ok, w1) = net_read_ok env w
           in (case ShardStorageManager_read_chunk read_ok chunk_id (nd_storage nd) (nd_disk nd) of
                 Inl e \<Rightarrow> Inl (LocalReadFailed e) | Inr data \<Rightarrow> Inr data, w1)
      else case TcpListenerService_new env w of
             (Inl e, w1) \<Rightarrow> (Inl (ListenerFailed e), w1)
           | (Inr tcp_listener_service, w1) \<Rightarrow>
               let (request, w2) = Request_new env
                     (GetValue chunk_id (TcpListenerService_get_port tcp_listener_service))
                     (Node_to_node_info nd) chunk_storer w1
               in case MessageDispatcher_send_request env request w2 of
                    (Inl e, w3) \<Rightarrow> (Inl (SendDownloadFailed e), w3)
                  | (Inr _, w3) \<Rightarrow>
                      (case TcpListenerService_receive_data env tcp_listener_service w3 of
                         (Inl e, w4) \<Rightarrow> (Inl (ReceiveFailed e), w4)
                       | (Inr data, w4) \<Rightarrow> (Inr data, w4)))"

text \<open>One batch of \<open>find_storers_parallel\<close>: all searches run, then the first error counts.\<close>

fun find_storers_batch ::
  "('w, 'z) net_scheme \<Rightarrow> key list \<Rightarrow> node \<Rightarrow> 'w \<Rightarrow> ((node_op_error + key \<times> node_info) list \<times> node \<times> 'w) run" where
  "find_storers_batch env [] nd w = Ret ([], nd, w)"
| "find_storers_batch env (k # ks) nd w =
     bind_run (Node_find_storer env k nd w) (\<lambda>(r, nd1, w1).
       bind_run (find_storers_batch env ks nd1 w1) (\<lambda>(rs, nd2, w2).
         Ret ((case r of Inl e \<Rightarrow> Inl e | Inr storer \<Rightarrow> Inr (k, storer)) # rs, nd2, w2)))"

fun first_error :: "('e + 'a) list \<Rightarrow> 'e + 'a list" where
  "first_error [] = Inr []"
| "first_error (Inl e # rs) = Inl e"
| "first_error (Inr a # rs) = (case first_error rs of Inl e \<Rightarrow> Inl e | Inr as \<Rightarrow> Inr (a # as))"

function Node_find_storers_parallel ::
  "('w, 'z) net_scheme \<Rightarrow> key list \<Rightarrow> node \<Rightarrow> 'w \<Rightarrow> ((node_op_error + (key \<times> node_info) list) \<times> node \<times> 'w) run" where
  "Node_find_storers_parallel env keys nd w =
     (if keys = [] then Ret (Inr [], nd, w)
      else bind_run (find_storers_batch env (take ALPHA keys) nd w) (\<lambda>(results, nd1, w1).
             case first_error results of
               Inl e \<Rightarrow> Ret (Inl e, nd1, w1)
             | Inr pairs \<Rightarrow>
                 bind_run (Node_find_storers_parallel env (drop ALPHA keys) nd1 w1) (\<lambda>(r, nd2, w2).
                   Ret (case r of Inl e \<Rightarrow> Inl e | Inr later \<Rightarrow> Inr (pairs @ later), nd2, w2))))"
  by pat_completeness auto
termination
  by (relation "measure (\<lambda>(env, keys, nd, w). length keys)") (auto simp: ALPHA_def)

declare Node_find_storers_parallel.simps [simp del]

text \<open>The loop of \<open>download_file\<close>: fetch, decrypt and append one chunk after the other.\<close>

fun download_chunks ::
  "('w, 'z) net_scheme \<Rightarrow> (key \<times> node_info) list \<Rightarrow> file_downloader \<Rightarrow> node \<Rightarrow> 'w \<Rightarrow>
     ((transfer_error + unit) \<times> file_downloader \<times> 'w) run" where
  "download_chunks env [] f nd w = Ret (Inr (), f, w)"
| "download_chunks env ((chunk_id, storer) # rest) f nd w =
     (case Node_download_chunk_from_storer env chunk_id storer nd w of
        (Inl e, w1) \<Rightarrow> Ret (Inl e, f, w1)
      | (Inr data, w1) \<Rightarrow>
          let (wr, w2) = net_write env w1; (flush_ok, w3) = net_create_ok env w2 in
          bind_run (FileDownloader_store_next_chunk_decrypt (net_aead env) wr flush_ok
              \<lparr>ch_data = data, ch_hash = chunk_id\<rparr> f) (\<lambda>(r, f1).
            case r of Inl e \<Rightarrow> Ret (Inl (ShardingFailed e), f1, w3)
                    | Inr _ \<Rightarrow> download_chunks env rest f1 nd w3))"

definition Node_download_file ::
  "('w, 'z) net_scheme \<Rightarrow> file_metadata \<Rightarrow> string \<Rightarrow> node \<Rightarrow> 'w \<Rightarrow> ((transfer_error + string) \<times> node \<times> 'w) run" where
  "Node_download_file env md output_dir nd0 w0 =
     (let chunk_keys = map cm_hash (fm_chunks_metadata md) in
      bind_run (Node_find_storers_parallel env chunk_keys nd0 w0) (\<lambda>(r1, nd1, w1).
        case r1 of
          Inl e \<Rightarrow> Ret (Inl (FindNodeFailed e), nd1, w1)
        | Inr resolved_pairs \<Rightarrow>
            let (create_ok, w2) = net_create_ok env w1;
                (r2, d2) = FileDownloader_new create_ok md output_dir (nd_disk nd1);
                nd2 = nd1\<lparr>nd_disk := d2\<rparr>
            in case r2 of
                 Inl e \<Rightarrow> Ret (Inl (ShardingFailed e), nd2, w2)
               | Inr f \<Rightarrow>
                   bind_run (download_chunks env resolved_pairs f nd2 w2) (\<lambda>(r3, f3, w3).
                     let nd3 = nd2\<lparr>nd_disk := (nd_disk nd2)(fd_output_file_path f3 \<mapsto> fd_flushed f3)\<rparr>
                     in Ret (case r3 of Inl e \<Rightarrow> Inl e
                                      | Inr _ \<Rightarrow> Inr (FileDownloader_get_output_file_path f3), nd3, w3))))"

section \<open>Parallel requests\<close>

lemma join_all_origin:
  assumes "join_all f xs s = (ys, s')" "y \<in> set ys"
  shows "\<exists>x \<in> set xs. \<exists>s1 s2. f x s1 = (y, s2)"
  using assms
proof (induction xs arbitrary: s ys)
  case (Cons x xs)
  then show ?case by (auto split: prod.splits) blast+
qed simp

lemma set_flatten: "set (flatten xs) = {x. Some x \<in> set xs}"
  by (induction xs rule: flatten.induct) auto

lemma length_flatten: "length (flatten xs) \<le> length xs"
  by (induction xs rule: flatten.induct) auto

lemma length_join_all: "join_all f xs s = (ys, s') \<Longrightarrow> length ys = length xs"
  by (induction xs arbitrary: s ys) (auto split: prod.splits)

lemma store_answers:
  assumes "join_all (Node_send_initial_store_request env k) ns s = (answers, s')" "r \<in> set (flatten answers)"
  shows "rs_response_type r = StoreOK"
proof -
  from assms have "Some r \<in> set answers" by (simp add: set_flatten)
  from join_all_origin [OF assms(1) this] obtain n nd w s2 where
    "Node_send_initial_store_request env k n (nd, w) = (Some r, s2)" by auto
  then show ?thesis
    by (auto simp: Node_send_initial_store_request_def Let_def split: prod.split_asm sum.split_asm if_split_asm)
qed

lemma port_answers:
  assumes "join_all (\<lambda>n. Node_send_get_port_request env k (rs_sender n)) ns s = (answers, s')"
    "r \<in> set (flatten answers)"
  shows "\<exists>port. rs_response_type r = PortOK port"
proof -
  from assms have "Some r \<in> set answers" by (simp add: set_flatten)
  from join_all_origin [OF assms(1) this] obtain n nd w s2 where
    "Node_send_get_port_request env k n (nd, w) = (Some r, s2)" by fastforce
  then show ?thesis
    by (auto simp: Node_send_get_port_request_def Let_def
        split: prod.split_asm sum.split_asm response_type.split_asm)
qed

lemma store_chunk_sent:
  assumes "Node_store_chunk env ports c w = (Inr (), w')"
  shows "\<exists>r port w1 w2. r \<in> set ports \<and> rs_response_type r = PortOK port \<and>
     net_tcp_send env (SocketAddr_ip (ni_address (rs_sender r))) port (ch_data c) w1 = (Inr (), w2)"
proof -
  obtain results w1 where j: "join_all (Node_send_chunk_over_tcp env c) ports w = (results, w1)"
    by (cases "join_all (Node_send_chunk_over_tcp env c) ports w")
  with assms have "filter (\<lambda>r. r = Inr ()) results \<noteq> []"
    by (auto simp: Node_store_chunk_def Let_def split: if_splits)
  then have "Inr () \<in> set results" by (auto simp: filter_empty_conv)
  from join_all_origin [OF j this] obtain r s1 s2 where
    "r \<in> set ports" "Node_send_chunk_over_tcp env c r s1 = (Inr (), s2)" by blast
  then show ?thesis
    by (auto simp: Node_send_chunk_over_tcp_def split: response_type.splits prod.splits sum.splits)
qed

section \<open>Upload\<close>

text \<open>The chunk went over a connection to some port without an error.\<close>

definition chunk_sent :: "('w, 'z) net_scheme \<Rightarrow> chunk \<Rightarrow> bool" where
  "chunk_sent env c \<longleftrightarrow> (\<exists>ip port w w'. net_tcp_send env ip port (ch_data c) w = (Inr (), w'))"

lemma upload_chunks_RetE:
  assumes "upload_chunks env u nd w = Ret (Inr x, u', nd', w')"
  obtains (finished) w1 where "net_chunk_input env w = w1" "nd' = nd"
      "FileUploader_get_next_chunk_encrypt (net_aead env) (net_digest env) (fst w1) u = Ret (Inr None, u')"
  | (more) w1 c u1 rs ports nd2 w2 nd3 w3 w4 where "net_chunk_input env w = w1"
      "FileUploader_get_next_chunk_encrypt (net_aead env) (net_digest env) (fst w1) u = Ret (Inr (Some c), u1)"
      "Node_resolve_alpha_closest_nodes_to_key env (ch_hash c) nd (snd w1) = Ret (Inr rs, nd2, w2)"
      "Node_get_ports_for_nodes env rs (ch_hash c) (nd2, w2) = (Inr ports, nd3, w3)"
      "Node_store_chunk env ports c w3 = (Inr (), w4)"
      "upload_chunks env u1 nd3 w4 = Ret (Inr x, u', nd', w')"
proof -
  let ?next = "FileUploader_get_next_chunk_encrypt (net_aead env) (net_digest env) (fst (net_chunk_input env w)) u"
  note eq = assms [unfolded upload_chunks.simps [of env u nd w]]
  show thesis
  proof (cases ?next)
    case (Ret y)
    obtain r u1 where y: "y = (r, u1)" by (cases y)
    show thesis
    proof (cases r)
      case (Inr o1)
      show thesis
      proof (cases o1)
        case None
        then show thesis using finished [OF refl] eq Ret y Inr by simp
      next
        case (Some c)
        note s = Ret y Inr Some
        from eq [simplified s] obtain r2 nd2 w2 where
          r2: "Node_resolve_alpha_closest_nodes_to_key env (ch_hash c) nd (snd (net_chunk_input env w)) = Ret (r2, nd2, w2)"
          by (auto simp: s bind_run_Ret_iff)
        obtain rs where rs: "r2 = Inr rs" using eq s r2 by (cases r2) auto
        obtain r3 nd3 w3 where r3: "Node_get_ports_for_nodes env rs (ch_hash c) (nd2, w2) = (r3, nd3, w3)"
          by (cases "Node_get_ports_for_nodes env rs (ch_hash c) (nd2, w2)") auto
        obtain ports where p: "r3 = Inr ports" using eq s r2 rs r3 by (cases r3) auto
        obtain r4 w4 where r4: "Node_store_chunk env ports c w3 = (r4, w4)"
          by (cases "Node_store_chunk env ports c w3")
        have "r4 = Inr ()" "upload_chunks env u1 nd3 w4 = Ret (Inr x, u', nd', w')"
          using eq s r2 rs r3 p r4 by (cases r4; simp)+
        then show thesis using more [OF refl] s r2 rs r3 p r4 by simp
      qed
    qed (use eq Ret y in simp)
  qed (use eq in simp_all)
qed

lemma upload_chunks_sent:
  assumes "upload_chunks env u nd w = Ret (Inr x, u', nd', w')"
    and "\<And>w. length (ci_nonce (fst (net_chunk_input env w))) = AES_GCM_NONCE_SIZE_B"
  shows "\<exists>ps cs ms. chunks_of (net_aead env) (fu_encryption_key u) ps cs ms \<and> concat ps = fu_remaining u \<and>
     fu_remaining u' = [] \<and> (\<forall>c \<in> set cs. chunk_sent env c) \<and>
     fu_file_metadata u' = (fu_file_metadata u)\<lparr>fm_chunks_metadata :=
       fm_chunks_metadata (fu_file_metadata u) @ ms\<rparr>"
  using assms
proof (induction env u nd w rule: upload_chunks.induct)
  case (1 env u nd w)
  from "1.prems"(1) show ?case
  proof (cases rule: upload_chunks_RetE)
    case (finished w1)
    then obtain wanted where "ci_read (fst w1) = Some wanted"
      by (auto simp: FileUploader_get_next_chunk_encrypt_def split: option.splits)
    from finished get_next_chunk_eq [where ae = "net_aead env" and digest = "net_digest env" and u = u, OF this refl]
    have "fu_remaining u = []" "u' = u" by (auto simp: Let_def split: if_splits option.splits)
    then show ?thesis by (intro exI [of _ "[]"]) simp
  next
    case (more w1 c u1 rs ports nd2 w2 nd3 w3 w4)
    have "\<exists>ps cs ms. chunks_of (net_aead env) (fu_encryption_key u1) ps cs ms \<and> concat ps = fu_remaining u1 \<and>
     fu_remaining u' = [] \<and> (\<forall>c \<in> set cs. chunk_sent env c) \<and>
     fu_file_metadata u' = (fu_file_metadata u1)\<lparr>fm_chunks_metadata :=
       fm_chunks_metadata (fu_file_metadata u1) @ ms\<rparr>"
      by (rule "1.IH" [OF more(2) [folded more(1)] refl refl refl refl more(4) [symmetric] refl refl
            more(5) [symmetric] refl more(6) "1.prems"(2)])
    then obtain ps cs ms where IH: "chunks_of (net_aead env) (fu_encryption_key u1) ps cs ms"
      "concat ps = fu_remaining u1" "fu_remaining u' = []" "\<forall>c \<in> set cs. chunk_sent env c"
      "fu_file_metadata u' = (fu_file_metadata u1)\<lparr>fm_chunks_metadata := fm_chunks_metadata (fu_file_metadata u1) @ ms\<rparr>"
      by blast
    obtain n m where n: "n \<le> length (fu_remaining u)" "cm_nonce m = ci_nonce (fst w1)"
        "chunk_of (net_aead env) (fu_encryption_key u) (take n (fu_remaining u)) c m" "u1 = next_metadata u n m"
      using get_next_chunk_Some [OF more(2)] by metis
    have "chunk_sent env c" using store_chunk_sent [OF more(5)] by (auto simp: chunk_sent_def)
    then show ?thesis
      using IH n "1.prems"(2) more(1)
      by (intro exI [of _ "take n (fu_remaining u) # ps"] exI [of _ "c # cs"] exI [of _ "m # ms"])
        (auto simp add: next_metadata_def)
  qed
qed

section \<open>Download\<close>

lemma first_error_keys:
  assumes "find_storers_batch env ks nd w = Ret (rs, nd', w')" "first_error rs = Inr pairs"
  shows "map fst pairs = ks"
  using assms
proof (induction ks arbitrary: nd w rs pairs)
  case (Cons k ks)
  then obtain r nd1 w1 rs' where
    "rs = (case r of Inl e \<Rightarrow> Inl e | Inr storer \<Rightarrow> Inr (k, storer)) # rs'"
    "find_storers_batch env ks nd1 w1 = Ret (rs', nd', w')"
    by (auto simp: bind_run_Ret_iff)
  with Cons show ?case by (cases r) (auto split: sum.split_asm)
qed auto

lemma find_storers_parallel_keys:
  assumes "Node_find_storers_parallel env keys nd w = Ret (Inr pairs, nd', w')"
  shows "map fst pairs = keys"
  using assms
proof (induction env keys nd w arbitrary: pairs rule: Node_find_storers_parallel.induct)
  case (1 env keys nd w)
  show ?case
  proof (cases "keys = []")
    case True
    with "1.prems" show ?thesis by (simp add: Node_find_storers_parallel.simps)
  next
    case False
    with "1.prems" obtain results nd1 w1 where b: "find_storers_batch env (take ALPHA keys) nd w = Ret (results, nd1, w1)"
      by (auto simp: Node_find_storers_parallel.simps [of env keys] bind_run_Ret_iff)
    obtain first where f: "first_error results = Inr first"
      using "1.prems" b False
      by (cases "first_error results") (auto simp: Node_find_storers_parallel.simps [of env keys])
    obtain later nd2 w2 where l: "Node_find_storers_parallel env (drop ALPHA keys) nd1 w1 = Ret (Inr later, nd2, w2)"
        "pairs = first @ later" "nd2 = nd'" "w2 = w'"
    proof -
      obtain r nd2 w2 where r: "Node_find_storers_parallel env (drop ALPHA keys) nd1 w1 = Ret (r, nd2, w2)"
          "(case r of Inl e \<Rightarrow> Inl e | Inr later \<Rightarrow> Inr (first @ later)) = Inr pairs" "nd2 = nd'" "w2 = w'"
        using "1.prems" b f False
        by (auto simp: Node_find_storers_parallel.simps [of env keys] bind_run_Ret_iff)
      then show thesis using that by (cases r) auto
    qed
    have "map fst later = drop ALPHA keys"
      using "1.IH" [OF False f] l by simp
    then show ?thesis using first_error_keys [OF b f] l(2) by simp
  qed
qed

text \<open>
  The data that the download of a file receives, chunk after chunk: the fetches of \<open>download_file\<close> alone.
\<close>

fun received_chunks :: "('w, 'z) net_scheme \<Rightarrow> (key \<times> node_info) list \<Rightarrow> node \<Rightarrow> 'w \<Rightarrow> bytes list" where
  "received_chunks env [] nd w = []"
| "received_chunks env ((chunk_id, storer) # rest) nd w =
     (case Node_download_chunk_from_storer env chunk_id storer nd w of
        (Inl _, _) \<Rightarrow> []
      | (Inr data, w1) \<Rightarrow>
          let (_, w2) = net_write env w1; (_, w3) = net_create_ok env w2 in data # received_chunks env rest nd w3)"

definition Node_download_received :: "('w, 'z) net_scheme \<Rightarrow> file_metadata \<Rightarrow> string \<Rightarrow> node \<Rightarrow> 'w \<Rightarrow> bytes list" where
  "Node_download_received env md output_dir nd w =
     (case Node_find_storers_parallel env (map cm_hash (fm_chunks_metadata md)) nd w of
        Ret (Inr pairs, nd1, w1) \<Rightarrow>
          let (create_ok, w2) = net_create_ok env w1
          in received_chunks env pairs (nd1\<lparr>nd_disk := snd (FileDownloader_new create_ok md output_dir (nd_disk nd1))\<rparr>) w2
      | _ \<Rightarrow> [])"

text \<open>
  What the authentication tag of AES-GCM is for: nobody without the key has made any of these data, as a ciphertext
  that the cipher accepts. Whatever of them it accepts under a nonce was issued, for this nonce, by the owner of the key.
\<close>

definition unforged :: "aead \<Rightarrow> bytes \<Rightarrow> (bytes \<times> bytes) set \<Rightarrow> bytes list \<Rightarrow> bool" where
  "unforged ae k issued received \<longleftrightarrow>
     (\<forall>data \<in> set received. \<forall>nonce p. ae_decrypt ae k nonce data = Some p \<longrightarrow> (nonce, data) \<in> issued)"

definition issued_chunks :: "chunk list \<Rightarrow> chunk_metadata list \<Rightarrow> (bytes \<times> bytes) set" where
  "issued_chunks cs ms = set (zip (map cm_nonce ms) (map ch_data cs))"

lemma issued_unique:
  assumes "distinct (map cm_nonce ms)" "(cm_nonce m, data) \<in> issued_chunks cs ms" "(c, m) \<in> set (zip cs ms)"
  shows "data = ch_data c"
  using assms
  by (auto simp: issued_chunks_def set_zip distinct_conv_nth) metis

lemma store_next_chunk_success:
  assumes "FileDownloader_store_next_chunk_decrypt ae wr flush_ok c f = Ret (Inr x, f1)"
  shows "FileDownloader_store_next_chunk_decrypt ae WriteOk True c f = Ret (Inr x, f1)"
    and "\<exists>p. ae_decrypt ae (fm_encryption_key (fd_file_metadata f))
        (cm_nonce (fm_chunks_metadata (fd_file_metadata f) ! fd_chunk_index f)) (ch_data c) = Some p"
  using assms unfolding FileDownloader_store_next_chunk_decrypt_def decrypt_payload_def
  by (auto simp: Let_def split: if_split_asm option.split_asm)

lemma download_chunks_content:
  assumes "download_chunks env pairs f nd w = Ret (Inr x, f', w')" and ae: "aead_spec (net_aead env)"
    and "chunks_of (net_aead env) k ps cs ms"
    and "\<forall>data \<in> set (received_chunks env pairs nd w). \<forall>(c, m) \<in> set (zip cs ms).
      ae_decrypt (net_aead env) k (cm_nonce m) data \<noteq> None \<longrightarrow> data = ch_data c"
    and "map fst pairs = map cm_hash ms" "fm_chunks_metadata (fd_file_metadata f) = ms0 @ ms"
    and "fd_chunk_index f = length ms0" "fm_encryption_key (fd_file_metadata f) = k" "length k = AES_KEY_SIZE_B"
  shows "fd_content f' = fd_content f @ concat ps \<and> fd_output_file_path f' = fd_output_file_path f \<and>
    (ms \<noteq> [] \<longrightarrow> fd_flushed f' = fd_content f')"
  using assms(1,3-)
proof (induction pairs arbitrary: f w ps cs ms ms0)
  case Nil
  then show ?case by (auto elim: chunks_of.elims)
next
  case (Cons pair pairs)
  obtain chunk_id storer where pair: "pair = (chunk_id, storer)" by (cases pair)
  from Cons.prems(4) obtain m ms' where ms: "ms = m # ms'" "cm_hash m = chunk_id" "map fst pairs = map cm_hash ms'"
    by (cases ms) (auto simp: pair)
  from Cons.prems(2) ms obtain p ps' c cs' where pc: "ps = p # ps'" "cs = c # cs'"
      "chunk_of (net_aead env) k p c m" "length (cm_nonce m) = AES_GCM_NONCE_SIZE_B" "chunks_of (net_aead env) k ps' cs' ms'"
    by (auto elim: chunks_of.elims)
  obtain data w1 where dl: "Node_download_chunk_from_storer env chunk_id storer nd w = (Inr data, w1)"
    using Cons.prems(1) pair
    by (cases "Node_download_chunk_from_storer env chunk_id storer nd w"; cases "fst (Node_download_chunk_from_storer env chunk_id storer nd w)") auto
  obtain wr w2 where wr: "net_write env w1 = (wr, w2)" by (cases "net_write env w1")
  obtain fl w3 where fl: "net_create_ok env w2 = (fl, w3)" by (cases "net_create_ok env w2")
  let ?c = "\<lparr>ch_data = data, ch_hash = chunk_id\<rparr>"
  obtain f1 y where f1: "FileDownloader_store_next_chunk_decrypt (net_aead env) wr fl ?c f = Ret (Inr y, f1)"
      "download_chunks env pairs f1 nd w3 = Ret (Inr x, f', w')"
  proof -
    obtain r f1 where r: "FileDownloader_store_next_chunk_decrypt (net_aead env) wr fl ?c f = Ret (r, f1)"
      using Cons.prems(1) pair dl wr fl by (auto simp: bind_run_Ret_iff)
    then show thesis using that Cons.prems(1) pair dl wr fl by (cases r) auto
  qed
  have m: "fd_chunk_index f < length (fm_chunks_metadata (fd_file_metadata f))"
      "fm_chunks_metadata (fd_file_metadata f) ! fd_chunk_index f = m"
    using Cons.prems(5,6) ms(1) by simp_all
  have rec: "received_chunks env (pair # pairs) nd w = data # received_chunks env pairs nd w3" using pair dl wr fl by simp
  have auth: "\<forall>data \<in> set (received_chunks env pairs nd w3). \<forall>(c, m) \<in> set (zip cs' ms').
      ae_decrypt (net_aead env) k (cm_nonce m) data \<noteq> None \<longrightarrow> data = ch_data c"
    using Cons.prems(3) rec ms(1) pc(2) by auto
  have "data = ch_data c"
    using store_next_chunk_success(2) [OF f1(1)] Cons.prems(3,7) rec ms(1) pc(2) m(2) by auto
  then have "?c = c" using pc(3) ms(2) by (simp add: chunk_of_def)
  with store_next_chunk_success(1) [OF f1(1)]
    store_next_chunk_of [OF ae _ m _ pc(4), of p c] pc(3) Cons.prems(7,8)
  have eq: "f1 = f\<lparr>fd_content := fd_content f @ p, fd_chunk_index := Suc (fd_chunk_index f),
      fd_flushed := if Suc (fd_chunk_index f) = length (fm_chunks_metadata (fd_file_metadata f))
        then fd_content f @ p else fd_flushed f\<rparr>" by simp
  have "fd_content f' = fd_content f1 @ concat ps' \<and> fd_output_file_path f' = fd_output_file_path f1 \<and>
    (ms' \<noteq> [] \<longrightarrow> fd_flushed f' = fd_content f')"
    by (rule Cons.IH [OF f1(2) pc(5) auth ms(3), of "ms0 @ [m]"]) (use Cons.prems(5-8) ms(1) eq in simp_all)
  moreover have "fd_flushed f' = fd_content f'" if "ms' = []"
    using that f1(2) ms pc(5) eq Cons.prems(5,6) by auto
  ultimately show ?case using eq pc(1) ms(1) by auto
qed

section \<open>Main results\<close>

text \<open>Claim C26. Who receives a chunk: when the search for responsible nodes succeeds, it returns
  between one and \<open>ALPHA\<close> answers, all of them \<open>STORE_OK\<close>, ordered by the distance of their
  senders to the chunk, and no \<open>STORE_OK\<close> answer that the nodes found for the chunk gave and that is left out
  is closer than one of them; so the request for ports is never refused for having no node or too many
  of them, and its answers are at most \<open>ALPHA\<close> and each of them names a port.\<close>

theorem upload_targets:
  assumes "Node_resolve_alpha_closest_nodes_to_key env k nd w = Ret (Inr rs, nd1, w1)"
  shows "rs \<noteq> [] \<and> length rs \<le> 3 \<and> (\<forall>r \<in> set rs. rs_response_type r = StoreOK) \<and>
    sorted (map (\<lambda>r. Key_distance (ni_id (rs_sender r)) k) rs) \<and>
    (\<exists>ns nd0 w0 answers left_out. Node_find_node env k nd w = Ret (Inr ns, nd0, w0) \<and>
       join_all (Node_send_initial_store_request env k) ns (nd0, w0) = (answers, nd1, w1) \<and>
       mset (flatten answers) = mset rs + mset left_out \<and> (left_out \<noteq> [] \<longrightarrow> length rs = 3) \<and>
       (\<forall>r \<in> set rs. \<forall>r' \<in> set left_out.
          Key_distance (ni_id (rs_sender r)) k \<le> Key_distance (ni_id (rs_sender r')) k)) \<and>
    (case fst (Node_get_ports_for_nodes env rs k (nd1, w1)) of
       Inl e \<Rightarrow> e = NoPorts
     | Inr ports \<Rightarrow> ports \<noteq> [] \<and> length ports \<le> 3 \<and> (\<forall>r \<in> set ports. \<exists>port. rs_response_type r = PortOK port))"
proof -
  from assms obtain r nd2 w2 where fn: "Node_find_node env k nd w = Ret (r, nd2, w2)"
    by (auto simp: Node_resolve_alpha_closest_nodes_to_key_def bind_run_Ret_iff)
  obtain ns where r: "r = Inr ns"
    using assms fn by (cases r) (auto simp: Node_resolve_alpha_closest_nodes_to_key_def)
  obtain answers s3 where j: "join_all (Node_send_initial_store_request env k) ns (nd2, w2) = (answers, s3)"
    by (cases "join_all (Node_send_initial_store_request env k) ns (nd2, w2)")
  let ?sort = "sort_key (\<lambda>r. Key_distance (ni_id (rs_sender r)) k) (flatten answers)"
  have rs: "flatten answers \<noteq> []" "rs = take 3 ?sort" "s3 = (nd1, w1)"
    using assms fn r j
    by (auto simp: Node_resolve_alpha_closest_nodes_to_key_def ALPHA_def Let_def split: prod.split_asm if_split_asm)
  have ok: "\<forall>r \<in> set rs. rs_response_type r = StoreOK"
    using store_answers [OF j] rs(2) set_take_subset [of 3 ?sort] by auto
  define left_out where "left_out = drop 3 ?sort"
  have sort: "?sort = rs @ left_out" using rs(2) by (simp add: left_out_def)
  have "mset (flatten answers) = mset ?sort" by simp
  then have all: "mset (flatten answers) = mset rs + mset left_out" unfolding sort by simp
  have "sorted (map (\<lambda>r. Key_distance (ni_id (rs_sender r)) k) ?sort)" by simp
  then have closest: "\<forall>r \<in> set rs. \<forall>r' \<in> set left_out.
      Key_distance (ni_id (rs_sender r)) k \<le> Key_distance (ni_id (rs_sender r')) k"
    unfolding sort by (auto simp: sorted_append)
  have full: "left_out \<noteq> [] \<longrightarrow> length rs = 3" using rs(2) by (simp add: left_out_def)
  have ne: "rs \<noteq> []" using rs(1,2) by (metis length_greater_0_conv length_sort take_eq_Nil zero_neq_numeral)
  have len: "length rs \<le> 3" using rs(2) by simp
  obtain ports s4 where p: "join_all (\<lambda>n. Node_send_get_port_request env k (rs_sender n)) rs (nd1, w1) = (ports, s4)"
    by (cases "join_all (\<lambda>n. Node_send_get_port_request env k (rs_sender n)) rs (nd1, w1)")
  have "length (flatten ports) \<le> 3"
    using length_flatten [of ports] length_join_all [OF p] len by simp
  with ne len p port_answers [OF p]
  have "case fst (Node_get_ports_for_nodes env rs k (nd1, w1)) of
       Inl e \<Rightarrow> e = NoPorts
     | Inr ports \<Rightarrow> ports \<noteq> [] \<and> length ports \<le> 3 \<and> (\<forall>r \<in> set ports. \<exists>port. rs_response_type r = PortOK port)"
    by (simp add: Node_get_ports_for_nodes_def ALPHA_def Let_def)
  moreover have "sorted (map (\<lambda>r. Key_distance (ni_id (rs_sender r)) k) rs)"
    using rs(2) by (simp add: take_map [symmetric] sorted_wrt_take)
  ultimately show ?thesis
    using ne len ok fn [unfolded r] j [unfolded rs(3)] all full closest by (intro conjI exI) assumption+
qed

text \<open>Claim C3. A successful upload is complete: the file existed and was within the size limit,
  the metadata names it and describes chunks whose pieces concatenate to exactly its contents,
  every chunk was sent over a connection without an error, and the file is in the list of
  uploaded files.\<close>

theorem upload_file_complete:
  assumes "Node_upload_file env path nd w = Ret (Inr md, nd', w')"
    and "\<And>w. length (ci_nonce (fst (net_chunk_input env w))) = AES_GCM_NONCE_SIZE_B"
  shows "\<exists>content ps cs. nd_disk nd path = Some content \<and> length content \<le> 4096 * 1024 * 1024 \<and>
    Path_file_name path = Some (fm_name md) \<and> concat ps = content \<and>
    chunks_of (net_aead env) (fm_encryption_key md) ps cs (fm_chunks_metadata md) \<and>
    (\<forall>c \<in> set cs. chunk_sent env c) \<and> HashMap_get (fmg_uploaded_files (nd_file_manager nd')) path \<noteq> None"
proof -
  obtain content where d: "nd_disk nd path = Some content"
    using assms(1) by (auto simp: Node_upload_file_def split: if_split_asm)
  obtain open_ok w1 where o: "net_read_ok env w = (open_ok, w1)" by (cases "net_read_ok env w")
  obtain gk w2 where g: "net_gen_key env w1 = (gk, w2)" by (cases "net_gen_key env w1")
  note up = assms(1) [unfolded Node_upload_file_def d o g Let_def prod.case]
  obtain r1 d1 where n: "FileUploader_new open_ok gk path (nd_disk nd) = Ret (r1, d1)"
    using up by (auto simp: bind_run_Ret_iff)
  obtain u where u: "r1 = Inr u" using up n by (cases r1) auto
  have size: "length content \<le> 4096 * 1024 * 1024" "Path_file_name path = Some (fm_name (fu_file_metadata u))"
      "u = \<lparr>fu_remaining = content, fu_file_metadata = \<lparr>fm_name = fm_name (fu_file_metadata u), fm_encryption_key = gk,
          fm_chunks_metadata = []\<rparr>, fu_encryption_key = gk\<rparr>"
    using n u d by (auto simp: FileUploader_new_def FileUploader_new_with_max_file_size_def Let_def
        MAX_FILE_SIZE_MB_def split: if_split_asm option.split_asm)
  obtain r3 u3 nd3 w3 where l: "upload_chunks env u (nd\<lparr>nd_disk := d1\<rparr>) w2 = Ret (r3, u3, nd3, w3)"
    using up n u by (auto simp: bind_run_Ret_iff)
  obtain x where x: "r3 = Inr x" using up n u l by (cases r3) auto
  from upload_chunks_sent [OF l [unfolded x] assms(2)] size(3) obtain ps cs ms where
    ch: "chunks_of (net_aead env) gk ps cs ms" "concat ps = content" "\<forall>c \<in> set cs. chunk_sent env c"
      "fu_file_metadata u3 = (fu_file_metadata u)\<lparr>fm_chunks_metadata := ms\<rparr>" "fu_remaining u3 = []"
    by (metis append_Nil file_metadata.select_convs(3) file_uploader.select_convs)
  have "md = fu_file_metadata u3 \<and> nd' = nd3\<lparr>nd_file_manager :=
      FileManager_add_file_uploaded_entry (fst (net_now env w3)) path (nd_file_manager nd3)\<rparr>"
    using up n u l x ch(5) by (auto simp: FileUploader_get_metadata_def split: prod.split_asm if_split_asm)
  moreover have "HashMap_get (fmg_uploaded_files (FileManager_add_file_uploaded_entry t path fm)) path \<noteq> None" for t fm
    by (simp add: FileManager_add_file_uploaded_entry_def HashMap_put_def HashMap_get_def update_conv' split: option.split)
  moreover have "fm_encryption_key (fu_file_metadata u) = gk" by (subst size(3)) simp
  ultimately have "fm_name md = fm_name (fu_file_metadata u)" "fm_encryption_key md = gk" "fm_chunks_metadata md = ms"
      "HashMap_get (fmg_uploaded_files (nd_file_manager nd')) path \<noteq> None"
    using ch(4) by simp_all
  then show ?thesis using d size(1,2) ch(1-3) by auto
qed

text \<open>Claim C2. A download that succeeds is the file that was uploaded, whatever the contacted
  nodes send, in whatever order and for whatever chunk: when the chunks of the metadata have different nonces and no
  storer sends a forgery, that is, everything received that the cipher accepts under a nonce is a ciphertext that the
  uploader made with this nonce, a returned path is the one named by the metadata in the output directory and the
  file there has exactly the pieces of the chunks. The hypothesis allows storers that send data the cipher rejects, other
  chunks of the same file, or nothing.\<close>

theorem download_file_authentic:
  assumes "Node_download_file env md output_dir nd w = Ret (Inr out, nd', w')"
    and "aead_spec (net_aead env)" "length (fm_encryption_key md) = AES_KEY_SIZE_B"
    and "chunks_of (net_aead env) (fm_encryption_key md) ps cs (fm_chunks_metadata md)"
    and "distinct (map cm_nonce (fm_chunks_metadata md))"
    and "unforged (net_aead env) (fm_encryption_key md) (issued_chunks cs (fm_chunks_metadata md))
      (Node_download_received env md output_dir nd w)"
  shows "out = Path_join output_dir (fm_name md) \<and> nd_disk nd' out = Some (concat ps)"
proof -
  obtain r1 nd1 w1 where f: "Node_find_storers_parallel env (map cm_hash (fm_chunks_metadata md)) nd w = Ret (r1, nd1, w1)"
    using assms(1) by (auto simp: Node_download_file_def Let_def bind_run_Ret_iff)
  obtain pairs where p: "r1 = Inr pairs" using assms(1) f by (cases r1) (auto simp: Node_download_file_def)
  note keys = find_storers_parallel_keys [OF f [unfolded p]]
  obtain create_ok w2 where c: "net_create_ok env w1 = (create_ok, w2)" by (cases "net_create_ok env w1")
  define f0 where "f0 = \<lparr>fd_content = [], fd_flushed = [], fd_file_metadata = md, fd_chunk_index = 0,
      fd_output_file_path = Path_join output_dir (fm_name md)\<rparr>"
  have new: "FileDownloader_new create_ok md output_dir (nd_disk nd1) =
      (Inr f0, (nd_disk nd1)(Path_join output_dir (fm_name md) \<mapsto> []))"
    using assms(1) f p c by (auto simp: Node_download_file_def FileDownloader_new_def Let_def f0_def split: if_split_asm)
  let ?nd2 = "nd1\<lparr>nd_disk := (nd_disk nd1)(Path_join output_dir (fm_name md) \<mapsto> [])\<rparr>"
  obtain r3 f3 w3 where d: "download_chunks env pairs f0 ?nd2 w2 = Ret (r3, f3, w3)"
    using assms(1) f p c new by (auto simp: Node_download_file_def Let_def bind_run_Ret_iff)
  obtain x where x: "r3 = Inr x" "out = fd_output_file_path f3"
      "nd' = ?nd2\<lparr>nd_disk := (nd_disk ?nd2)(fd_output_file_path f3 \<mapsto> fd_flushed f3)\<rparr>"
    using assms(1) f p c new d
    by (cases r3) (auto simp: Node_download_file_def Let_def FileDownloader_get_output_file_path_def)
  have "Node_download_received env md output_dir nd w = received_chunks env pairs ?nd2 w2"
    using f p c new by (simp add: Node_download_received_def)
  then have auth: "\<forall>data \<in> set (received_chunks env pairs ?nd2 w2). \<forall>(c, m) \<in> set (zip cs (fm_chunks_metadata md)).
      ae_decrypt (net_aead env) (fm_encryption_key md) (cm_nonce m) data \<noteq> None \<longrightarrow> data = ch_data c"
    using assms(6) issued_unique [OF assms(5)] unfolding unforged_def by fastforce
  have "fd_content f3 = fd_content f0 @ concat ps \<and> fd_output_file_path f3 = fd_output_file_path f0 \<and>
      (fm_chunks_metadata md \<noteq> [] \<longrightarrow> fd_flushed f3 = fd_content f3)"
    by (rule download_chunks_content [OF d [unfolded x(1)] assms(2,4) auth keys, of "[]"])
      (use assms(3) in \<open>simp_all add: f0_def\<close>)
  moreover have "ps = []" "f3 = f0" if "fm_chunks_metadata md = []"
    using that assms(4) keys d by (auto elim: chunks_of.elims)
  ultimately have "fd_flushed f3 = concat ps \<and> fd_output_file_path f3 = Path_join output_dir (fm_name md)"
    by (cases "fm_chunks_metadata md = []") (auto simp: f0_def)
  then show ?thesis using x by simp
qed

section \<open>A network that serves uploads\<close>

text \<open>
  Contact 5 is the only contact of node 0; it answers \<open>FIND_NODE\<close> with no contact, \<open>STORE\<close> with
  \<open>STORE_OK\<close> and \<open>GET_PORT\<close> with port 9. The outside state is the last datagram, which holds
  only the kind of the request.
\<close>

definition request_tag :: "request \<Rightarrow> u8" where
  "request_tag r = (case rq_request_type r of FindNode _ \<Rightarrow> 1 | Store _ \<Rightarrow> 2 | GetPort _ \<Rightarrow> 3 | _ \<Rightarrow> 0)"

definition tag_answer :: "u8 \<Rightarrow> response_type" where
  "tag_answer t = (if t = 1 then Nodes [] else if t = 2 then StoreOK else PortOK 9)"

definition serving_env :: "bytes net" where
  "serving_env =
     \<lparr>env_new_v4 = (\<lambda>w. (1, w)), env_json_request = (\<lambda>r. Some [request_tag r]), env_json_response = (\<lambda>_. Some []),
      env_udp_send = (\<lambda>bs a w. (Some 1, bs)),
      env_await = (\<lambda>rid t w. (Delivered (Response_new (tag_answer (hd w)) (contact 5) (contact 0) rid), w)),
      tcp_bind = (\<lambda>a w. (Some 0, w)), tcp_local_port = (\<lambda>l w. (Some 9, w)),
      tcp_accept = (\<lambda>l t w. (Accepted 1, w)), tcp_read_to_end = (\<lambda>s w. (Some [], w)),
      net_now = (\<lambda>w. (0, w)), net_read_ok = (\<lambda>w. (True, w)), net_create_ok = (\<lambda>w. (True, w)),
      net_write = (\<lambda>w. (WriteOk, w)), net_tcp_send = (\<lambda>ip p bs w. (Inr (), w)),
      net_chunk_input = (\<lambda>w. (sample_inputs 0, w)), net_gen_key = (\<lambda>w. (replicate 32 0, w)),
      net_aead = sample_aead, net_digest = (\<lambda>_. replicate 19 0 @ [4])\<rparr>"

definition serving_nd :: node where
  "serving_nd = (small_nd [[], [], [contact 5]])\<lparr>nd_disk := [''a'' \<mapsto> [1, 2]]\<rparr>"

lemma serving_env_simps [simp]:
  "env_new_v4 serving_env w = (1, w)" "env_json_request serving_env r = Some [request_tag r]"
  "env_udp_send serving_env bs a w = (Some 1, bs)"
  "env_await serving_env rid t w = (Delivered (Response_new (tag_answer (hd w)) (contact 5) (contact 0) rid), w)"
  "net_now serving_env w = (0, w)" "net_read_ok serving_env w = (True, w)"
  "net_tcp_send serving_env ip p bs w = (Inr (), w)" "net_chunk_input serving_env w = (sample_inputs 0, w)"
  "net_gen_key serving_env w = (replicate 32 0, w)" "net_aead serving_env = sample_aead"
  "net_digest serving_env bs = replicate 19 0 @ [4]"
  by (simp_all add: serving_env_def)

lemma serving_nd_simps [simp]:
  "nd_request_map serving_nd = []" "Node_to_node_info serving_nd = contact 0"
  "nd_routing_table serving_nd = small_rt [[], [], [contact 5]]" "nd_disk serving_nd = [''a'' \<mapsto> [1, 2]]"
  by (simp_all add: serving_nd_def small_nd_def Node_new_def RequestMap_new_def HashMap_new_def
      Node_to_node_info_def NodeInfo_new_def contact_def)

lemma serving_request:
  assumes "rq_receiver req \<noteq> rq_sender req" "nd_request_map nd = []"
  shows "Node_send_request_and_wait serving_env req t nd w =
    (Inr (Response_new (tag_answer (request_tag req)) (contact 5) (contact 0) (rq_request_id req)), nd, [request_tag req])"
  using assms
  by (simp add: Node_send_request_and_wait_def MessageDispatcher_send_request_def Let_def MAX_MESSAGE_SIZE_eq
      Response_new_def request_map_defs HashMap_put_def HashMap_delete_def HashMap_get_def
      node.update_convs[symmetric])

lemma serving_rt_inv: "rt_inv (small_rt [[], [], [contact 5]])"
  by (rule small_rt_inv) (simp_all add: K_def index_eval)

lemma serving_closest:
  "RoutingTable_lookup_get_alpha_closest 0 (small_rt [[], [], [contact 5]]) (small_key 4) =
     Ret (Inr [contact 5], small_rt [[], [], [contact 5]])"
proof -
  let ?rt = "small_rt [[], [], [contact 5]]"
  have b: "rt_buckets ?rt ! 2 = (KBucket_new 0)\<lparr>kb_nodes := [contact 5]\<rparr>" "length (rt_buckets ?rt) = 160"
    by (simp_all add: small_rt_buckets const_defs)
  have "KBucket_set_last_lookup_now 0 (rt_buckets ?rt ! 2) = rt_buckets ?rt ! 2"
    unfolding b(1) by (simp add: KBucket_set_last_lookup_now_def KBucket_new_def)
  then have same: "?rt\<lparr>rt_buckets := (rt_buckets ?rt)[2 := KBucket_set_last_lookup_now 0 (rt_buckets ?rt ! 2)]\<rparr> = ?rt"
    by simp
  have "RoutingTable_get_n_closest ?rt (small_key 4) ALPHA = Ret (RoutingTable_get_n_closest_slow ?rt (small_key 4) ALPHA)"
    by (rule get_n_closest_exact [OF serving_rt_inv, of _ 2]) (simp_all add: small_rt_all ALPHA_def index_eval)
  also have "RoutingTable_get_n_closest_slow ?rt (small_key 4) ALPHA = Inr [contact 5]"
    using small_rt_all [of "[[], [], [contact 5]]"]
    by (simp add: RoutingTable_get_n_closest_slow_def RoutingTable_get_all_nodeinfos_def ALPHA_def)
  finally show ?thesis
    by (simp add: RoutingTable_lookup_get_alpha_closest_def RoutingTable_lookup_get_n_closest_def index_eval
        b(2) Let_def same)
qed

lemma serving_store: "Node_store_nodeinfo serving_env (contact 5) serving_nd w = Ret (Inr (), serving_nd, w)"
proof -
  let ?rt = "small_rt [[], [], [contact 5]]"
  have b: "rt_buckets ?rt ! 2 = (KBucket_new 0)\<lparr>kb_nodes := [contact 5]\<rparr>" by (simp add: small_rt_buckets)
  have o: "others (contact 5) (rt_buckets ?rt ! 2) = []" by (simp add: b others_def)
  have "(rt_buckets ?rt ! 2)\<lparr>kb_nodes := [contact 5]\<rparr> = rt_buckets ?rt ! 2" by (simp add: b)
  then have "RoutingTable_store_nodeinfo (locked_ping serving_env serving_nd) (contact 5) ?rt w = Ret (Inr (), ?rt, w)"
    using store_nodeinfo_space [OF serving_rt_inv, of "contact 5" 2 "locked_ping serving_env serving_nd" w] o
    by (simp add: index_eval const_defs)
  moreover have "serving_nd\<lparr>nd_routing_table := ?rt\<rparr> = serving_nd"
    by (simp add: serving_nd_def small_nd_def)
  ultimately show ?thesis by (simp add: Node_store_nodeinfo_def)
qed

lemma serving_lookup: "Node_single_lookup serving_env target (contact 5) False serving_nd w =
    (LookupResponse_new_nodes_successful (contact 5) [], serving_nd, [1])"
  by (simp add: Node_single_lookup_def Request_new_def serving_request Let_def request_tag_def tag_answer_def
      Response_new_def)

lemma serving_find_node:
  "Node_find_node serving_env (small_key 4) serving_nd w = Ret (Inr [contact 5], serving_nd, [1])"
proof -
  have same: "serving_nd\<lparr>nd_routing_table := small_rt [[], [], [contact 5]]\<rparr> = serving_nd"
    by (simp add: serving_nd_def small_nd_def)
  have "\<exists>b. Node_lookup_loop serving_env (small_key 4) False
    (LookupBuffer_new (small_key 4) [contact 5] (contact 0)) (serving_nd, w) =
    Some ([LookupResponse_new_nodes_successful (contact 5) []], b, serving_nd, [1]) \<and>
    Node_last_round serving_env (small_key 4) b (serving_nd, [1]) = (b, serving_nd, [1]) \<and>
    LookupBuffer_get_responsive_nodes b = [contact 5] \<and> LookupBuffer_get_resulting_vector b = [contact 5]"
    unfolding Node_lookup_loop_def
    apply (subst lookup_rounds.simps)
    apply (simp add: lookup_eval Node_lookup_round_def serving_lookup)
    apply (subst lookup_rounds.simps)
    apply (simp add: lookup_eval Node_lookup_round_def serving_lookup Node_last_round_def LookupBuffer_get_responsive_nodes_def)
    done
  then show ?thesis
    by (auto simp: Node_find_node_def serving_closest same serving_store Let_def)
qed

lemma serving_resolve:
  "Node_resolve_alpha_closest_nodes_to_key serving_env (small_key 4) serving_nd w =
     Ret (Inr [Response_new StoreOK (contact 5) (contact 0) 1], serving_nd, [2])"
  by (simp add: Node_resolve_alpha_closest_nodes_to_key_def serving_find_node Node_send_initial_store_request_def
      Request_new_def serving_request request_tag_def tag_answer_def Response_new_def ALPHA_def)

lemma serving_ports:
  "Node_get_ports_for_nodes serving_env [Response_new StoreOK (contact 5) (contact 0) 1] (small_key 4) (serving_nd, w) =
     (Inr [Response_new (PortOK 9) (contact 5) (contact 0) 1], serving_nd, [3])"
  by (simp add: Node_get_ports_for_nodes_def Node_send_get_port_request_def Request_new_def serving_request
      request_tag_def tag_answer_def Response_new_def ALPHA_def)

theorem upload_targets_witness:
  "\<exists>rs. Node_resolve_alpha_closest_nodes_to_key serving_env (small_key 4) serving_nd [] = Ret (Inr rs, serving_nd, [2]) \<and>
    rs \<noteq> [] \<and> length rs \<le> 3 \<and> (\<forall>r \<in> set rs. rs_response_type r = StoreOK)"
  using upload_targets [OF serving_resolve [of "[]"]] serving_resolve [of "[]"] by blast

lemma serving_chunk:
  assumes "length (fu_encryption_key u) = 32" "fu_remaining u = [1, 2]"
  obtains e m where "FileUploader_get_next_chunk_encrypt sample_aead (net_digest serving_env) (sample_inputs 0) u =
    Ret (Inr (Some \<lparr>ch_data = e, ch_hash = small_key 4\<rparr>), next_metadata u 2 m)"
proof -
  have n: "2 = file_read padded_size 2 (fu_remaining u)"
    using assms(2) by (simp add: file_read_def CHUNK_DATA_SIZE_KB_def)
  have r: "ci_read (sample_inputs 0) = Some 2" by (simp add: sample_inputs_def)
  have h: "Key_from_input (net_digest serving_env) bs = small_key 4" for bs
    by (simp add: Key_from_input_def small_key_def K_def)
  obtain e where e: "ae_encrypt sample_aead k (ci_nonce (sample_inputs 0)) p = Some (e p)" for k p
    by (simp add: sample_aead_def)
  show thesis
    using get_next_chunk_eq [where ae = sample_aead and digest = "net_digest serving_env", OF r n] assms
    by (auto simp: h e Let_def AES_KEY_SIZE_B_def intro: that)
qed

lemma serving_upload:
  assumes "length (fu_encryption_key u) = 32" "fu_remaining u = [1, 2]"
  shows "\<exists>u'. upload_chunks serving_env u serving_nd w = Ret (Inr (), u', serving_nd, [3]) \<and> fu_remaining u' = []"
proof -
  obtain e m where c: "FileUploader_get_next_chunk_encrypt sample_aead (net_digest serving_env) (sample_inputs 0) u =
    Ret (Inr (Some \<lparr>ch_data = e, ch_hash = small_key 4\<rparr>), next_metadata u 2 m)"
    using serving_chunk [OF assms] .
  have "FileUploader_get_next_chunk_encrypt sample_aead (net_digest serving_env) (sample_inputs 0) (next_metadata u 2 m) =
    Ret (Inr None, next_metadata u 2 m)"
    using get_next_chunk_eq [where ae = sample_aead and digest = "net_digest serving_env" and inp = "sample_inputs 0"
        and u = "next_metadata u 2 m", OF _ refl, of 2] assms(2)
    by (simp add: sample_inputs_def next_metadata_def)
  then have "upload_chunks serving_env (next_metadata u 2 m) serving_nd w = Ret (Inr (), next_metadata u 2 m, serving_nd, w)" for w
    by (simp add: upload_chunks.simps [of serving_env "next_metadata u 2 m"])
  moreover have "fu_remaining (next_metadata u 2 m) = []" using assms(2) by (simp add: next_metadata_def)
  moreover have "Node_store_chunk serving_env [Response_new (PortOK 9) (contact 5) (contact 0) 1] chk w = (Inr (), w)" for chk w
    by (simp add: Node_store_chunk_def Node_send_chunk_over_tcp_def Response_new_def)
  ultimately show ?thesis
    by (simp add: upload_chunks.simps [of serving_env u] c serving_resolve serving_ports)
qed

lemma serving_upload_file:
  "\<exists>md nd'. Node_upload_file serving_env ''a'' serving_nd [] = Ret (Inr md, nd', [3])"
proof -
  let ?u = "\<lparr>fu_remaining = [1, 2], fu_file_metadata = \<lparr>fm_name = ''a'', fm_encryption_key = replicate 32 0,
      fm_chunks_metadata = []\<rparr>, fu_encryption_key = replicate 32 0\<rparr>"
  have n: "FileUploader_new True (replicate 32 0) ''a'' [''a'' \<mapsto> [1, 2]] = Ret (Inr ?u, [''a'' \<mapsto> [1, 2]])"
    by (simp add: FileUploader_new_def FileUploader_new_with_max_file_size_def MAX_FILE_SIZE_MB_def
        Path_file_name_def Let_def)
  have same: "serving_nd\<lparr>nd_disk := [''a'' \<mapsto> [1, 2]]\<rparr> = serving_nd" by (simp add: serving_nd_def)
  obtain u' where "upload_chunks serving_env ?u serving_nd [] = Ret (Inr (), u', serving_nd, [3])" "fu_remaining u' = []"
    using serving_upload [of ?u "[]"] by auto
  then show ?thesis
    by (simp add: Node_upload_file_def n same FileUploader_get_metadata_def)
qed

theorem upload_file_complete_witness:
  "\<exists>md nd' ps cs. Node_upload_file serving_env ''a'' serving_nd [] = Ret (Inr md, nd', [3]) \<and> concat ps = [1, 2] \<and>
    chunks_of sample_aead (fm_encryption_key md) ps cs (fm_chunks_metadata md) \<and>
    HashMap_get (fmg_uploaded_files (nd_file_manager nd')) ''a'' \<noteq> None"
proof -
  obtain md nd' where up: "Node_upload_file serving_env ''a'' serving_nd [] = Ret (Inr md, nd', [3])"
    using serving_upload_file by blast
  have "length (ci_nonce (fst (net_chunk_input serving_env w))) = AES_GCM_NONCE_SIZE_B" for w
    by (simp add: sample_inputs_def AES_GCM_NONCE_SIZE_B_def)
  from upload_file_complete [OF up this] up show ?thesis by auto
qed

text \<open>
  A node that holds the only chunk of a file itself, encrypted with the cipher whose tag is the nonce.
\<close>

definition one_payload :: bytes where
  "one_payload = chunk_payload [1, 2] (replicate (padded_size - 2) 0)"

definition one_data :: bytes where
  "one_data = one_payload @ replicate 16 0"

definition one_md :: file_metadata where
  "one_md = \<lparr>fm_name = ''f'', fm_encryption_key = replicate 32 0,
     fm_chunks_metadata = [\<lparr>cm_hash = small_key 4, cm_nonce = replicate 12 0\<rparr>]\<rparr>"

definition one_chunk :: chunk where
  "one_chunk = \<lparr>ch_data = one_data, ch_hash = small_key 4\<rparr>"

definition one_nd :: node where
  "one_nd = serving_nd\<lparr>nd_disk := [chunk_path (nd_storage serving_nd) (small_key 4) \<mapsto> one_data]\<rparr>"

lemma one_data_encrypted:
  "ae_encrypt tagging_aead k (replicate 12 0) one_payload = Some one_data"
  using replicate_add [of 12 4 "0 :: u8"] by (simp add: tagging_aead_def one_data_def)

lemma one_data_decrypted:
  assumes "ae_decrypt tagging_aead k nonce one_data = Some p"
  shows "nonce = replicate 12 0"
proof -
  have "nonce @ replicate 4 0 = replicate 12 0 @ replicate 4 (0 :: u8)"
    using assms replicate_add [of 12 4 "0 :: u8"] by (simp add: tagging_aead_def one_data_def split: if_split_asm)
  then show ?thesis by simp
qed

lemma one_chunks:
  "chunks_of tagging_aead (fm_encryption_key one_md) [[1, 2]] [one_chunk] (fm_chunks_metadata one_md)"
  "length (fm_encryption_key one_md) = AES_KEY_SIZE_B" "distinct (map cm_nonce (fm_chunks_metadata one_md))"
proof -
  show "chunks_of tagging_aead (fm_encryption_key one_md) [[1, 2]] [one_chunk] (fm_chunks_metadata one_md)"
    using one_data_encrypted [unfolded one_payload_def]
    by (auto simp: one_md_def chunk_of_def one_chunk_def CHUNK_DATA_SIZE_KB_def
        AES_GCM_NONCE_SIZE_B_def intro!: exI [of _ "replicate (padded_size - 2) 0"])
qed (simp_all add: one_md_def AES_KEY_SIZE_B_def)

lemma one_download:
  "\<exists>out nd' w'. Node_download_file (serving_env\<lparr>net_aead := tagging_aead\<rparr>) one_md ''o'' one_nd [] = Ret (Inr out, nd', w')"
  "Node_download_received (serving_env\<lparr>net_aead := tagging_aead\<rparr>) one_md ''o'' one_nd [] = [one_data]"
proof -
  let ?env = "serving_env\<lparr>net_aead := tagging_aead\<rparr>"
  have io: "net_read_ok ?env w = (True, w)" "net_create_ok ?env w = (True, w)" "net_write ?env w = (WriteOk, w)" for w
    by (simp_all add: serving_env_def)
  have "length (Key_display (small_key 4)) = 40" unfolding Key_display_def length_concat_fmt_02x by (simp add: small_key_def)
  then have "length (chunk_path (nd_storage serving_nd) (small_key 4)) \<ge> 40"
    by (auto simp: chunk_path_def Path_join_def)
  moreover have "length (Path_join ''o'' ''f'') = 3" by (simp add: Path_join_def)
  ultimately have path: "chunk_path (nd_storage serving_nd) (small_key 4) \<noteq> Path_join ''o'' ''f''" by auto
  have "Node_find_storer ?env (small_key 4) one_nd w = Ret (Inr (Node_to_node_info one_nd), one_nd, w)" for w
    using io by (simp add: Node_find_storer_def one_nd_def ShardStorageManager_read_chunk_def)
  then have find: "Node_find_storers_parallel ?env [small_key 4] one_nd w =
      Ret (Inr [(small_key 4, Node_to_node_info one_nd)], one_nd, w)" for w
    by (simp add: Node_find_storers_parallel.simps ALPHA_def)
  let ?nd = "one_nd\<lparr>nd_disk := (nd_disk one_nd)(Path_join ''o'' ''f'' \<mapsto> [])\<rparr>"
  have dl: "Node_download_chunk_from_storer ?env (small_key 4) (Node_to_node_info one_nd) ?nd w =
      (Inr one_data, w)" for w
    using io path
    by (simp add: Node_download_chunk_from_storer_def Node_to_node_info_def NodeInfo_new_def one_nd_def
        ShardStorageManager_read_chunk_def)
  let ?f = "\<lparr>fd_content = [], fd_flushed = [], fd_file_metadata = one_md, fd_chunk_index = 0,
      fd_output_file_path = Path_join ''o'' ''f''\<rparr>"
  have "\<exists>f1. FileDownloader_store_next_chunk_decrypt tagging_aead WriteOk True one_chunk ?f = Ret (Inr (), f1)"
    using store_next_chunk_of [OF tagging_aead_ok(1), of ?f "[1, 2]" one_chunk] one_chunks(1,2)
    by (auto simp: one_md_def)
  then obtain f1 where st: "FileDownloader_store_next_chunk_decrypt tagging_aead WriteOk True one_chunk ?f = Ret (Inr (), f1)"
    by blast
  then have "download_chunks ?env [(small_key 4, Node_to_node_info one_nd)] ?f ?nd w = Ret (Inr (), f1, w)" for w
    using dl io by (simp add: one_chunk_def)
  with find io show "\<exists>out nd' w'. Node_download_file ?env one_md ''o'' one_nd [] = Ret (Inr out, nd', w')"
    by (simp add: Node_download_file_def one_md_def FileDownloader_new_def Let_def)
  show "Node_download_received ?env one_md ''o'' one_nd [] = [one_data]"
    using find io dl by (simp add: Node_download_received_def one_md_def FileDownloader_new_def Let_def)
qed

theorem download_file_authentic_witness:
  "\<exists>out nd' w'. Node_download_file (serving_env\<lparr>net_aead := tagging_aead\<rparr>) one_md ''o'' one_nd [] = Ret (Inr out, nd', w') \<and>
    nd_disk nd' (Path_join ''o'' ''f'') = Some [1, 2]"
proof -
  obtain out nd' w' where d: "Node_download_file (serving_env\<lparr>net_aead := tagging_aead\<rparr>) one_md ''o'' one_nd [] = Ret (Inr out, nd', w')"
    using one_download(1) by blast
  have "issued_chunks [one_chunk] (fm_chunks_metadata one_md) = {(replicate 12 0, one_data)}"
    by (simp add: issued_chunks_def one_md_def one_chunk_def)
  then have unforged: "unforged tagging_aead (fm_encryption_key one_md) (issued_chunks [one_chunk] (fm_chunks_metadata one_md)) [one_data]"
    using one_data_decrypted by (auto simp: unforged_def)
  have "out = Path_join ''o'' (fm_name one_md) \<and> nd_disk nd' out = Some (concat [[1, 2]])"
    by (rule download_file_authentic [OF d]) (use tagging_aead_ok(1) one_chunks one_download(2) unforged in simp_all)
  with d show ?thesis by (auto simp: one_md_def)
qed

section \<open>What an upload keeps\<close>

lemma resolve_cases:
  assumes "await_ok env" "nd_inv nd" "wf_key k"
  shows "case Node_resolve_alpha_closest_nodes_to_key env k nd w of
      Panicked \<Rightarrow> False
    | Blocked \<Rightarrow> crowded (nd_routing_table nd) (find_node_responsive env k nd w)
    | Ret (r, nd', w') \<Rightarrow> nd_inv nd' \<and> \<not> crowded (nd_routing_table nd) (find_node_responsive env k nd w)"
proof (cases "Node_find_node env k nd w")
  case (Ret x)
  obtain r nd1 w1 where x: "x = (r, nd1, w1)" by (cases x)
  note find = find_node_cases [OF assms, of w]
  show ?thesis
  proof (cases r)
    case (Inl e)
    then show ?thesis using find Ret x by (simp add: Node_resolve_alpha_closest_nodes_to_key_def)
  next
    case (Inr ns)
    obtain answers nd2 w2 where j: "join_all (Node_send_initial_store_request env k) ns (nd1, w1) = (answers, nd2, w2)"
      by (cases "join_all (Node_send_initial_store_request env k) ns (nd1, w1)") auto
    have "nd_inv nd1" "\<not> crowded (nd_routing_table nd) (find_node_responsive env k nd w)" using find Ret x Inr by simp_all
    have "(\<lambda>(nd, w). nd_inv nd) (nd2, w2) \<and> list_all2 (\<lambda>_ _. True) ns answers"
    proof (rule join_all_keeps [OF j])
      fix n s y s'
      assume "(\<lambda>(nd, w). nd_inv nd) s" "Node_send_initial_store_request env k n s = (y, s')"
      then show "(\<lambda>(nd, w). nd_inv nd) s' \<and> True"
        using send_request_keeps(1) [OF _ assms(1)]
        by (auto simp: Node_send_initial_store_request_def Let_def split: prod.split_asm)
    qed (use \<open>nd_inv nd1\<close> in simp)
    then show ?thesis using Ret x Inr j \<open>\<not> crowded _ _\<close>
      by (simp add: Node_resolve_alpha_closest_nodes_to_key_def Let_def)
  qed
qed (use find_node_cases [OF assms, of w] in \<open>auto simp: Node_resolve_alpha_closest_nodes_to_key_def\<close>)

lemma get_ports_keeps:
  assumes "Node_get_ports_for_nodes env rs k (nd, w) = (r, nd', w')" "await_ok env" "nd_inv nd"
  shows "nd_inv nd'"
proof -
  obtain answers nd2 w2 where j:
    "join_all (\<lambda>n. Node_send_get_port_request env k (rs_sender n)) rs (nd, w) = (answers, nd2, w2)"
    by (cases "join_all (\<lambda>n. Node_send_get_port_request env k (rs_sender n)) rs (nd, w)") auto
  have "(\<lambda>(nd, w). nd_inv nd) (nd2, w2) \<and> list_all2 (\<lambda>_ _. True) rs answers"
  proof (rule join_all_keeps [OF j])
    fix n s y s'
    assume "(\<lambda>(nd, w). nd_inv nd) s" "Node_send_get_port_request env k (rs_sender n) s = (y, s')"
    then show "(\<lambda>(nd, w). nd_inv nd) s' \<and> True"
      using send_request_keeps(1) [OF _ assms(2)]
      by (auto simp: Node_send_get_port_request_def Let_def split: prod.split_asm)
  qed (use assms(3) in simp)
  then show ?thesis using assms(1,3) j by (auto simp: Node_get_ports_for_nodes_def Let_def split: if_split_asm)
qed

lemma get_next_chunk_no_panic:
  assumes "length (fu_encryption_key u) = AES_KEY_SIZE_B"
  obtains r u1 where "FileUploader_get_next_chunk_encrypt ae digest inp u = Ret (r, u1)"
    "fu_encryption_key u1 = fu_encryption_key u"
    "\<And>c. r = Inr (Some c) \<Longrightarrow> (\<And>bs. length (digest bs) = K) \<Longrightarrow> wf_key (ch_hash c)"
proof (cases "ci_read inp")
  case None
  then show thesis using that by (simp add: FileUploader_get_next_chunk_encrypt_def)
next
  case (Some wanted)
  define n where "n = file_read padded_size wanted (fu_remaining u)"
  note eq = get_next_chunk_eq [where ae = ae and digest = digest, OF Some n_def]
  show thesis
  proof (cases "fu_remaining u = []")
    case True
    with eq show thesis by (intro that [of "Inr None" u]) simp_all
  next
    case ne: False
    show thesis
    proof (cases "ae_encrypt ae (fu_encryption_key u) (ci_nonce inp)
        (chunk_payload (take n (fu_remaining u)) (chunk_pad inp n))")
      case None
      with eq ne assms show thesis
        by (intro that [of "Inl (EncryptionError Encryption)" "u\<lparr>fu_remaining := drop n (fu_remaining u)\<rparr>"]) simp_all
    next
      case (Some e)
      define h where "h = Key_from_input digest (take n (fu_remaining u) @ chunk_pad inp n)"
      from eq ne assms Some have "FileUploader_get_next_chunk_encrypt ae digest inp u =
          Ret (Inr (Some \<lparr>ch_data = e, ch_hash = h\<rparr>), next_metadata u n \<lparr>cm_hash = h, cm_nonce = ci_nonce inp\<rparr>)"
        by (simp add: h_def Let_def)
      then show thesis
        by (rule that) (auto simp: next_metadata_def h_def Key_from_input_def wf_key_def)
    qed
  qed
qed

text \<open>
  An upload is stuck when, for its next chunk or, after the next chunk was sent, for a later one, storing the nodes
  that answer the lookup of the chunk in this node's routing table meets a full bucket.
\<close>

abbreviation next_chunk ::
  "('w, 'z) net_scheme \<Rightarrow> file_uploader \<Rightarrow> 'w \<Rightarrow> ((sharding_error + chunk option) \<times> file_uploader) run" where
  "next_chunk env u w \<equiv>
     FileUploader_get_next_chunk_encrypt (net_aead env) (net_digest env) (fst (net_chunk_input env w)) u"

inductive upload_stuck :: "('w, 'z) net_scheme \<Rightarrow> file_uploader \<Rightarrow> node \<Rightarrow> 'w \<Rightarrow> bool" for env where
  here: "next_chunk env u w = Ret (Inr (Some c), u1) \<Longrightarrow>
    crowded (nd_routing_table nd) (find_node_responsive env (ch_hash c) nd (snd (net_chunk_input env w))) \<Longrightarrow>
    upload_stuck env u nd w"
| later: "next_chunk env u w = Ret (Inr (Some c), u1) \<Longrightarrow>
    Node_resolve_alpha_closest_nodes_to_key env (ch_hash c) nd (snd (net_chunk_input env w)) = Ret (Inr rs, nd2, w2) \<Longrightarrow>
    Node_get_ports_for_nodes env rs (ch_hash c) (nd2, w2) = (Inr ports, nd3, w3) \<Longrightarrow>
    Node_store_chunk env ports c w3 = (Inr (), w4) \<Longrightarrow>
    upload_stuck env u1 nd3 w4 \<Longrightarrow> upload_stuck env u nd w"

definition file_upload_stuck :: "('w, 'z) net_scheme \<Rightarrow> string \<Rightarrow> node \<Rightarrow> 'w \<Rightarrow> bool" where
  "file_upload_stuck env path nd w \<longleftrightarrow> nd_disk nd path \<noteq> None \<and> (
     let (open_ok, w1) = net_read_ok env w; (gen_key, w2) = net_gen_key env w1
     in case FileUploader_new open_ok gen_key path (nd_disk nd) of
          Ret (Inr u, _) \<Rightarrow> upload_stuck env u nd w2
        | _ \<Rightarrow> False)"

text \<open>
  One chunk of the upload loop: the loop ends with it, or it goes on with the next chunk on a node
  that still keeps its invariant.
\<close>

lemma upload_chunks_nextE:
  assumes "await_ok env" "nd_inv nd"
    and g: "FileUploader_get_next_chunk_encrypt (net_aead env) (net_digest env) (fst (net_chunk_input env w)) u =
      Ret (Inr (Some c), u1)" "wf_key (ch_hash c)"
  obtains (blocked) "upload_chunks env u nd w = Blocked" "upload_stuck env u nd w"
  | (stops) r u' nd' w' where "upload_chunks env u nd w = Ret (r, u', nd', w')" "nd_inv nd'" "\<not> upload_stuck env u nd w"
  | (goes_on) rs nd2 w2 ports nd3 w3 x w4 where
      "Node_resolve_alpha_closest_nodes_to_key env (ch_hash c) nd (snd (net_chunk_input env w)) = Ret (Inr rs, nd2, w2)"
      "Node_get_ports_for_nodes env rs (ch_hash c) (nd2, w2) = (Inr ports, nd3, w3)"
      "Node_store_chunk env ports c w3 = (Inr x, w4)" "nd_inv nd3"
      "upload_chunks env u nd w = upload_chunks env u1 nd3 w4" "upload_stuck env u nd w = upload_stuck env u1 nd3 w4"
proof -
  let ?w = "snd (net_chunk_input env w)" and ?resolve = "Node_resolve_alpha_closest_nodes_to_key env (ch_hash c) nd"
  note eq = upload_chunks.simps [of env u nd w]
  note stuck = upload_stuck.simps [of env u nd w]
  note res = resolve_cases [OF assms(1,2) g(2), of ?w]
  show thesis
  proof (cases "?resolve ?w")
    case (Ret y)
    obtain r2 nd2 w2 where y: "y = (r2, nd2, w2)" by (cases y)
    have kept: "nd_inv nd2" "\<not> crowded (nd_routing_table nd) (find_node_responsive env (ch_hash c) nd ?w)"
      using res Ret y by simp_all
    show thesis
    proof (cases r2)
      case (Inl e)
      then show thesis using kept Ret y g by (intro stops) (simp_all add: eq stuck)
    next
      case (Inr rs)
      obtain r3 nd3 w3 where p: "Node_get_ports_for_nodes env rs (ch_hash c) (nd2, w2) = (r3, nd3, w3)"
        by (cases "Node_get_ports_for_nodes env rs (ch_hash c) (nd2, w2)") auto
      have inv: "nd_inv nd3" using get_ports_keeps [OF p assms(1) kept(1)] .
      obtain r4 w4 where s: "Node_store_chunk env (case r3 of Inr ports \<Rightarrow> ports | Inl _ \<Rightarrow> []) c w3 = (r4, w4)"
        by (cases "Node_store_chunk env (case r3 of Inr ports \<Rightarrow> ports | Inl _ \<Rightarrow> []) c w3")
      show thesis
        using kept(2) Ret y Inr p inv s g stops goes_on by (cases r3; cases r4) (simp_all add: eq stuck)
    qed
  next
    case Blocked
    then show thesis using res g by (intro blocked) (auto simp: eq intro: here)
  qed (use res in simp)
qed

lemma upload_chunks_cases:
  assumes "await_ok env" "nd_inv nd" "length (fu_encryption_key u) = AES_KEY_SIZE_B"
    and "\<And>bs. length (net_digest env bs) = K"
  shows "case upload_chunks env u nd w of
      Panicked \<Rightarrow> False
    | Blocked \<Rightarrow> upload_stuck env u nd w
    | Ret (r, u', nd', w') \<Rightarrow> nd_inv nd' \<and> \<not> upload_stuck env u nd w"
  using assms
proof (induction env u nd w rule: upload_chunks.induct)
  case (1 env u nd w)
  let ?w = "net_chunk_input env w"
  obtain r u1 where g: "FileUploader_get_next_chunk_encrypt (net_aead env) (net_digest env) (fst ?w) u = Ret (r, u1)"
      "fu_encryption_key u1 = fu_encryption_key u" "\<And>c. r = Inr (Some c) \<Longrightarrow> wf_key (ch_hash c)"
    using get_next_chunk_no_panic [OF "1.prems"(3), of "net_aead env" "net_digest env" "fst ?w"] "1.prems"(4) by metis
  show ?case
  proof (cases "\<exists>c. r = Inr (Some c)")
    case False
    then show ?thesis using g "1.prems"(2)
      by (cases r) (auto simp: upload_chunks.simps [of env u nd w] upload_stuck.simps [of env u nd w] split: option.splits)
  next
    case True
    then obtain c where c: "r = Inr (Some c)" by blast
    from "1.prems"(1,2) g(1) [unfolded c] g(3) [OF c] show ?thesis
    proof (cases rule: upload_chunks_nextE)
      case (goes_on rs nd2 w2 ports nd3 w3 x w4)
      show ?thesis unfolding goes_on(5,6)
        by (rule "1.IH" [OF g(1) refl c refl refl goes_on(2) [symmetric] refl refl goes_on(3) [symmetric] refl])
          (use "1.prems" goes_on(4) g(2) in simp_all)
    qed auto
  qed
qed

text \<open>The steps of \<open>upload_file\<close> after the uploader was created.\<close>

lemma upload_file_started:
  assumes "nd_disk nd path = Some content" "length content \<le> MAX_FILE_SIZE_MB * 1024 * 1024"
    and "Path_file_name path = Some name" "net_read_ok env w = (True, w1)" "net_gen_key env w1 = (key, w2)"
  shows "Node_upload_file env path nd w =
    bind_run (upload_chunks env \<lparr>fu_remaining = content, fu_file_metadata = \<lparr>fm_name = name, fm_encryption_key = key,
        fm_chunks_metadata = []\<rparr>, fu_encryption_key = key\<rparr> nd w2) (\<lambda>(r3, u3, nd3, w3).
      case r3 of
        Inl e \<Rightarrow> Ret (Inl e, nd3, w3)
      | Inr _ \<Rightarrow>
          let (now, w4) = net_now env w3;
              nd4 = nd3\<lparr>nd_file_manager := FileManager_add_file_uploaded_entry now path (nd_file_manager nd3)\<rparr>;
              (read_ok, w5) = net_read_ok env w4
          in case FileUploader_get_metadata read_ok u3 of
               Inl e \<Rightarrow> Ret (Inl (ShardingFailed e), nd4, w5)
             | Inr md \<Rightarrow> Ret (Inr md, nd4, w5))"
  using assms
  by (simp add: Node_upload_file_def FileUploader_new_def FileUploader_new_with_max_file_size_def Let_def)

lemma upload_file_cases:
  assumes "await_ok env" "nd_inv nd"
    and "\<And>bs. length (net_digest env bs) = K" "\<And>w. length (fst (net_gen_key env w)) = AES_KEY_SIZE_B"
  shows "case Node_upload_file env path nd w of
      Panicked \<Rightarrow> Path_file_name path = None
    | Blocked \<Rightarrow> file_upload_stuck env path nd w
    | Ret (r, nd', w') \<Rightarrow> nd_inv nd' \<and> \<not> file_upload_stuck env path nd w \<and>
        (nd_disk nd path = None \<longrightarrow> r = Inl FileMissing \<and> nd' = nd \<and> w' = w)"
proof (cases "nd_disk nd path")
  case None
  then show ?thesis using assms(2)
    by (simp add: Node_upload_file_def file_upload_stuck_def)
next
  case (Some content)
  obtain ok w1 where ok: "net_read_ok env w = (ok, w1)" by (cases "net_read_ok env w")
  obtain key w2 where key: "net_gen_key env w1 = (key, w2)" by (cases "net_gen_key env w1")
  have same: "nd\<lparr>nd_disk := nd_disk nd\<rparr> = nd" by simp
  show ?thesis
  proof (cases "ok \<and> length content \<le> MAX_FILE_SIZE_MB * 1024 * 1024 \<and> Path_file_name path \<noteq> None")
    case False
    then show ?thesis using Some ok assms(2) same
      by (auto simp: Node_upload_file_def file_upload_stuck_def FileUploader_new_def
          FileUploader_new_with_max_file_size_def Let_def split: prod.split option.splits)
  next
    case True
    then obtain name where name: "Path_file_name path = Some name" by auto
    define u where "u = \<lparr>fu_remaining = content, fu_file_metadata = \<lparr>fm_name = name, fm_encryption_key = key,
      fm_chunks_metadata = []\<rparr>, fu_encryption_key = key\<rparr>"
    have "length (fu_encryption_key u) = AES_KEY_SIZE_B" using assms(4) [of w1] key by (simp add: u_def)
    note up = upload_chunks_cases [OF assms(1,2) this assms(3), of w2]
    note eq = upload_file_started [OF Some _ name _ key, of w, folded u_def]
    have stuck: "file_upload_stuck env path nd w = upload_stuck env u nd w2"
      using Some True name ok key
      by (simp add: file_upload_stuck_def FileUploader_new_def FileUploader_new_with_max_file_size_def Let_def u_def)
    show ?thesis
    proof (cases "upload_chunks env u nd w2")
      case (Ret x)
      obtain r3 u3 nd3 w3 where x: "x = (r3, u3, nd3, w3)" by (cases x)
      have "nd_inv nd3" "\<not> upload_stuck env u nd w2" using up Ret x by simp_all
      then have "nd_inv (nd3\<lparr>nd_file_manager := fm\<rparr>)" for fm by (simp add: nd_inv_def)
      with \<open>nd_inv nd3\<close> \<open>\<not> upload_stuck env u nd w2\<close> show ?thesis using Ret x Some True ok
        by (auto simp: eq stuck Let_def split: sum.splits prod.splits)
    qed (use up eq stuck True ok in simp_all)
  qed
qed

text \<open>Claim C22. An upload never leaves the node in a bad state: it panics only when the path has no
  file name. It waits forever exactly when, for one of its chunks and after all earlier ones were sent, the nodes
  that answer the lookup of the chunk do not fit into this node's own routing table: storing them one after the other
  meets a bucket with \<open>K\<close> other contacts. In every other case, an error included, it returns a node that
  satisfies its invariant, the unchanged one when the file is missing.\<close>

theorem upload_file_outcome:
  assumes "await_ok env" "nd_inv nd"
    and "\<And>bs. length (net_digest env bs) = K" "\<And>w. length (fst (net_gen_key env w)) = AES_KEY_SIZE_B"
  shows "case Node_upload_file env path nd w of
      Panicked \<Rightarrow> Path_file_name path = None
    | Blocked \<Rightarrow> file_upload_stuck env path nd w
    | Ret (r, nd', w') \<Rightarrow> nd_inv nd' \<and> \<not> file_upload_stuck env path nd w \<and>
        (nd_disk nd path = None \<longrightarrow> r = Inl FileMissing \<and> nd' = nd \<and> w' = w)"
  by (rule upload_file_cases [OF assms])

lemma serving_nd_inv: "nd_inv serving_nd"
  using small_nd_inv [OF serving_rt_inv]
  by (simp add: serving_nd_def nd_inv_def small_nd_def Node_new_def ss_inv_def)

lemma serving_await_ok: "await_ok serving_env"
  by (auto simp: await_ok_def response_wf_def Response_new_def tag_answer_def)

theorem upload_file_outcome_witness:
  "\<exists>md nd'. Node_upload_file serving_env ''a'' serving_nd [] = Ret (Inr md, nd', [3]) \<and> nd_inv nd' \<and>
     \<not> file_upload_stuck serving_env ''a'' serving_nd []"
proof -
  obtain md nd' where up: "Node_upload_file serving_env ''a'' serving_nd [] = Ret (Inr md, nd', [3])"
    using serving_upload_file by blast
  have "length (net_digest serving_env bs) = K" "length (fst (net_gen_key serving_env w)) = AES_KEY_SIZE_B" for bs w
    by (simp_all add: K_def AES_KEY_SIZE_B_def)
  from upload_file_outcome [OF serving_await_ok serving_nd_inv this, of "''a''" "[]"] up show ?thesis by simp
qed

end
