(* ===== verification/Two_Nodes.thy ===== *)
theory Two_Nodes
  imports File_Transfer Request_Handler
begin

text \<open>
  The two ends of a chunk transfer put together: a client that runs the operations of
  \<open>core/node.rs\<close> against a storer that runs the handlers of \<open>core/request_handler.rs\<close>. The
  network between them is reliable and delivers at once; JSON, and the cipher, digest and random
  choices of the client are parameters. A TCP listener can be reached at the addresses it is
  bound to only.
\<close>

section \<open>The storer\<close>

text \<open>
  What leaves the storer (datagrams and TCP transfers), the data of the connection to its
  listener, and the port the system gives to its next listener.
\<close>

record wires =
  wi_datagrams :: "(bytes \<times> socket_addr) list"
  wi_transfers :: "(ip_addr \<times> u16 \<times> bytes) list"
  wi_incoming :: bytes
  wi_bound :: string
  wi_port :: u16

definition storer_env :: "(response \<Rightarrow> bytes option) \<Rightarrow> wires net" where
  "storer_env jr =
     \<lparr>env_new_v4 = (\<lambda>w. (0, w)), env_json_request = (\<lambda>_. None), env_json_response = jr,
      env_udp_send = (\<lambda>bs a w. (Some (length bs), w\<lparr>wi_datagrams := wi_datagrams w @ [(bs, a)]\<rparr>)),
      env_await = (\<lambda>rid t w. (TimedOut, w)),
      tcp_bind = (\<lambda>a w. (Some 0, w\<lparr>wi_bound := a\<rparr>)), tcp_local_port = (\<lambda>l w. (Some (wi_port w), w)),
      tcp_accept = (\<lambda>l t w. (Accepted 0, w)), tcp_read_to_end = (\<lambda>s w. (Some (wi_incoming w), w)),
      net_now = (\<lambda>w. (0, w)), net_read_ok = (\<lambda>w. (True, w)), net_create_ok = (\<lambda>w. (True, w)),
      net_write = (\<lambda>w. (WriteOk, w)),
      net_tcp_send = (\<lambda>ip p bs w. (Inr (), w\<lparr>wi_transfers := wi_transfers w @ [(ip, p, bs)]\<rparr>)),
      net_chunk_input = (\<lambda>w. (sample_inputs 0, w)), net_gen_key = (\<lambda>w. (replicate 32 0, w)),
      net_aead = sample_aead, net_digest = (\<lambda>_. replicate 20 0)\<rparr>"

lemma storer_env_simps [simp]:
  "env_json_response (storer_env jr) r = jr r"
  "env_udp_send (storer_env jr) bs a w = (Some (length bs), w\<lparr>wi_datagrams := wi_datagrams w @ [(bs, a)]\<rparr>)"
  "tcp_bind (storer_env jr) bd w = (Some 0, w\<lparr>wi_bound := bd\<rparr>)" "tcp_local_port (storer_env jr) l w = (Some (wi_port w), w)"
  "tcp_accept (storer_env jr) l t w = (Accepted 0, w)" "tcp_read_to_end (storer_env jr) s w = (Some (wi_incoming w), w)"
  "net_now (storer_env jr) w = (0, w)" "net_read_ok (storer_env jr) w = (True, w)" "net_create_ok (storer_env jr) w = (True, w)"
  "net_write (storer_env jr) w = (WriteOk, w)"
  "net_tcp_send (storer_env jr) ip p bs w = (Inr (), w\<lparr>wi_transfers := wi_transfers w @ [(ip, p, bs)]\<rparr>)"
  by (simp_all add: storer_env_def)

section \<open>The client's world\<close>

definition LOOPBACK :: ip_addr where "LOOPBACK = V4 2130706433"

text \<open>
  A listener bound to the loopback address accepts connections to that address only; a peer that announces the
  unspecified address 0.0.0.0, which some systems route to the loopback one, is not considered.
\<close>

definition reaches :: "ip_addr \<Rightarrow> string \<Rightarrow> bool" where
  "reaches ip bound \<longleftrightarrow> (bound = ''127.0.0.1:0'' \<longrightarrow> ip = LOOPBACK)"

record link =
  lk_storer :: node
  lk_tasks :: "spawned list"
  lk_wires :: wires
  lk_next_id :: request_id
  lk_bound :: string

record json =
  js_request :: "request \<Rightarrow> bytes option"
  js_response :: "response \<Rightarrow> bytes option"
  js_parse_request :: "bytes \<Rightarrow> request option"
  js_parse_response :: "bytes \<Rightarrow> response option"

text \<open>What the client draws when it cuts a file: reads, padding and nonces, the key, cipher and digest.\<close>

record drawing =
  dr_inputs :: "request_id \<Rightarrow> chunk_input"
  dr_key :: bytes
  dr_aead :: aead
  dr_digest :: "bytes \<Rightarrow> bytes"

text \<open>A datagram to the storer is processed by one of its workers; what the storer sent before was delivered.\<close>

definition fresh_wires :: "wires \<Rightarrow> wires" where
  "fresh_wires w = w\<lparr>wi_datagrams := [], wi_transfers := []\<rparr>"

definition deliver :: "json \<Rightarrow> bytes \<Rightarrow> link \<Rightarrow> link" where
  "deliver js bs l =
     (case process_message (storer_env (js_response js)) (js_parse_response js) (js_parse_request js) bs
        (lk_storer l) (fresh_wires (lk_wires l)) of
        Ret (channel, tasks, nd, w) \<Rightarrow> l\<lparr>lk_storer := nd, lk_wires := w, lk_tasks := lk_tasks l @ tasks\<rparr>
      | _ \<Rightarrow> l)"

text \<open>Data sent to a port of the storer goes to the task that listens there.\<close>

fun task_port :: "spawned \<Rightarrow> u16" where
  "task_port (ReceiveUpload srv) = TcpListenerService_get_port srv"

definition transmit :: "json \<Rightarrow> ip_addr \<Rightarrow> u16 \<Rightarrow> bytes \<Rightarrow> link \<Rightarrow> (tcp_error + unit) \<times> link" where
  "transmit js ip port data l =
     (case find (\<lambda>t. task_port t = port) (lk_tasks l) of
        None \<Rightarrow> (Inl ConnectFailed, l)
      | Some t \<Rightarrow>
          if reaches ip (wi_bound (lk_wires l)) then
            let (nd, w) = run_spawned (storer_env (js_response js)) t (lk_storer l) ((lk_wires l)\<lparr>wi_incoming := data\<rparr>)
            in (Inr (), l\<lparr>lk_storer := nd, lk_wires := w, lk_tasks := remove1 t (lk_tasks l)\<rparr>)
          else (Inl ConnectFailed, l))"

definition awaited :: "json \<Rightarrow> request_id \<Rightarrow> (bytes \<times> socket_addr) list \<Rightarrow> response option" where
  "awaited js rid ds = find (\<lambda>r. rs_request_id r = rid) (List.map_filter (\<lambda>(bs, a). js_parse_response js bs) ds)"

definition transfer_to :: "string \<Rightarrow> u16 \<Rightarrow> (ip_addr \<times> u16 \<times> bytes) list \<Rightarrow> bytes option" where
  "transfer_to bound port ts = map_option (\<lambda>(ip, p, bs). bs) (find (\<lambda>(ip, p, bs). p = port \<and> reaches ip bound) ts)"

definition client_port :: u16 where "client_port = 9"

definition client_env :: "json \<Rightarrow> drawing \<Rightarrow> socket_addr \<Rightarrow> link net" where
  "client_env js dr storer =
     \<lparr>env_new_v4 = (\<lambda>l. (lk_next_id l, l\<lparr>lk_next_id := lk_next_id l + 1\<rparr>)),
      env_json_request = js_request js, env_json_response = js_response js,
      env_udp_send = (\<lambda>bs a l. (Some (length bs), if a = storer then deliver js bs l else l)),
      env_await = (\<lambda>rid t l. (case awaited js rid (wi_datagrams (lk_wires l)) of Some r \<Rightarrow> Delivered r | None \<Rightarrow> TimedOut, l)),
      tcp_bind = (\<lambda>b l. (Some 0, l\<lparr>lk_bound := b\<rparr>)), tcp_local_port = (\<lambda>s l. (Some client_port, l)),
      tcp_accept = (\<lambda>s t l. (case transfer_to (lk_bound l) client_port (wi_transfers (lk_wires l)) of
         Some _ \<Rightarrow> Accepted 0 | None \<Rightarrow> AcceptTimedOut, l)),
      tcp_read_to_end = (\<lambda>s l. (transfer_to (lk_bound l) client_port (wi_transfers (lk_wires l)), l)),
      net_now = (\<lambda>l. (0, l)), net_read_ok = (\<lambda>l. (True, l)), net_create_ok = (\<lambda>l. (True, l)),
      net_write = (\<lambda>l. (WriteOk, l)), net_tcp_send = transmit js,
      net_chunk_input = (\<lambda>l. (dr_inputs dr (lk_next_id l), l)), net_gen_key = (\<lambda>l. (dr_key dr, l)),
      net_aead = dr_aead dr, net_digest = dr_digest dr\<rparr>"

lemma client_env_simps [simp]:
  "env_new_v4 (client_env js dr a) l = (lk_next_id l, l\<lparr>lk_next_id := lk_next_id l + 1\<rparr>)"
  "env_json_request (client_env js dr a) q = js_request js q"
  "env_udp_send (client_env js dr a) bs b l = (Some (length bs), if b = a then deliver js bs l else l)"
  "env_await (client_env js dr a) rid t l =
     (case awaited js rid (wi_datagrams (lk_wires l)) of Some r \<Rightarrow> Delivered r | None \<Rightarrow> TimedOut, l)"
  "tcp_bind (client_env js dr a) bd l = (Some 0, l\<lparr>lk_bound := bd\<rparr>)" "tcp_local_port (client_env js dr a) s l = (Some client_port, l)"
  "tcp_accept (client_env js dr a) s t l = (case transfer_to (lk_bound l) client_port (wi_transfers (lk_wires l)) of
     Some _ \<Rightarrow> Accepted 0 | None \<Rightarrow> AcceptTimedOut, l)"
  "tcp_read_to_end (client_env js dr a) s l = (transfer_to (lk_bound l) client_port (wi_transfers (lk_wires l)), l)"
  "net_tcp_send (client_env js dr a) = transmit js" "net_now (client_env js dr a) l = (0, l)"
  "net_read_ok (client_env js dr a) l = (True, l)" "net_create_ok (client_env js dr a) l = (True, l)"
  "net_write (client_env js dr a) l = (WriteOk, l)" "net_chunk_input (client_env js dr a) l = (dr_inputs dr (lk_next_id l), l)"
  "net_gen_key (client_env js dr a) l = (dr_key dr, l)" "net_aead (client_env js dr a) = dr_aead dr"
  "net_digest (client_env js dr a) = dr_digest dr"
  by (simp_all add: client_env_def)

text \<open>
  What is relied on of the JSON codec for the messages of an exchange: a request is read back as
  itself and is not taken for a response, a response is read back as itself, and neither is too
  long for a datagram. Parsed responses hold full keys.
\<close>

definition json_ok :: "json \<Rightarrow> request set \<Rightarrow> response set \<Rightarrow> bool" where
  "json_ok js qs rs \<longleftrightarrow>
     (\<forall>q \<in> qs. \<exists>bs. js_request js q = Some bs \<and> length bs \<le> MAX_MESSAGE_SIZE \<and>
        js_parse_response js bs = None \<and> js_parse_request js bs = Some q) \<and>
     (\<forall>r \<in> rs. \<exists>bs. js_response js r = Some bs \<and> length bs \<le> MAX_MESSAGE_SIZE \<and> js_parse_response js bs = Some r) \<and>
     (\<forall>bs r. js_parse_response js bs = Some r \<longrightarrow> response_wf r)"

lemma client_env_await_ok: "json_ok js qs rs \<Longrightarrow> await_ok (client_env js dr a)"
  by (auto simp: await_ok_def json_ok_def awaited_def List.map_filter_def split: option.splits dest!: find_SomeD)

lemma json_ok_request:
  assumes "json_ok js qs rs" "q \<in> qs"
  obtains bs where "js_request js q = Some bs" "length bs \<le> MAX_MESSAGE_SIZE"
    "js_parse_response js bs = None" "js_parse_request js bs = Some q"
  using assms unfolding json_ok_def by blast

lemma json_ok_response:
  assumes "json_ok js qs rs" "r \<in> rs"
  obtains bs where "js_response js r = Some bs" "length bs \<le> MAX_MESSAGE_SIZE" "js_parse_response js bs = Some r"
  using assms unfolding json_ok_def by blast

text \<open>The messages of the client with the storer.\<close>

abbreviation ask :: "request_id \<Rightarrow> request_type \<Rightarrow> node \<Rightarrow> node \<Rightarrow> request" where
  "ask rid t nd st \<equiv> \<lparr>rq_request_type = t, rq_sender = Node_to_node_info nd,
     rq_receiver = Node_to_node_info st, rq_request_id = rid\<rparr>"

abbreviation answer :: "request_id \<Rightarrow> response_type \<Rightarrow> node \<Rightarrow> node \<Rightarrow> response" where
  "answer rid t nd st \<equiv> Response_new t (Node_to_node_info st) (Node_to_node_info nd) rid"

section \<open>Contacts of a table\<close>

lemma distinct_singleton:
  assumes "distinct xs" "set xs = {x}"
  shows "xs = [x]"
proof -
  have "length xs = Suc 0" using distinct_card [OF assms(1)] assms(2) by simp
  then obtain y where "xs = [y]" unfolding length_Suc_conv by blast
  then show ?thesis using assms(2) by simp
qed

lemma known_not_full:
  assumes "rt_inv rt" "RoutingTable_get_nodeinfo rt (ni_id n) = Ret (Inr (Some n))"
  shows "\<not> full_for rt n"
proof -
  obtain i where i: "RoutingTable_get_bucket_index rt (ni_id n) = Inr i" "i < NUM_BUCKETS"
      "KBucket_get_nodeinfo (ni_id n) (rt_buckets rt ! i) = Some n"
    using assms by (auto simp: RoutingTable_get_nodeinfo_def rt_invD(2) split: sum.splits if_splits)
  then have "n \<in> set (kb_nodes (rt_buckets rt ! i))"
    by (auto simp: KBucket_get_nodeinfo_def dest!: find_SomeD)
  then have "length (filter (\<lambda>m. ni_id m \<noteq> ni_id n) (kb_nodes (rt_buckets rt ! i))) < length (kb_nodes (rt_buckets rt ! i))"
    by (intro length_filter_less) auto
  moreover have "length (kb_nodes (rt_buckets rt ! i)) \<le> K" using rt_invD [OF assms(1)] i(2) by (auto simp: kb_inv_def)
  ultimately show ?thesis by (simp add: full_for_def i(1))
qed

text \<open>The contacts of a table are those it finds under their own key.\<close>

lemma contact_found_iff:
  assumes "rt_inv rt"
  shows "n \<in> set (RoutingTable_get_all_nodeinfos rt) \<longleftrightarrow> RoutingTable_get_nodeinfo rt (ni_id n) = Ret (Inr (Some n))"
proof
  assume "n \<in> set (RoutingTable_get_all_nodeinfos rt)"
  then obtain i where i: "i < NUM_BUCKETS" "n \<in> set (kb_nodes (rt_buckets rt ! i))"
    using rt_invD(2) [OF assms]
    by (auto simp: RoutingTable_get_all_nodeinfos_def KBucket_get_nodeinfos_def in_set_conv_nth [of _ "rt_buckets rt"])
  then have "KBucket_get_nodeinfo (ni_id n) (rt_buckets rt ! i) = Some n"
    using rt_invD(3) [OF assms i(1)] by (intro get_nodeinfo_mem) (auto simp: kb_inv_def)
  with i rt_invD(5) [OF assms i(1)] get_nodeinfo_bucket [OF assms]
  show "RoutingTable_get_nodeinfo rt (ni_id n) = Ret (Inr (Some n))" by simp
next
  assume "RoutingTable_get_nodeinfo rt (ni_id n) = Ret (Inr (Some n))"
  then obtain i where "i < length (rt_buckets rt)" "n \<in> set (kb_nodes (rt_buckets rt ! i))"
    by (auto simp: RoutingTable_get_nodeinfo_def KBucket_get_nodeinfo_def split: sum.splits if_splits dest!: find_SomeD)
  then show "n \<in> set (RoutingTable_get_all_nodeinfos rt)"
    by (auto simp: RoutingTable_get_all_nodeinfos_def KBucket_get_nodeinfos_def)
qed

lemma empty_not_full:
  assumes "rt_inv rt" "wf_node n" "set (RoutingTable_get_all_nodeinfos rt) \<subseteq> {n}"
  shows "\<not> full_for rt n"
proof (cases "RoutingTable_get_bucket_index rt (ni_id n)")
  case (Inr i)
  have "i < NUM_BUCKETS" using get_bucket_index_bound [OF rt_invD(1) [OF assms(1)] _ Inr] assms(2) by (simp add: wf_node_def)
  then have "rt_buckets rt ! i \<in> set (rt_buckets rt)" using rt_invD(2) [OF assms(1)] by simp
  then have "set (kb_nodes (rt_buckets rt ! i)) \<subseteq> {n}"
    using assms(3) by (auto simp: RoutingTable_get_all_nodeinfos_def KBucket_get_nodeinfos_def)
  then have "filter (\<lambda>m. ni_id m \<noteq> ni_id n) (kb_nodes (rt_buckets rt ! i)) = []" by (auto simp: filter_empty_conv)
  then show ?thesis by (simp add: full_for_def Inr K_def)
qed (simp add: full_for_def)

text \<open>Storing a contact in a table that knows no other contact than it.\<close>

lemma store_only_contact:
  assumes "nd_inv nd" "wf_node n" "ni_id n \<noteq> nd_key nd"
    and "set (RoutingTable_get_all_nodeinfos (nd_routing_table nd)) \<subseteq> {n}"
  obtains rt where "Node_store_nodeinfo env n nd w = Ret (Inr (), nd\<lparr>nd_routing_table := rt\<rparr>, w)"
    "nd_inv (nd\<lparr>nd_routing_table := rt\<rparr>)" "RoutingTable_get_all_nodeinfos rt = [n]"
proof -
  let ?rt = "nd_routing_table nd"
  have inv: "rt_inv ?rt" "rt_id ?rt = nd_key nd" using assms(1) by (auto simp: nd_inv_def)
  have "\<not> full_for ?rt n" by (rule empty_not_full [OF inv(1) assms(2,4)])
  with assms(1,2) show thesis
  proof (cases rule: node_store_cases [where env = env and w = w])
    case (stored rt)
    have inv': "rt_inv rt" using stored(4) by (simp add: nd_inv_def)
    have "m = n" if "m \<in> set (RoutingTable_get_all_nodeinfos rt)" for m
    proof (rule ccontr)
      assume "m \<noteq> n"
      have m: "RoutingTable_get_nodeinfo rt (ni_id m) = Ret (Inr (Some m))" using that contact_found_iff [OF inv'] by simp
      with \<open>m \<noteq> n\<close> stored(5) have ne: "ni_id m \<noteq> ni_id n" by auto
      have "wf_key (ni_id m)" using all_nodes_wf [OF inv' that] by (simp add: wf_node_def)
      with m ne stored(6) have "m \<in> set (RoutingTable_get_all_nodeinfos ?rt)" using contact_found_iff [OF inv(1)] by simp
      then show False using assms(4) \<open>m \<noteq> n\<close> by auto
    qed
    moreover have "n \<in> set (RoutingTable_get_all_nodeinfos rt)" using stored(5) contact_found_iff [OF inv'] by simp
    moreover have "distinct (RoutingTable_get_all_nodeinfos rt)" using all_nodes_distinct [OF inv'] by (simp add: distinct_map)
    ultimately have "RoutingTable_get_all_nodeinfos rt = [n]" by (intro distinct_singleton) blast+
    then show thesis using that stored by blast
  qed (use assms(3) in simp_all)
qed

lemma closest_of_one:
  assumes "rt_inv rt" "wf_key k" "k \<noteq> rt_id rt" "RoutingTable_get_all_nodeinfos rt = [n]" "0 < m"
  shows "RoutingTable_get_n_closest rt k m = Ret (Inr [n])"
proof -
  have "\<exists>ms. RoutingTable_get_n_closest rt k m = Ret (Inr ms) \<and> mset ms \<subseteq># {#n#} \<and> length ms = 1"
    using get_n_closest_shape [OF assms(1-3), of m] assms(4,5) by auto
  then show ?thesis by (auto simp: length_Suc_conv)
qed

section \<open>One request\<close>

lemma me_wf: "nd_inv nd \<Longrightarrow> wf_node (Node_to_node_info nd)"
  using nd_inv_wf [of nd] by (simp add: Node_to_node_info_def NodeInfo_new_def wf_node_def)

lemma me_simps [simp]:
  "ni_id (Node_to_node_info nd) = nd_key nd" "ni_address (Node_to_node_info nd) = nd_address nd"
  "Node_to_node_info (nd\<lparr>nd_routing_table := rt\<rparr>) = Node_to_node_info nd"
  "Node_to_node_info (nd\<lparr>nd_storage := m\<rparr>) = Node_to_node_info nd"
  by (simp_all add: Node_to_node_info_def NodeInfo_new_def)

lemma me_neq: "nd_key nd \<noteq> nd_key st \<Longrightarrow> Node_to_node_info st \<noteq> Node_to_node_info nd"
  by (auto dest: arg_cong [where f = ni_id])

text \<open>The storer records the sender of a request for it and dispatches the request.\<close>

lemma storer_handles:
  assumes "nd_inv nd" "request_wf q" "rq_receiver q = Node_to_node_info nd" "ni_id (rq_sender q) \<noteq> nd_key nd"
    and "\<not> full_for (nd_routing_table nd) (rq_sender q)" "pr bs = None" "pq bs = Some q"
  obtains rt where "nd_inv (nd\<lparr>nd_routing_table := rt\<rparr>)" "\<not> full_for rt (rq_sender q)"
    "set (RoutingTable_get_all_nodeinfos (nd_routing_table nd)) \<subseteq> {rq_sender q} \<longrightarrow>
       RoutingTable_get_all_nodeinfos rt = [rq_sender q]"
    "process_message env pr pq bs nd w =
       bind_run (dispatch_request env (Node_to_node_info nd) q (nd\<lparr>nd_routing_table := rt\<rparr>) w)
         (\<lambda>(tasks, nd', w'). Ret (None, tasks, nd', w'))"
proof -
  have wf: "wf_node (rq_sender q)" using assms(2) by (simp add: request_wf_def)
  with assms(1) show thesis
  proof (cases rule: node_store_cases [where env = env and w = w])
    case (stored rt)
    have "\<not> full_for rt (rq_sender q)"
      using stored(4,5) by (intro known_not_full) (auto simp: nd_inv_def)
    moreover have "RoutingTable_get_all_nodeinfos rt = [rq_sender q]"
      if "set (RoutingTable_get_all_nodeinfos (nd_routing_table nd)) \<subseteq> {rq_sender q}"
      by (rule store_only_contact [where env = env and w = w, OF assms(1) wf assms(4) that])
        (use stored(3) in \<open>auto dest: arg_cong [where f = nd_routing_table]\<close>)
    ultimately show thesis using stored
      by (intro that [of rt])
        (simp_all add: process_message_def assms(3,6,7) handle_received_request_def record_possible_neighbour_def)
  qed (use assms(4,5) in simp_all)
qed

text \<open>A request of the client is parsed and dispatched by the storer before the client waits.\<close>

lemma storer_receives:
  assumes "json_ok js qs rs" "ask rid t nd st \<in> qs" "request_wf (ask rid t nd st)" "nd_inv st" "nd_key nd \<noteq> nd_key st"
    and "\<not> full_for (nd_routing_table st) (Node_to_node_info nd)" "lk_storer l = st"
  obtains rt n where "nd_inv (st\<lparr>nd_routing_table := rt\<rparr>)" "\<not> full_for rt (Node_to_node_info nd)"
    "set (RoutingTable_get_all_nodeinfos (nd_routing_table st)) \<subseteq> {Node_to_node_info nd} \<longrightarrow>
       RoutingTable_get_all_nodeinfos rt = [Node_to_node_info nd]"
    "MessageDispatcher_send_request (client_env js dr (nd_address st)) (ask rid t nd st) l = (Inr n,
       case dispatch_request (storer_env (js_response js)) (Node_to_node_info st) (ask rid t nd st)
         (st\<lparr>nd_routing_table := rt\<rparr>) (fresh_wires (lk_wires l)) of
         Ret (tasks, nd', w') \<Rightarrow> l\<lparr>lk_storer := nd', lk_wires := w', lk_tasks := lk_tasks l @ tasks\<rparr>
       | _ \<Rightarrow> l)"
proof -
  let ?q = "ask rid t nd st" and ?senv = "storer_env (js_response js)" and ?w = "fresh_wires (lk_wires l)"
  obtain qb where qb: "js_request js ?q = Some qb" "length qb \<le> MAX_MESSAGE_SIZE" "js_parse_response js qb = None"
      "js_parse_request js qb = Some ?q" using json_ok_request [OF assms(1,2)] .
  obtain rt where rt: "nd_inv (st\<lparr>nd_routing_table := rt\<rparr>)" "\<not> full_for rt (Node_to_node_info nd)"
    "set (RoutingTable_get_all_nodeinfos (nd_routing_table st)) \<subseteq> {Node_to_node_info nd} \<longrightarrow>
       RoutingTable_get_all_nodeinfos rt = [Node_to_node_info nd]"
    "process_message ?senv (js_parse_response js) (js_parse_request js) qb st ?w =
       bind_run (dispatch_request ?senv (Node_to_node_info st) ?q (st\<lparr>nd_routing_table := rt\<rparr>) ?w)
         (\<lambda>(tasks, nd', w'). Ret (None, tasks, nd', w'))"
    by (rule storer_handles [OF assms(4,3), where pr = "js_parse_response js" and pq = "js_parse_request js" and bs = qb and
        env = ?senv and w = ?w]) (use assms(5,6) qb in auto)
  have "deliver js qb l =
      (case dispatch_request ?senv (Node_to_node_info st) ?q (st\<lparr>nd_routing_table := rt\<rparr>) ?w of
         Ret (tasks, nd', w') \<Rightarrow> l\<lparr>lk_storer := nd', lk_wires := w', lk_tasks := lk_tasks l @ tasks\<rparr>
       | _ \<Rightarrow> l)"
    by (simp add: deliver_def assms(7) rt(4) split: run.split prod.split)
  then show thesis
    using qb me_neq [OF assms(5)] by (intro that [OF rt(1-3), of "length qb"]) (simp add: MessageDispatcher_send_request_def)
qed

text \<open>An answer of the storer becomes its only datagram, and the client gets it.\<close>

lemma storer_responds:
  assumes "json_ok js qs rs" "answer rid t nd st \<in> rs" "wi_datagrams w = []"
  obtains rb n where "js_parse_response js rb = Some (answer rid t nd st)"
    "MessageDispatcher_send_response (storer_env (js_response js)) (answer rid t nd st) w =
       (Inr n, w\<lparr>wi_datagrams := [(rb, nd_address nd)]\<rparr>)"
proof -
  obtain rb where "js_response js (answer rid t nd st) = Some rb" "length rb \<le> MAX_MESSAGE_SIZE"
      "js_parse_response js rb = Some (answer rid t nd st)" using json_ok_response [OF assms(1,2)] .
  then show thesis
    using that [of rb "length rb"] assms(3) by (simp add: MessageDispatcher_send_response_def) (simp add: Response_new_def)
qed

lemma client_awaits:
  assumes "json_ok js qs rs" "nd_inv nd"
    and "MessageDispatcher_send_request (client_env js dr a) (ask rid t nd st) l = (Inr n, l')"
    and "wi_datagrams (lk_wires l') = [(rb, b)]" "js_parse_response js rb = Some (answer rid t' nd st)"
  obtains nd1 where "Node_send_request_and_wait (client_env js dr a) (ask rid t nd st) timeout nd l =
      (Inr (answer rid t' nd st), nd1, l')" "same_but_map nd nd1" "nd_inv nd1"
proof -
  let ?wait = "Node_send_request_and_wait (client_env js dr a) (ask rid t nd st) timeout nd l"
  have "awaited js rid (wi_datagrams (lk_wires l')) = Some (answer rid t' nd st)"
    using assms(4,5) by (simp add: awaited_def List.map_filter_def Response_new_def)
  then obtain nd1 where w: "?wait = (Inr (answer rid t' nd st), nd1, l')"
    using assms(3) by (auto simp: Node_send_request_and_wait_def Let_def)
  from send_request_keeps [OF w client_env_await_ok [OF assms(1)] assms(2)] w show thesis using that by blast
qed

section \<open>Announcing and sending a chunk\<close>

lemma fresh_wires_simps [simp]:
  "wi_datagrams (fresh_wires w) = []" "wi_transfers (fresh_wires w) = []" "wi_port (fresh_wires w) = wi_port w"
  by (simp_all add: fresh_wires_def)

text \<open>The storer after it announced a port for a chunk of the client.\<close>

abbreviation announced :: "u16 \<Rightarrow> node \<Rightarrow> key \<Rightarrow> node \<Rightarrow> node" where
  "announced port nd h st \<equiv>
     st\<lparr>nd_storage := snd (ShardStorageManager_add_active_tcp_connection port (Node_to_node_info nd) h (nd_storage st))\<rparr>"

abbreviation listening :: "u16 \<Rightarrow> spawned" where
  "listening port \<equiv> ReceiveUpload \<lparr>tl_listener = 0, tl_port = port\<rparr>"

lemma storer_gives_port:
  assumes "json_ok js qs rs" "answer rid (PortOK (wi_port w)) nd st \<in> rs" "wi_datagrams w = []"
    and "DataTransfersTable_get (wi_port w) (ss_data_transfers_table (nd_storage st)) = None"
  obtains rb where "js_parse_response js rb = Some (answer rid (PortOK (wi_port w)) nd st)"
    "handle_get_port_message (storer_env (js_response js)) (Node_to_node_info st) (ask rid (GetPort h) nd st) h st w =
     ([listening (wi_port w)], announced (wi_port w) nd h st,
      w\<lparr>wi_bound := LOCALHOST, wi_datagrams := [(rb, nd_address nd)]\<rparr>)"
proof -
  obtain rb n where rb: "js_parse_response js rb = Some (answer rid (PortOK (wi_port w)) nd st)"
    "MessageDispatcher_send_response (storer_env (js_response js)) (answer rid (PortOK (wi_port w)) nd st)
       (w\<lparr>wi_bound := LOCALHOST\<rparr>) = (Inr n, w\<lparr>wi_bound := LOCALHOST, wi_datagrams := [(rb, nd_address nd)]\<rparr>)"
    by (rule storer_responds [OF assms(1,2), where w = "w\<lparr>wi_bound := LOCALHOST\<rparr>"]) (use assms(3) in auto)
  have prev: "fst (ShardStorageManager_add_active_tcp_connection (wi_port w) (Node_to_node_info nd) h (nd_storage st)) = None"
    using assms(4) by (simp add: ShardStorageManager_add_active_tcp_connection_def DataTransfersTable_add_def
        DataTransfersTable_get_def HashMap_insert_def Let_def)
  show thesis
    by (rule that [OF rb(1)])
      (use rb(2) prev in \<open>simp add: handle_get_port_message_def TcpListenerService_new_def TcpListenerService_get_port_def
        case_prod_unfold Let_def\<close>)
qed

text \<open>The client asks for a port and gets one; the storer listens and has announced the chunk.\<close>

lemma client_gets_port:
  assumes "json_ok js qs rs" "ask (lk_next_id l) (GetPort h) nd st \<in> qs"
    and "answer (lk_next_id l) (PortOK (wi_port (lk_wires l))) nd st \<in> rs"
    and "nd_inv nd" "nd_inv st" "nd_key nd \<noteq> nd_key st" "wf_key h"
    and "\<not> full_for (nd_routing_table st) (Node_to_node_info nd)" "lk_storer l = st"
    and "DataTransfersTable_get (wi_port (lk_wires l)) (ss_data_transfers_table (nd_storage st)) = None"
  obtains rt nd1 l1 where "nd_inv (st\<lparr>nd_routing_table := rt\<rparr>)" "\<not> full_for rt (Node_to_node_info nd)"
    "set (RoutingTable_get_all_nodeinfos (nd_routing_table st)) \<subseteq> {Node_to_node_info nd} \<longrightarrow>
       RoutingTable_get_all_nodeinfos rt = [Node_to_node_info nd]"
    "same_but_map nd nd1" "nd_inv nd1"
    "Node_send_get_port_request (client_env js dr (nd_address st)) h (Node_to_node_info st) (nd, l) =
       (Some (answer (lk_next_id l) (PortOK (wi_port (lk_wires l))) nd st), nd1, l1)"
    "lk_storer l1 = announced (wi_port (lk_wires l)) nd h (st\<lparr>nd_routing_table := rt\<rparr>)"
    "lk_tasks l1 = lk_tasks l @ [listening (wi_port (lk_wires l))]" "wi_bound (lk_wires l1) = LOCALHOST"
    "wi_port (lk_wires l1) = wi_port (lk_wires l)" "lk_next_id l1 = lk_next_id l + 1"
proof -
  let ?rid = "lk_next_id l" and ?port = "wi_port (lk_wires l)" and ?l = "l\<lparr>lk_next_id := lk_next_id l + 1\<rparr>"
  let ?q = "ask ?rid (GetPort h) nd st" and ?env = "client_env js dr (nd_address st)" and ?senv = "storer_env (js_response js)"
  have wf: "request_wf ?q" using assms(7) me_wf [OF assms(4)] by (simp add: request_wf_def)
  obtain rt n where rt: "nd_inv (st\<lparr>nd_routing_table := rt\<rparr>)" "\<not> full_for rt (Node_to_node_info nd)"
    "set (RoutingTable_get_all_nodeinfos (nd_routing_table st)) \<subseteq> {Node_to_node_info nd} \<longrightarrow>
       RoutingTable_get_all_nodeinfos rt = [Node_to_node_info nd]"
    and send: "MessageDispatcher_send_request ?env ?q ?l = (Inr n,
       case dispatch_request ?senv (Node_to_node_info st) ?q (st\<lparr>nd_routing_table := rt\<rparr>) (fresh_wires (lk_wires ?l)) of
         Ret (tasks, nd', w') \<Rightarrow> ?l\<lparr>lk_storer := nd', lk_wires := w', lk_tasks := lk_tasks ?l @ tasks\<rparr>
       | _ \<Rightarrow> ?l)"
    by (rule storer_receives [where l = ?l and dr = dr, OF assms(1,2) wf assms(5,6,8)])
      (simp add: assms(9), (rule that; assumption))
  obtain rb where rb: "js_parse_response js rb = Some (answer ?rid (PortOK ?port) nd st)"
    "handle_get_port_message ?senv (Node_to_node_info st) ?q h (st\<lparr>nd_routing_table := rt\<rparr>) (fresh_wires (lk_wires l)) =
     ([listening ?port], announced ?port nd h (st\<lparr>nd_routing_table := rt\<rparr>),
      (fresh_wires (lk_wires l))\<lparr>wi_bound := LOCALHOST, wi_datagrams := [(rb, nd_address nd)]\<rparr>)"
    using storer_gives_port [where nd = nd and st = "st\<lparr>nd_routing_table := rt\<rparr>" and w = "fresh_wires (lk_wires l)" and h = h and
        rid = ?rid, OF assms(1)] assms(3,10) by auto
  let ?l1 = "?l\<lparr>lk_storer := announced ?port nd h (st\<lparr>nd_routing_table := rt\<rparr>),
    lk_wires := (fresh_wires (lk_wires l))\<lparr>wi_bound := LOCALHOST, wi_datagrams := [(rb, nd_address nd)]\<rparr>,
    lk_tasks := lk_tasks l @ [listening ?port]\<rparr>"
  have sent: "MessageDispatcher_send_request ?env ?q ?l = (Inr n, ?l1)"
    using send rb(2) by (simp add: dispatch_request_def)
  obtain nd1 where nd1: "Node_send_request_and_wait ?env ?q BASIC_REQUEST_TIMEOUT_MILLISECONDS nd ?l =
      (Inr (answer ?rid (PortOK ?port) nd st), nd1, ?l1)" "same_but_map nd nd1" "nd_inv nd1"
    by (rule client_awaits [OF assms(1,4) sent _ rb(1)]) auto
  then have "Node_send_get_port_request ?env h (Node_to_node_info st) (nd, l) = (Some (answer ?rid (PortOK ?port) nd st), nd1, ?l1)"
    by (simp add: Node_send_get_port_request_def Request_new_def) (simp add: Response_new_def)
  then show thesis by (rule that [OF rt nd1(2,3)]) simp_all
qed

text \<open>Data that arrives on the announced port is stored under the announced hash.\<close>

lemma storer_takes:
  assumes "nd_inv st" "wf_key h" "length data \<le> ENCRYPTED_CHUNK_SIZE_B"
    and "HashMap_len (ss_owned_chunks (nd_storage st)) < MAX_SHARDS_STORED" "nd_disk st (chunk_path (nd_storage st) h) = None"
  obtains st2 where "run_spawned (storer_env jr) (listening port) (announced port nd h st) (w\<lparr>wi_incoming := data\<rparr>) =
      (st2, w\<lparr>wi_incoming := data\<rparr>)"
    "nd_inv st2" "nd_contents st2 = (nd_contents st)(h \<mapsto> data)"
    "nd_disk st2 = (nd_disk st)(chunk_path (nd_storage st) h \<mapsto> data)"
    "ss_storage_root_path (nd_storage st2) = ss_storage_root_path (nd_storage st)"
    "DataTransfersTable_get port (ss_data_transfers_table (nd_storage st2)) = None"
    "HashMap_len (ss_owned_chunks (nd_storage st2)) = Suc (HashMap_len (ss_owned_chunks (nd_storage st)))"
    "nd_routing_table st2 = nd_routing_table st" "nd_key st2 = nd_key st" "nd_address st2 = nd_address st"
proof -
  have inv: "ss_inv (nd_storage st, nd_disk st)" using assms(1) by (simp add: nd_inv_def)
  obtain p m1 where a: "ShardStorageManager_add_active_tcp_connection port (Node_to_node_info nd) h (nd_storage st) = (p, m1)"
    by (cases "ShardStorageManager_add_active_tcp_connection port (Node_to_node_info nd) h (nd_storage st)")
  have m1: "m1 = (nd_storage st)\<lparr>ss_data_transfers_table :=
      HashMap_put port \<lparr>dt_sender = Node_to_node_info nd, dt_chunk_hash = h\<rparr> (ss_data_transfers_table (nd_storage st))\<rparr>"
    using a by (auto simp: ShardStorageManager_add_active_tcp_connection_def storage_defs Let_def)
  have inv1: "ss_inv (m1, nd_disk st)" "ss_contents (m1, nd_disk st) = nd_contents st"
    using announce_laws [OF inv assms(2) a] by auto
  have wf: "wf_map (ss_data_transfers_table (nd_storage st))" "wf_map (ss_owned_chunks (nd_storage st))"
    using inv by (auto simp: ss_inv_def)
  have t: "DataTransfersTable_get port (ss_data_transfers_table m1) = Some \<lparr>dt_sender = Node_to_node_info nd, dt_chunk_hash = h\<rparr>"
    using wf by (simp add: m1 DataTransfersTable_get_def)
  have path: "chunk_path m1 h = chunk_path (nd_storage st) h" by (simp add: m1 chunk_path_def)
  define m2 where "m2 = m1\<lparr>ss_data_transfers_table := HashMap_delete port (ss_data_transfers_table m1),
    ss_owned_chunks := HashMap_put h \<lparr>sc_time_stored_at = 0\<rparr> (ss_owned_chunks m1)\<rparr>"
  define st2 where "st2 = st\<lparr>nd_storage := m2, nd_disk := (nd_disk st)(chunk_path (nd_storage st) h \<mapsto> data)\<rparr>"
  have "ShardStorageManager_store_chunk_for_known_peer 0 True WriteOk data port m1 (nd_disk st) =
      (Inr (), m2, (nd_disk st)(chunk_path (nd_storage st) h \<mapsto> data))"
    using t assms(3-5) memory_check_passes [of m1 data] inv1(1) path
    by (simp add: ShardStorageManager_store_chunk_for_known_peer_def Let_def ss_inv_def m2_def DataTransfersTable_remove_def
        HashMap_insert_def HashMap_remove_def) (simp add: m1)
  then have run: "run_spawned (storer_env jr) (listening port) (announced port nd h st) (w\<lparr>wi_incoming := data\<rparr>) =
      (st2, w\<lparr>wi_incoming := data\<rparr>)"
    by (simp add: handle_tcp_upload_def TcpListenerService_receive_data_def TcpListenerService_get_port_def a st2_def)
  have acc: "ss_inv (m2, (nd_disk st)(chunk_path (nd_storage st) h \<mapsto> data))"
      "HashMap_get (ss_owned_chunks m1) h = None"
      "ss_contents (m2, (nd_disk st)(chunk_path (nd_storage st) h \<mapsto> data)) = (nd_contents st)(h \<mapsto> data)"
    using ss_accepted [OF inv1(1) t assms(3), where ok = True and bs = data and info = "\<lparr>sc_time_stored_at = 0\<rparr>" and m' = m2
        and d' = "(nd_disk st)(chunk_path (nd_storage st) h \<mapsto> data)"] assms(4,5) path inv1(2)
    by (simp_all add: m2_def) (simp_all add: m1)
  have "nd_inv st2" using assms(1) acc(1) by (simp add: st2_def nd_inv_def)
  then show thesis
    using acc(2,3) wf hm.length_keys_put [OF wf(2), of h "\<lparr>sc_time_stored_at = 0\<rparr>"]
    by (intro that [OF run]) (simp_all add: st2_def m2_def m1 DataTransfersTable_get_def HashMap_len_keys)
qed

text \<open>The transfer to the announced port.\<close>

lemma client_sends:
  assumes "lk_tasks l = [listening port]" "reaches (SocketAddr_ip a) (wi_bound (lk_wires l))"
    and "rs_response_type r = PortOK port" "ni_address (rs_sender r) = a"
    and "run_spawned (storer_env (js_response js)) (listening port) (lk_storer l) ((lk_wires l)\<lparr>wi_incoming := ch_data c\<rparr>) = (st2, w2)"
  shows "Node_store_chunk (client_env js dr b) [r] c l = (Inr (), l\<lparr>lk_storer := st2, lk_wires := w2, lk_tasks := []\<rparr>)"
  using assms by (simp add: Node_store_chunk_def Node_send_chunk_over_tcp_def transmit_def TcpListenerService_get_port_def)

text \<open>The client fetches a chunk the storer reads from its disk.\<close>

lemma client_fetches:
  assumes "json_ok js qs rs" "ask (lk_next_id l) (GetValue h client_port) nd st \<in> qs"
    and "nd_inv nd" "nd_inv st" "nd_key nd \<noteq> nd_key st" "wf_key h"
    and "\<not> full_for (nd_routing_table st) (Node_to_node_info nd)" "SocketAddr_ip (nd_address nd) = LOOPBACK"
    and "lk_storer l = st" "nd_contents st h = Some data"
  obtains rt l' where
    "Node_download_chunk_from_storer (client_env js dr (nd_address st)) h (Node_to_node_info st) nd l = (Inr data, l')"
    "nd_inv (st\<lparr>nd_routing_table := rt\<rparr>)" "\<not> full_for rt (Node_to_node_info nd)"
    "set (RoutingTable_get_all_nodeinfos (nd_routing_table st)) \<subseteq> {Node_to_node_info nd} \<longrightarrow>
       RoutingTable_get_all_nodeinfos rt = [Node_to_node_info nd]"
    "lk_storer l' = st\<lparr>nd_routing_table := rt\<rparr>" "lk_tasks l' = lk_tasks l"
    "wi_port (lk_wires l') = wi_port (lk_wires l)"
proof -
  let ?env = "client_env js dr (nd_address st)" and ?q = "ask (lk_next_id l) (GetValue h client_port) nd st"
  let ?l = "l\<lparr>lk_bound := LOCALHOST, lk_next_id := lk_next_id l + 1\<rparr>"
  have wf: "request_wf ?q" using assms(6) me_wf [OF assms(3)] by (simp add: request_wf_def)
  obtain rt n where rt: "nd_inv (st\<lparr>nd_routing_table := rt\<rparr>)" "\<not> full_for rt (Node_to_node_info nd)"
    "set (RoutingTable_get_all_nodeinfos (nd_routing_table st)) \<subseteq> {Node_to_node_info nd} \<longrightarrow>
       RoutingTable_get_all_nodeinfos rt = [Node_to_node_info nd]"
    and send: "MessageDispatcher_send_request ?env ?q ?l = (Inr n,
       case dispatch_request (storer_env (js_response js)) (Node_to_node_info st) ?q (st\<lparr>nd_routing_table := rt\<rparr>)
         (fresh_wires (lk_wires ?l)) of
         Ret (tasks, nd', w') \<Rightarrow> ?l\<lparr>lk_storer := nd', lk_wires := w', lk_tasks := lk_tasks ?l @ tasks\<rparr>
       | _ \<Rightarrow> ?l)"
    by (rule storer_receives [where l = ?l and dr = dr, OF assms(1,2) wf assms(4,5,7)])
      (simp add: assms(9), (rule that; assumption))
  have "nd_disk st (chunk_path (nd_storage st) h) = Some data"
    using assms(10) by (simp add: ss_contents_def split: if_splits)
  then have "handle_get_value (storer_env (js_response js)) ?q h client_port (st\<lparr>nd_routing_table := rt\<rparr>) (fresh_wires (lk_wires l)) =
      (fresh_wires (lk_wires l))\<lparr>wi_transfers := [(LOOPBACK, client_port, data)]\<rparr>"
    using assms(8) by (simp add: handle_get_value_def ShardStorageManager_read_chunk_def)
  then have "MessageDispatcher_send_request ?env ?q ?l = (Inr n, ?l\<lparr>lk_storer := st\<lparr>nd_routing_table := rt\<rparr>,
      lk_wires := (fresh_wires (lk_wires l))\<lparr>wi_transfers := [(LOOPBACK, client_port, data)]\<rparr>\<rparr>)"
    using send by (simp add: dispatch_request_def)
  moreover have "transfer_to LOCALHOST client_port [(LOOPBACK, client_port, data)] = Some data"
    by (simp add: transfer_to_def reaches_def)
  ultimately have "Node_download_chunk_from_storer ?env h (Node_to_node_info st) nd l =
      (Inr data, ?l\<lparr>lk_storer := st\<lparr>nd_routing_table := rt\<rparr>,
         lk_wires := (fresh_wires (lk_wires l))\<lparr>wi_transfers := [(LOOPBACK, client_port, data)]\<rparr>\<rparr>)"
    using assms(5) by (simp add: Node_download_chunk_from_storer_def TcpListenerService_new_def TcpListenerService_get_port_def
        Request_new_def TcpListenerService_receive_data_def)
  then show thesis by (rule that [OF _ rt]) simp_all
qed

text \<open>The answer to the announcement of a chunk.\<close>

abbreviation store_reply :: "key \<Rightarrow> node \<Rightarrow> response_type" where
  "store_reply h st \<equiv>
     (if ShardStorageManager_is_chunk_already_stored h (nd_storage st) then StoreChunkUpdated else StoreOK)"

lemma storer_answers_store:
  assumes "json_ok js qs rs" "answer rid (store_reply h st) nd st \<in> rs" "nd_inv st" "wi_datagrams w = []"
  obtains st' rb where "js_parse_response js rb = Some (answer rid (store_reply h st) nd st)"
    "handle_store_message (storer_env (js_response js)) (Node_to_node_info st) (ask rid (Store h) nd st) h st w =
       (st', w\<lparr>wi_datagrams := [(rb, nd_address nd)]\<rparr>)"
    "nd_inv st'" "nd_contents st' = nd_contents st" "Node_to_node_info st' = Node_to_node_info st"
    "\<not> ShardStorageManager_is_chunk_already_stored h (nd_storage st) \<longrightarrow> st' = st"
    "map_option sc_time_stored_at (HashMap_get (ss_owned_chunks (nd_storage st')) h) =
       (if ShardStorageManager_is_chunk_already_stored h (nd_storage st) then Some 0 else None)"
proof -
  let ?stored = "ShardStorageManager_is_chunk_already_stored h (nd_storage st)"
  obtain rb n where rb: "js_parse_response js rb = Some (answer rid (store_reply h st) nd st)"
      "MessageDispatcher_send_response (storer_env (js_response js)) (answer rid (store_reply h st) nd st) w =
         (Inr n, w\<lparr>wi_datagrams := [(rb, nd_address nd)]\<rparr>)"
    using storer_responds [OF assms(1,2,4)] .
  define st' where "st' = (if ?stored
    then st\<lparr>nd_storage := snd (ShardStorageManager_update_chunk_upload_time 0 h (nd_storage st))\<rparr> else st)"
  have h: "handle_store_message (storer_env (js_response js)) (Node_to_node_info st) (ask rid (Store h) nd st) h st w =
      (st', w\<lparr>wi_datagrams := [(rb, nd_address nd)]\<rparr>)"
    using rb(2) by (auto simp: st'_def handle_store_message_def case_prod_unfold Let_def)
  have "wf_map (ss_owned_chunks (nd_storage st))" using assms(3) by (simp add: nd_inv_def ss_inv_def)
  then have "map_option sc_time_stored_at (HashMap_get (ss_owned_chunks (nd_storage st')) h) = (if ?stored then Some 0 else None)"
    by (auto simp: st'_def ShardStorageManager_update_chunk_upload_time_def ShardStorageManager_is_chunk_already_stored_def
        HashMap_contains_key_def split: option.splits)
  then show thesis using that [OF rb(1) h] handle_store_keeps [OF assms(3) h] by (simp add: st'_def)
qed

lemma client_announces:
  assumes "json_ok js qs rs" "ask (lk_next_id l) (Store h) nd st \<in> qs" "answer (lk_next_id l) (store_reply h st) nd st \<in> rs"
    and "nd_inv nd" "nd_inv st" "nd_key nd \<noteq> nd_key st" "wf_key h"
    and "\<not> full_for (nd_routing_table st) (Node_to_node_info nd)" "lk_storer l = st"
  obtains rt nd1 l1 st' where
    "Node_send_initial_store_request (client_env js dr (nd_address st)) h (Node_to_node_info st) (nd, l) =
       (if ShardStorageManager_is_chunk_already_stored h (nd_storage st) then None
        else Some (answer (lk_next_id l) StoreOK nd st), nd1, l1)"
    "same_but_map nd nd1" "nd_inv nd1"
    "set (RoutingTable_get_all_nodeinfos (nd_routing_table st)) \<subseteq> {Node_to_node_info nd} \<longrightarrow>
       RoutingTable_get_all_nodeinfos rt = [Node_to_node_info nd]"
    "lk_storer l1 = st'" "nd_inv st'" "nd_contents st' = nd_contents st"
    "\<not> ShardStorageManager_is_chunk_already_stored h (nd_storage st) \<longrightarrow> st' = st\<lparr>nd_routing_table := rt\<rparr>"
    "map_option sc_time_stored_at (HashMap_get (ss_owned_chunks (nd_storage st')) h) =
       (if ShardStorageManager_is_chunk_already_stored h (nd_storage st) then Some 0 else None)"
    "lk_tasks l1 = lk_tasks l" "wi_port (lk_wires l1) = wi_port (lk_wires l)" "lk_next_id l1 = lk_next_id l + 1"
proof -
  let ?rid = "lk_next_id l" and ?l = "l\<lparr>lk_next_id := lk_next_id l + 1\<rparr>"
  let ?q = "ask ?rid (Store h) nd st" and ?env = "client_env js dr (nd_address st)" and ?senv = "storer_env (js_response js)"
  have wf: "request_wf ?q" using assms(7) me_wf [OF assms(4)] by (simp add: request_wf_def)
  obtain rt n where rt: "nd_inv (st\<lparr>nd_routing_table := rt\<rparr>)" "\<not> full_for rt (Node_to_node_info nd)"
    "set (RoutingTable_get_all_nodeinfos (nd_routing_table st)) \<subseteq> {Node_to_node_info nd} \<longrightarrow>
       RoutingTable_get_all_nodeinfos rt = [Node_to_node_info nd]"
    and send: "MessageDispatcher_send_request ?env ?q ?l = (Inr n,
       case dispatch_request ?senv (Node_to_node_info st) ?q (st\<lparr>nd_routing_table := rt\<rparr>) (fresh_wires (lk_wires ?l)) of
         Ret (tasks, nd', w') \<Rightarrow> ?l\<lparr>lk_storer := nd', lk_wires := w', lk_tasks := lk_tasks ?l @ tasks\<rparr>
       | _ \<Rightarrow> ?l)"
    by (rule storer_receives [where l = ?l and dr = dr, OF assms(1,2) wf assms(5,6,8)])
      (simp add: assms(9), (rule that; assumption))
  have reply: "answer ?rid (store_reply h (st\<lparr>nd_routing_table := rt\<rparr>)) nd (st\<lparr>nd_routing_table := rt\<rparr>) \<in> rs"
    using assms(3) by simp
  obtain st' rb where rb: "js_parse_response js rb = Some (answer ?rid (store_reply h st) nd st)"
    and h: "handle_store_message ?senv (Node_to_node_info st) ?q h (st\<lparr>nd_routing_table := rt\<rparr>) (fresh_wires (lk_wires l)) =
        (st', (fresh_wires (lk_wires l))\<lparr>wi_datagrams := [(rb, nd_address nd)]\<rparr>)"
    and st': "nd_inv st'" "nd_contents st' = nd_contents st"
      "\<not> ShardStorageManager_is_chunk_already_stored h (nd_storage st) \<longrightarrow> st' = st\<lparr>nd_routing_table := rt\<rparr>"
      "map_option sc_time_stored_at (HashMap_get (ss_owned_chunks (nd_storage st')) h) =
         (if ShardStorageManager_is_chunk_already_stored h (nd_storage st) then Some 0 else None)"
    by (rule storer_answers_store [where w = "fresh_wires (lk_wires l)", OF assms(1) reply rt(1)]) (simp, (rule that; simp))
  let ?l1 = "?l\<lparr>lk_storer := st', lk_wires := (fresh_wires (lk_wires l))\<lparr>wi_datagrams := [(rb, nd_address nd)]\<rparr>\<rparr>"
  have sent: "MessageDispatcher_send_request ?env ?q ?l = (Inr n, ?l1)"
    using send h by (simp add: dispatch_request_def)
  obtain nd1 where nd1: "Node_send_request_and_wait ?env ?q BASIC_REQUEST_TIMEOUT_MILLISECONDS nd ?l =
      (Inr (answer ?rid (store_reply h st) nd st), nd1, ?l1)" "same_but_map nd nd1" "nd_inv nd1"
    by (rule client_awaits [OF assms(1,4) sent _ rb]) auto
  then have "Node_send_initial_store_request ?env h (Node_to_node_info st) (nd, l) =
      (if ShardStorageManager_is_chunk_already_stored h (nd_storage st) then None else Some (answer ?rid StoreOK nd st), nd1, ?l1)"
    by (simp add: Node_send_initial_store_request_def Request_new_def) (simp add: Response_new_def)
  then show thesis by (rule that [OF _ nd1(2,3) rt(3) _ st']) simp_all
qed

section \<open>Properties\<close>

text \<open>Claim C9. A chunk sent to another node comes back: on one machine, when the storer's bucket of the client
  is not full, it has room, does not hold the chunk and the port is not in use, the client's
  request for a port is answered, the transfer to that port succeeds, and asking the storer for the chunk
  afterwards returns exactly the data sent; the storer owns the chunk and is consistent.\<close>

theorem chunk_transfer_between_nodes:
  assumes "json_ok js {ask (lk_next_id l) (GetPort h) nd st, ask (lk_next_id l + 1) (GetValue h client_port) nd st}
      {answer (lk_next_id l) (PortOK port) nd st}"
    and "nd_inv nd" "nd_inv st" "nd_key nd \<noteq> nd_key st" "wf_key h" "lk_storer l = st" "lk_tasks l = []" "wi_port (lk_wires l) = port"
    and "\<not> full_for (nd_routing_table st) (Node_to_node_info nd)"
    and "DataTransfersTable_get port (ss_data_transfers_table (nd_storage st)) = None"
    and "length data \<le> ENCRYPTED_CHUNK_SIZE_B" "HashMap_len (ss_owned_chunks (nd_storage st)) < MAX_SHARDS_STORED"
    and "nd_disk st (chunk_path (nd_storage st) h) = None"
    and "SocketAddr_ip (nd_address nd) = LOOPBACK" "SocketAddr_ip (nd_address st) = LOOPBACK"
  shows "\<exists>response nd1 l1 l2 l3.
    Node_send_get_port_request (client_env js dr (nd_address st)) h (Node_to_node_info st) (nd, l) = (Some response, nd1, l1) \<and>
    Node_store_chunk (client_env js dr (nd_address st)) [response] \<lparr>ch_data = data, ch_hash = h\<rparr> l1 = (Inr (), l2) \<and>
    Node_download_chunk_from_storer (client_env js dr (nd_address st)) h (Node_to_node_info st) nd1 l2 = (Inr data, l3) \<and>
    nd_inv (lk_storer l3) \<and> nd_contents (lk_storer l3) h = Some data"
proof -
  let ?env = "client_env js dr (nd_address st)" and ?r = "answer (lk_next_id l) (PortOK port) nd st"
  obtain rt nd1 l1 where rt: "nd_inv (st\<lparr>nd_routing_table := rt\<rparr>)" "\<not> full_for rt (Node_to_node_info nd)"
    and nd1: "same_but_map nd nd1" "nd_inv nd1"
    and port: "Node_send_get_port_request ?env h (Node_to_node_info st) (nd, l) = (Some ?r, nd1, l1)"
    and l1: "lk_storer l1 = announced port nd h (st\<lparr>nd_routing_table := rt\<rparr>)" "lk_tasks l1 = [listening port]"
      "wi_bound (lk_wires l1) = LOCALHOST" "lk_next_id l1 = lk_next_id l + 1"
    by (rule client_gets_port [where dr = dr and l = l, OF assms(1) _ _ assms(2-5,9,6)])
      (simp, simp add: assms(8), simp add: assms(8,10), (rule that; simp add: assms(7,8)))
  have room: "HashMap_len (ss_owned_chunks (nd_storage (st\<lparr>nd_routing_table := rt\<rparr>))) < MAX_SHARDS_STORED"
    "nd_disk (st\<lparr>nd_routing_table := rt\<rparr>) (chunk_path (nd_storage (st\<lparr>nd_routing_table := rt\<rparr>)) h) = None"
    using assms(12,13) by simp_all
  obtain st2 where run: "run_spawned (storer_env (js_response js)) (listening port) (lk_storer l1) ((lk_wires l1)\<lparr>wi_incoming := data\<rparr>) =
      (st2, (lk_wires l1)\<lparr>wi_incoming := data\<rparr>)"
    and st2: "nd_inv st2" "nd_contents st2 h = Some data" "nd_routing_table st2 = rt" "nd_key st2 = nd_key st" "nd_address st2 = nd_address st"
    using storer_takes [OF rt(1) assms(5,11) room, where port = port and nd = nd and w = "lk_wires l1" and jr = "js_response js"] l1(1)
    by (metis (no_types, lifting) fun_upd_same node.select_convs(1,2,3) node.surjective node.update_convs(3))
  let ?l2 = "l1\<lparr>lk_storer := st2, lk_wires := (lk_wires l1)\<lparr>wi_incoming := data\<rparr>, lk_tasks := []\<rparr>"
  have store: "Node_store_chunk ?env [?r] \<lparr>ch_data = data, ch_hash = h\<rparr> l1 = (Inr (), ?l2)"
    by (rule client_sends [where a = "nd_address st", OF l1(2)])
      (use assms(15) l1(3) run in \<open>simp_all add: reaches_def Response_new_def\<close>)
  have me: "Node_to_node_info nd1 = Node_to_node_info nd" "nd_key nd1 = nd_key nd" "nd_address nd1 = nd_address nd"
    using same_but_map_simps [OF nd1(1)] by auto
  have st: "Node_to_node_info st2 = Node_to_node_info st" using st2(4,5) by (simp add: Node_to_node_info_def)
  obtain rt' l3 where "Node_download_chunk_from_storer (client_env js dr (nd_address st2)) h (Node_to_node_info st2) nd1 ?l2 = (Inr data, l3)"
    "nd_inv (st2\<lparr>nd_routing_table := rt'\<rparr>)" "lk_storer l3 = st2\<lparr>nd_routing_table := rt'\<rparr>"
    by (rule client_fetches [where dr = dr and l = ?l2, OF assms(1) _ nd1(2) st2(1) _ assms(5)])
      (use assms(4,14) st2 rt(2) l1(4) in \<open>simp_all add: me st\<close>)
  then show ?thesis using port store st st2
    by (intro exI [of _ ?r] exI [of _ nd1] exI [of _ l1] exI [of _ ?l2] exI [of _ l3]) simp
qed

text \<open>Claim C40. Between machines the transfer fails: the listener of the storer is bound to the loopback address,
  so when the storer announces any other address, the client gets a port, the connection is refused
  and the chunk counts as not sent.\<close>

theorem remote_storer_unreachable:
  assumes "json_ok js {ask (lk_next_id l) (GetPort h) nd st} {answer (lk_next_id l) (PortOK (wi_port (lk_wires l))) nd st}"
    and "nd_inv nd" "nd_inv st" "nd_key nd \<noteq> nd_key st" "wf_key h" "lk_storer l = st" "lk_tasks l = []"
    and "\<not> full_for (nd_routing_table st) (Node_to_node_info nd)"
    and "DataTransfersTable_get (wi_port (lk_wires l)) (ss_data_transfers_table (nd_storage st)) = None"
    and "SocketAddr_ip (nd_address st) \<noteq> LOOPBACK"
  shows "\<exists>response nd1 l1.
    Node_send_get_port_request (client_env js dr (nd_address st)) h (Node_to_node_info st) (nd, l) = (Some response, nd1, l1) \<and>
    Node_store_chunk (client_env js dr (nd_address st)) [response] \<lparr>ch_data = data, ch_hash = h\<rparr> l1 = (Inl ChunkNotSent, l1)"
proof -
  let ?env = "client_env js dr (nd_address st)" and ?r = "answer (lk_next_id l) (PortOK (wi_port (lk_wires l))) nd st"
  obtain nd1 l1 where port: "Node_send_get_port_request ?env h (Node_to_node_info st) (nd, l) = (Some ?r, nd1, l1)"
    and l1: "lk_tasks l1 = [listening (wi_port (lk_wires l))]" "wi_bound (lk_wires l1) = LOCALHOST"
    by (rule client_gets_port [where dr = dr and l = l, OF assms(1) _ _ assms(2-5,8,6,9)])
      (simp, simp, (rule that; simp add: assms(7)))
  have "Node_store_chunk ?env [?r] \<lparr>ch_data = data, ch_hash = h\<rparr> l1 = (Inl ChunkNotSent, l1)"
    using assms(10) l1 by (simp add: Node_store_chunk_def Node_send_chunk_over_tcp_def Response_new_def transmit_def
        TcpListenerService_get_port_def reaches_def LOCALHOST_def)
  with port show ?thesis by blast
qed

text \<open>Claim C39. What a client learns from announcing a chunk: a storer that does not hold it is chosen to receive
  it; a storer that holds it refreshes its expiry time and is not chosen, since the client takes the
  answer \<open>StoreChunkUpdated\<close> for a refusal. The contents of the storer do not change. A chunk that every
  node asked already holds therefore counts as not stored.\<close>

theorem store_request_between_nodes:
  assumes "json_ok js {ask (lk_next_id l) (Store h) nd st} {answer (lk_next_id l) (store_reply h st) nd st}"
    and "nd_inv nd" "nd_inv st" "nd_key nd \<noteq> nd_key st" "wf_key h"
    and "\<not> full_for (nd_routing_table st) (Node_to_node_info nd)" "lk_storer l = st"
  shows "\<exists>nd1 l1. Node_send_initial_store_request (client_env js dr (nd_address st)) h (Node_to_node_info st) (nd, l) =
      (if ShardStorageManager_is_chunk_already_stored h (nd_storage st) then None
       else Some (answer (lk_next_id l) StoreOK nd st), nd1, l1) \<and>
    nd_inv nd1 \<and> nd_inv (lk_storer l1) \<and> nd_contents (lk_storer l1) = nd_contents st \<and>
    map_option sc_time_stored_at (HashMap_get (ss_owned_chunks (nd_storage (lk_storer l1))) h) =
      (if ShardStorageManager_is_chunk_already_stored h (nd_storage st) then Some 0 else None)"
  by (rule client_announces [where dr = dr, OF assms(1) _ _ assms(2-7)]) (simp, simp, blast)

section \<open>Examples\<close>

definition link_new :: "node \<Rightarrow> u16 \<Rightarrow> link" where
  "link_new storer port =
     \<lparr>lk_storer = storer, lk_tasks = [],
      lk_wires = \<lparr>wi_datagrams = [], wi_transfers = [], wi_incoming = [], wi_bound = [], wi_port = port\<rparr>,
      lk_next_id = 0, lk_bound = []\<rparr>"

lemma link_new_simps [simp]:
  "lk_storer (link_new st port) = st" "lk_tasks (link_new st port) = []" "wi_port (lk_wires (link_new st port)) = port"
  "lk_next_id (link_new st port) = 0"
  by (simp_all add: link_new_def)

definition sample_drawing :: drawing where
  "sample_drawing = \<lparr>dr_inputs = (\<lambda>_. sample_inputs 0), dr_key = replicate 32 0, dr_aead = sample_aead,
     dr_digest = (\<lambda>_. replicate 20 0)\<rparr>"

definition storer_nd :: "32 word \<Rightarrow> node" where
  "storer_nd a = Node_new 0 (small_key 5) (SocketAddrV4 a 8080) ''s'' Map.empty"

definition client_nd :: node where
  "client_nd = Node_new 0 (small_key 0) (SocketAddrV4 2130706433 0) ''c'' Map.empty"

definition sample_json :: "node \<Rightarrow> json" where
  "sample_json st =
     \<lparr>js_request = (\<lambda>q. if rq_request_id q = 0 then Some [1] else Some [2]), js_response = (\<lambda>_. Some [3]),
      js_parse_request = (\<lambda>bs. if bs = [1] then Some (ask 0 (GetPort (small_key 4)) client_nd st)
        else Some (ask 1 (GetValue (small_key 4) client_port) client_nd st)),
      js_parse_response = (\<lambda>bs. if bs = [3] then Some (answer 0 (PortOK 9) client_nd st) else None)\<rparr>"

lemma new_not_full: "\<not> full_for (RoutingTable_new now k) n"
  by (simp add: full_for_def RoutingTable_get_bucket_index_def RoutingTable_new_def KBucket_new_def Let_def
      NUM_BUCKETS_def K_def split: sum.split)

lemma example_nodes [simp]:
  "nd_storage (storer_nd a) = ShardStorageManager_new ''s''" "nd_disk (storer_nd a) = Map.empty"
  "nd_routing_table (storer_nd a) = RoutingTable_new 0 (small_key 5)" "nd_key (storer_nd a) = small_key 5"
  "nd_address (storer_nd a) = SocketAddrV4 a 8080" "nd_key client_nd = small_key 0"
  "nd_address client_nd = SocketAddrV4 2130706433 0"
  by (simp_all add: storer_nd_def client_nd_def Node_new_def)

lemma example_keys: "small_key 0 \<noteq> small_key 5"
  by (auto simp: small_key_def dest: arg_cong [where f = last])

lemmas example_storage = new_not_full ShardStorageManager_new_def DataTransfersTable_new_def DataTransfersTable_get_def
  HashMap_new_def HashMap_get_def HashMap_len_def const_defs LOOPBACK_def

lemma new_inv: "nd_inv client_nd" "nd_inv (storer_nd a)"
  by (simp_all add: client_nd_def storer_nd_def nd_inv_new)

lemma sample_json_ok:
  "json_ok (sample_json (storer_nd a)) {ask 0 (GetPort (small_key 4)) client_nd (storer_nd a),
     ask 1 (GetValue (small_key 4) client_port) client_nd (storer_nd a)} {answer 0 (PortOK 9) client_nd (storer_nd a)}"
  using me_wf [OF new_inv(2)]
  by (auto simp: json_ok_def sample_json_def MAX_MESSAGE_SIZE_eq response_wf_def Response_new_def)

theorem chunk_transfer_between_nodes_witness:
  "\<exists>response nd1 l1 l2 l3.
    Node_send_get_port_request (client_env (sample_json (storer_nd 2130706433)) sample_drawing (SocketAddrV4 2130706433 8080)) (small_key 4)
      (Node_to_node_info (storer_nd 2130706433)) (client_nd, link_new (storer_nd 2130706433) 9) = (Some response, nd1, l1) \<and>
    Node_store_chunk (client_env (sample_json (storer_nd 2130706433)) sample_drawing (SocketAddrV4 2130706433 8080)) [response]
      \<lparr>ch_data = [1, 2], ch_hash = small_key 4\<rparr> l1 = (Inr (), l2) \<and>
    Node_download_chunk_from_storer (client_env (sample_json (storer_nd 2130706433)) sample_drawing (SocketAddrV4 2130706433 8080)) (small_key 4)
      (Node_to_node_info (storer_nd 2130706433)) nd1 l2 = (Inr [1, 2], l3)"
proof -
  from chunk_transfer_between_nodes [where l = "link_new (storer_nd 2130706433) 9" and nd = client_nd and h = "small_key 4" and
      st = "storer_nd 2130706433" and port = 9 and js = "sample_json (storer_nd 2130706433)" and data = "[1, 2]" and dr = sample_drawing]
    sample_json_ok [of 2130706433] new_inv show ?thesis
    by (auto simp: example_storage example_keys)
qed

theorem remote_storer_unreachable_witness:
  "\<exists>response nd1 l1.
    Node_send_get_port_request (client_env (sample_json (storer_nd 16909060)) sample_drawing (SocketAddrV4 16909060 8080)) (small_key 4)
      (Node_to_node_info (storer_nd 16909060)) (client_nd, link_new (storer_nd 16909060) 9) = (Some response, nd1, l1) \<and>
    Node_store_chunk (client_env (sample_json (storer_nd 16909060)) sample_drawing (SocketAddrV4 16909060 8080)) [response]
      \<lparr>ch_data = [1, 2], ch_hash = small_key 4\<rparr> l1 = (Inl ChunkNotSent, l1)"
proof -
  have "json_ok (sample_json (storer_nd 16909060)) {ask 0 (GetPort (small_key 4)) client_nd (storer_nd 16909060)}
      {answer 0 (PortOK 9) client_nd (storer_nd 16909060)}"
    using sample_json_ok [of 16909060] unfolding json_ok_def by simp
  from remote_storer_unreachable [where l = "link_new (storer_nd 16909060) 9" and nd = client_nd and h = "small_key 4" and
      st = "storer_nd 16909060" and js = "sample_json (storer_nd 16909060)" and data = "[1, 2]" and dr = sample_drawing]
    this new_inv show ?thesis
    by (simp add: example_storage example_keys)
qed

text \<open>A storer that holds the chunk \<open>small_key 4\<close>.\<close>

definition holding_nd :: node where
  "holding_nd = (storer_nd 2130706433)\<lparr>
     nd_storage := (ShardStorageManager_new ''s'')\<lparr>ss_owned_chunks := HashMap_put (small_key 4) \<lparr>sc_time_stored_at = 7\<rparr> HashMap_new\<rparr>,
     nd_disk := [chunk_path (ShardStorageManager_new ''s'') (small_key 4) \<mapsto> [1, 2]]\<rparr>"

definition store_json :: json where
  "store_json =
     \<lparr>js_request = (\<lambda>q. Some [1]), js_response = (\<lambda>_. Some [3]),
      js_parse_request = (\<lambda>bs. Some (ask 0 (Store (small_key 4)) client_nd holding_nd)),
      js_parse_response = (\<lambda>bs. if bs = [3] then Some (answer 0 StoreChunkUpdated client_nd holding_nd) else None)\<rparr>"

lemma holding_nd_inv: "nd_inv holding_nd" "ShardStorageManager_is_chunk_already_stored (small_key 4) (nd_storage holding_nd)"
proof -
  have "HashMap_len (HashMap_put (small_key 4) v HashMap_new) \<le> 1024" for v :: stored_chunk_info
    by (simp add: HashMap_len_def HashMap_put_def HashMap_new_def)
  then show "nd_inv holding_nd" "ShardStorageManager_is_chunk_already_stored (small_key 4) (nd_storage holding_nd)"
    using new_inv(2) [of 2130706433]
    by (auto simp: holding_nd_def nd_inv_def storage_defs chunk_path_def ShardStorageManager_new_def const_defs)
qed

lemma store_json_ok:
  "json_ok store_json {ask 0 (Store (small_key 4)) client_nd holding_nd}
     {answer 0 (store_reply (small_key 4) holding_nd) client_nd holding_nd}"
  using me_wf [OF holding_nd_inv(1)] holding_nd_inv(2)
  by (auto simp: json_ok_def store_json_def MAX_MESSAGE_SIZE_eq response_wf_def Response_new_def)

theorem store_request_between_nodes_witness:
  "\<exists>nd1 l1. Node_send_initial_store_request (client_env store_json sample_drawing (SocketAddrV4 2130706433 8080)) (small_key 4)
      (Node_to_node_info holding_nd) (client_nd, link_new holding_nd 9) = (None, nd1, l1) \<and>
    map_option sc_time_stored_at (HashMap_get (ss_owned_chunks (nd_storage (lk_storer l1))) (small_key 4)) = Some 0"
proof -
  have "nd_key client_nd \<noteq> nd_key holding_nd" "\<not> full_for (nd_routing_table holding_nd) (Node_to_node_info client_nd)"
      "nd_address holding_nd = SocketAddrV4 2130706433 8080"
    by (simp_all add: holding_nd_def example_keys new_not_full)
  with store_request_between_nodes [where l = "link_new holding_nd 9" and nd = client_nd and h = "small_key 4" and
      st = holding_nd and js = store_json and dr = sample_drawing] store_json_ok new_inv(1) holding_nd_inv
  show ?thesis by auto
qed

end
