(* ===== verification/File_Exchange.thy ===== *)
theory File_Exchange
  imports Two_Nodes
begin

text \<open>
  Whole files between two nodes that know each other: \<open>upload_file\<close> and \<open>download_file\<close> of the client,
  with their lookups, run against the handlers of the storer.
\<close>

section \<open>A lookup with one resolver\<close>

lemma alpha_one [simp]:
  "LookupBuffer_get_alpha_unqueried_nodes (LookupBuffer_new k [s] me) =
     ([s], \<lparr>lb_nodes = [\<lparr>ln_node_info = s, ln_queried = True, ln_responded = False\<rparr>], lb_target = k, lb_this_node = me\<rparr>)"
  by (simp add: LookupBuffer_get_alpha_unqueried_nodes_def LookupBuffer_new_def LookupBuffer_sort_def LookupNodeInfo_new_def
      LookupBuffer_mark_node_as_queried_def ALPHA_def numeral_3_eq_3)

abbreviation one_buffer :: "key \<Rightarrow> node_info \<Rightarrow> node_info \<Rightarrow> bool \<Rightarrow> lookup_buffer" where
  "one_buffer k s me responded \<equiv>
     \<lparr>lb_nodes = [\<lparr>ln_node_info = s, ln_queried = True, ln_responded = responded\<rparr>], lb_target = k, lb_this_node = me\<rparr>"

lemma one_buffer_simps [simp]:
  "LookupBuffer_get_alpha_unqueried_nodes (one_buffer k s me b) = ([], one_buffer k s me b)"
  "LookupBuffer_get_unqueried_resulting_nodes (one_buffer k s me b) = []"
  "LookupBuffer_get_responsive_nodes (one_buffer k s me True) = [s]"
  "LookupBuffer_get_resulting_vector (one_buffer k s me b) = (if b then [s] else [])"
  "LookupBuffer_sort (one_buffer k s me b) = one_buffer k s me b"
  by (simp_all add: LookupBuffer_get_alpha_unqueried_nodes_def LookupBuffer_get_unqueried_resulting_nodes_def
      LookupBuffer_get_responsive_nodes_def LookupBuffer_get_resulting_vector_def LookupBuffer_sort_def
      LookupNodeInfo_has_failed_to_respond_def K_def numeral_eq_Suc)

text \<open>A resolver that offers only the node that asks: one round and the result is the resolver.\<close>

lemma record_one_nodes:
  "LookupBuffer_record_lookup_round_responses [LookupResponse_new_nodes_successful s [me]] False (one_buffer k s me False) =
     (True, one_buffer k s me True)"
  by (simp add: LookupBuffer_record_lookup_round_responses_def LookupResponse_new_nodes_successful_def push_node_def
      LookupBuffer_mark_node_as_responded_def)

lemma record_one_value:
  "LookupBuffer_record_lookup_round_responses [LookupResponse_new_value_successful s] True b = (True, b)"
  by (simp add: LookupBuffer_record_lookup_round_responses_def LookupResponse_new_value_successful_def Let_def)

lemma lookup_one_nodes:
  assumes "Node_single_lookup env k s False nd w = (LookupResponse_new_nodes_successful s [me], nd1, w1)"
  shows "Node_lookup_loop env k False (LookupBuffer_new k [s] me) (nd, w) =
     Some ([LookupResponse_new_nodes_successful s [me]], one_buffer k s me True, nd1, w1)"
    "Node_last_round env k (one_buffer k s me True) (nd1, w1) = (one_buffer k s me True, nd1, w1)"
proof -
  show "Node_last_round env k (one_buffer k s me True) (nd1, w1) = (one_buffer k s me True, nd1, w1)"
    by (simp add: Node_last_round_def Node_lookup_round_def LookupBuffer_record_lookup_round_responses_def)
  show "Node_lookup_loop env k False (LookupBuffer_new k [s] me) (nd, w) =
     Some ([LookupResponse_new_nodes_successful s [me]], one_buffer k s me True, nd1, w1)"
    unfolding Node_lookup_loop_def
    by (subst lookup_rounds.simps, subst lookup_rounds.simps) (simp add: Node_lookup_round_def assms record_one_nodes)
qed

lemma lookup_one_value:
  assumes "Node_single_lookup env k s True nd w = (LookupResponse_new_value_successful s, nd1, w1)"
  shows "\<exists>b. Node_lookup_loop env k True (LookupBuffer_new k [s] me) (nd, w) =
     Some ([LookupResponse_new_value_successful s], b, nd1, w1)"
  unfolding Node_lookup_loop_def
  by (subst lookup_rounds.simps, subst lookup_rounds.simps) (simp add: Node_lookup_round_def assms record_one_value)

lemma lookup_closest_of_one:
  assumes "rt_inv rt" "wf_key k" "k \<noteq> rt_id rt" "RoutingTable_get_all_nodeinfos rt = [n]"
  obtains rt' where "RoutingTable_lookup_get_alpha_closest now rt k = Ret (Inr [n], rt')" "rt_inv rt'" "rt_id rt' = rt_id rt"
    "RoutingTable_get_all_nodeinfos rt' = [n]"
  using rt_invD(1) [OF assms(1)] assms(2)
proof (cases rule: get_bucket_index_cases)
  case (bucket i)
  define rt' where "rt' = rt\<lparr>rt_buckets := (rt_buckets rt)[i := KBucket_set_last_lookup_now now (rt_buckets rt ! i)]\<rparr>"
  have inv: "rt_inv rt'"
    unfolding rt'_def using rt_invD(3-5) [OF assms(1) bucket(3)] assms(1) bucket(3)
    by (intro rt_inv_update) (auto simp: KBucket_set_last_lookup_now_def kb_inv_def)
  have "map KBucket_get_nodeinfos (rt_buckets rt') = map KBucket_get_nodeinfos (rt_buckets rt)"
    using bucket(3) rt_invD(2) [OF assms(1)]
    by (simp add: rt'_def list_eq_iff_nth_eq nth_list_update KBucket_get_nodeinfos_def KBucket_set_last_lookup_now_def)
  then have all: "RoutingTable_get_all_nodeinfos rt' = [n]" using assms(4) by (simp add: RoutingTable_get_all_nodeinfos_def)
  have id: "rt_id rt' = rt_id rt" by (simp add: rt'_def)
  have "RoutingTable_get_n_closest rt' k ALPHA = Ret (Inr [n])"
    by (rule closest_of_one [OF inv assms(2) _ all ALPHA_pos]) (use assms(3) id in simp)
  then have "RoutingTable_lookup_get_alpha_closest now rt k = Ret (Inr [n], rt')"
    using bucket rt_invD(2) [OF assms(1)]
    by (simp add: RoutingTable_lookup_get_alpha_closest_def RoutingTable_lookup_get_n_closest_def Let_def rt'_def [symmetric])
  then show thesis by (rule that [OF _ inv id all])
qed (use assms(3) in simp)

section \<open>Two nodes that know each other\<close>

text \<open>
  The messages of an exchange about the chunks \<open>H\<close> between the client \<open>c\<close> and the storer \<open>s\<close>; a key that
  is the hash of a chunk is not the key of a node.
\<close>

definition talk_requests :: "node_info \<Rightarrow> node_info \<Rightarrow> key set \<Rightarrow> request set" where
  "talk_requests c s H = {\<lparr>rq_request_type = t, rq_sender = c, rq_receiver = s, rq_request_id = i\<rparr> | t i.
     \<exists>h \<in> H. t \<in> {FindNode h, Store h, GetPort h, FindValue h, GetValue h client_port}}"

definition talk_responses :: "node_info \<Rightarrow> node_info \<Rightarrow> key set \<Rightarrow> u16 \<Rightarrow> response set" where
  "talk_responses c s H port = {Response_new t s c i | t i. t \<in> {Nodes [c], StoreOK, PortOK port} \<union> HasValue ` H}"

definition talk :: "json \<Rightarrow> node_info \<Rightarrow> node_info \<Rightarrow> key set \<Rightarrow> u16 \<Rightarrow> bool" where
  "talk js c s H port \<longleftrightarrow> json_ok js (talk_requests c s H) (talk_responses c s H port) \<and>
     (\<forall>h \<in> H. wf_key h \<and> h \<noteq> ni_id c \<and> h \<noteq> ni_id s)"

text \<open>
  The client knows the storer and no other node, the storer at most the client; both are on this
  machine, no transfer is under way and the port for the next one is not in use.
\<close>

definition linked :: "node_info \<Rightarrow> node_info \<Rightarrow> u16 \<Rightarrow> node \<Rightarrow> link \<Rightarrow> bool" where
  "linked c s port nd l \<longleftrightarrow>
     nd_inv nd \<and> Node_to_node_info nd = c \<and> RoutingTable_get_all_nodeinfos (nd_routing_table nd) = [s] \<and>
     nd_inv (lk_storer l) \<and> Node_to_node_info (lk_storer l) = s \<and>
     set (RoutingTable_get_all_nodeinfos (nd_routing_table (lk_storer l))) \<subseteq> {c} \<and>
     ni_id c \<noteq> ni_id s \<and> SocketAddr_ip (ni_address c) = LOOPBACK \<and> SocketAddr_ip (ni_address s) = LOOPBACK \<and>
     lk_tasks l = [] \<and> wi_port (lk_wires l) = port \<and>
     DataTransfersTable_get port (ss_data_transfers_table (nd_storage (lk_storer l))) = None"

text \<open>What a step that only sends requests may change.\<close>

definition quiet :: "node \<Rightarrow> link \<Rightarrow> node \<Rightarrow> link \<Rightarrow> nat \<Rightarrow> bool" where
  "quiet nd l nd1 l1 n \<longleftrightarrow> (\<exists>rt m. nd1 = nd\<lparr>nd_routing_table := rt, nd_request_map := m\<rparr>) \<and>
     (\<exists>rt. lk_storer l1 = (lk_storer l)\<lparr>nd_routing_table := rt\<rparr>) \<and> lk_next_id l1 = lk_next_id l + of_nat n"

lemma quiet_trans: "quiet a l b l1 m \<Longrightarrow> quiet b l1 c l2 n \<Longrightarrow> quiet a l c l2 (m + n)"
  by (auto simp: quiet_def add.assoc) blast+

lemma linkedD:
  assumes "linked c s port nd l"
  shows "nd_inv nd" "Node_to_node_info nd = c" "RoutingTable_get_all_nodeinfos (nd_routing_table nd) = [s]"
    "nd_inv (lk_storer l)" "Node_to_node_info (lk_storer l) = s" "nd_key nd \<noteq> nd_key (lk_storer l)" "nd_key nd = ni_id c"
    "set (RoutingTable_get_all_nodeinfos (nd_routing_table (lk_storer l))) \<subseteq> {c}"
    "\<not> full_for (nd_routing_table (lk_storer l)) c" "nd_address (lk_storer l) = ni_address s" "nd_address nd = ni_address c"
    "SocketAddr_ip (ni_address c) = LOOPBACK" "SocketAddr_ip (ni_address s) = LOOPBACK" "lk_tasks l = []"
    "wi_port (lk_wires l) = port" "DataTransfersTable_get port (ss_data_transfers_table (nd_storage (lk_storer l))) = None"
    "rt_inv (nd_routing_table nd)" "rt_id (nd_routing_table nd) = ni_id c" "nd_key (lk_storer l) = ni_id s" "wf_node s"
proof -
  show "\<not> full_for (nd_routing_table (lk_storer l)) c"
    using assms by (intro empty_not_full) (auto simp: linked_def nd_inv_def me_wf)
  show "wf_node s" using assms me_wf [of "lk_storer l"] by (simp add: linked_def)
qed (use assms in \<open>auto simp: linked_def nd_inv_def\<close>)

text \<open>The client's node and the link after a step that leaves the files alone.\<close>

lemma linked_step:
  assumes "linked c s port nd l" "same_but_map nd nd1" "nd_inv nd1"
    and "lk_storer l1 = (lk_storer l)\<lparr>nd_routing_table := rt\<rparr>" "nd_inv ((lk_storer l)\<lparr>nd_routing_table := rt\<rparr>)"
    and "RoutingTable_get_all_nodeinfos rt = [c]" "lk_tasks l1 = lk_tasks l" "wi_port (lk_wires l1) = wi_port (lk_wires l)"
    and "lk_next_id l1 = lk_next_id l + 1"
  shows "linked c s port nd1 l1" "quiet nd l nd1 l1 1"
proof -
  show "linked c s port nd1 l1"
    using assms same_but_map_simps [OF assms(2)] by (simp add: linked_def)
  obtain m where "nd1 = nd\<lparr>nd_request_map := m\<rparr>" using assms(2) by (auto simp: same_but_map_def)
  then have "nd1 = nd\<lparr>nd_routing_table := nd_routing_table nd, nd_request_map := m\<rparr>" by simp
  then show "quiet nd l nd1 l1 1" using assms(4,9) unfolding quiet_def by (metis of_nat_1)
qed

lemma talk_request:
  assumes "talk js c s H port" "h \<in> H" "t \<in> {FindNode h, Store h, GetPort h, FindValue h, GetValue h client_port}"
    and "Node_to_node_info nd = c" "Node_to_node_info st = s"
  shows "ask i t nd st \<in> talk_requests c s H" "nd_inv nd \<Longrightarrow> request_wf (ask i t nd st)"
  using assms me_wf [of nd] by (auto simp: talk_requests_def talk_def request_wf_def)

lemma talk_response:
  assumes "t \<in> {Nodes [c], StoreOK, PortOK port} \<union> HasValue ` H" "Node_to_node_info nd = c" "Node_to_node_info st = s"
  shows "answer i t nd st \<in> talk_responses c s H port"
  using assms by (auto simp: talk_responses_def)

text \<open>A lookup request that is answered without a change of the storer's files.\<close>

lemma linked_lookup:
  assumes "talk js c s H port" "linked c s port nd l" "h \<in> H" "t \<in> {FindNode h, FindValue h}"
    and "t' \<in> {Nodes [c]} \<union> HasValue ` H"
    and "\<And>rt w i. RoutingTable_get_all_nodeinfos rt = [c] \<Longrightarrow> rt_inv rt \<Longrightarrow> rt_id rt = ni_id s \<Longrightarrow>
      dispatch_request (storer_env (js_response js)) s (ask i t nd (lk_storer l)) ((lk_storer l)\<lparr>nd_routing_table := rt\<rparr>) w =
      Ret ([], (lk_storer l)\<lparr>nd_routing_table := rt\<rparr>,
        snd (MessageDispatcher_send_response (storer_env (js_response js)) (answer i t' nd (lk_storer l)) w))"
  obtains nd1 l1 where
    "Node_send_request_and_wait (client_env js dr (ni_address s)) (ask (lk_next_id l) t nd (lk_storer l)) timeout nd
       (l\<lparr>lk_next_id := lk_next_id l + 1\<rparr>) = (Inr (answer (lk_next_id l) t' nd (lk_storer l)), nd1, l1)"
    "linked c s port nd1 l1" "quiet nd l nd1 l1 1"
proof -
  note ld = linkedD [OF assms(2)]
  let ?st = "lk_storer l" and ?i = "lk_next_id l" and ?l = "l\<lparr>lk_next_id := lk_next_id l + 1\<rparr>" and ?senv = "storer_env (js_response js)"
  let ?q = "ask ?i t nd ?st" and ?env = "client_env js dr (ni_address s)"
  have js: "json_ok js (talk_requests c s H) (talk_responses c s H port)" using assms(1) by (simp add: talk_def)
  have q: "?q \<in> talk_requests c s H" "request_wf ?q"
    using talk_request [OF assms(1,3) _ ld(2,5), of t] assms(4) ld(1) by blast+
  obtain rt n where rt: "nd_inv (?st\<lparr>nd_routing_table := rt\<rparr>)" "RoutingTable_get_all_nodeinfos rt = [c]"
    and send: "MessageDispatcher_send_request ?env ?q ?l = (Inr n,
       case dispatch_request ?senv s ?q (?st\<lparr>nd_routing_table := rt\<rparr>) (fresh_wires (lk_wires ?l)) of
         Ret (tasks, nd', w') \<Rightarrow> ?l\<lparr>lk_storer := nd', lk_wires := w', lk_tasks := lk_tasks ?l @ tasks\<rparr>
       | _ \<Rightarrow> ?l)"
    by (rule storer_receives [where l = ?l and dr = dr, OF js q ld(4,6)])
      (simp add: ld(2,9), simp, (rule that; use ld(2,5,8,10) in simp))
  obtain rb k where rb: "js_parse_response js rb = Some (answer ?i t' nd ?st)"
    "MessageDispatcher_send_response ?senv (answer ?i t' nd ?st) (fresh_wires (lk_wires l)) =
       (Inr k, (fresh_wires (lk_wires l))\<lparr>wi_datagrams := [(rb, nd_address nd)]\<rparr>)"
    by (rule storer_responds [OF js talk_response [OF _ ld(2,5), of t'], where w = "fresh_wires (lk_wires l)" and rid = ?i])
      (use assms(5) in blast, simp, (rule that; assumption))
  let ?l1 = "?l\<lparr>lk_storer := ?st\<lparr>nd_routing_table := rt\<rparr>,
    lk_wires := (fresh_wires (lk_wires l))\<lparr>wi_datagrams := [(rb, nd_address nd)]\<rparr>\<rparr>"
  have "rt_inv rt" "rt_id rt = ni_id s" using rt(1) ld(19) by (auto simp: nd_inv_def)
  then have sent: "MessageDispatcher_send_request ?env ?q ?l = (Inr n, ?l1)"
    using send assms(6) [OF rt(2)] rb(2) by simp
  obtain nd1 where nd1: "Node_send_request_and_wait ?env ?q timeout nd ?l = (Inr (answer ?i t' nd ?st), nd1, ?l1)"
      "same_but_map nd nd1" "nd_inv nd1"
    by (rule client_awaits [OF js ld(1) sent _ rb(1)]) auto
  show thesis
    by (rule that [OF nd1(1)]; rule linked_step [OF assms(2) nd1(2,3), where rt = rt]) (use rt in simp_all)
qed

text \<open>The two lookups.\<close>

lemma linked_find_node_request:
  assumes "talk js c s H port" "linked c s port nd l" "h \<in> H"
  obtains nd1 l1 where
    "Node_single_lookup (client_env js dr (ni_address s)) h s False nd l = (LookupResponse_new_nodes_successful s [c], nd1, l1)"
    "linked c s port nd1 l1" "quiet nd l nd1 l1 1"
proof -
  note ld = linkedD [OF assms(2)]
  have h: "wf_key h" "h \<noteq> ni_id s" using assms(1,3) by (auto simp: talk_def)
  have d: "dispatch_request (storer_env (js_response js)) s (ask i (FindNode h) nd (lk_storer l)) ((lk_storer l)\<lparr>nd_routing_table := rt\<rparr>) w =
      Ret ([], (lk_storer l)\<lparr>nd_routing_table := rt\<rparr>,
        snd (MessageDispatcher_send_response (storer_env (js_response js)) (answer i (Nodes [c]) nd (lk_storer l)) w))"
    if "RoutingTable_get_all_nodeinfos rt = [c]" "rt_inv rt" "rt_id rt = ni_id s" for rt w i
    using closest_of_one [OF that(2) h(1) _ that(1), of K] h(2) that(3) ld(2,5)
    by (simp add: dispatch_request_def handle_find_node_message_def RoutingTable_get_k_closest_def ResponseType_new_nodes_def K_def)
  obtain nd1 l1 where
    "Node_send_request_and_wait (client_env js dr (ni_address s)) (ask (lk_next_id l) (FindNode h) nd (lk_storer l)) LOOKUP_TIMEOUT_MILLISECONDS nd
       (l\<lparr>lk_next_id := lk_next_id l + 1\<rparr>) = (Inr (answer (lk_next_id l) (Nodes [c]) nd (lk_storer l)), nd1, l1)"
    "linked c s port nd1 l1" "quiet nd l nd1 l1 1"
    by (rule linked_lookup [where dr = dr and t = "FindNode h" and t' = "Nodes [c]", OF assms _ _ d]) auto
  then show thesis
    using ld(5) by (intro that) (simp_all add: Node_single_lookup_def Request_new_def, simp add: Response_new_def)
qed

lemma linked_find_value_request:
  assumes "talk js c s H port" "linked c s port nd l" "h \<in> H"
    and "ShardStorageManager_is_chunk_already_stored h (nd_storage (lk_storer l))"
  obtains nd1 l1 where
    "Node_single_lookup (client_env js dr (ni_address s)) h s True nd l = (LookupResponse_new_value_successful s, nd1, l1)"
    "linked c s port nd1 l1" "quiet nd l nd1 l1 1"
proof -
  note ld = linkedD [OF assms(2)]
  have d: "dispatch_request (storer_env (js_response js)) s (ask i (FindValue h) nd (lk_storer l)) ((lk_storer l)\<lparr>nd_routing_table := rt\<rparr>) w =
      Ret ([], (lk_storer l)\<lparr>nd_routing_table := rt\<rparr>,
        snd (MessageDispatcher_send_response (storer_env (js_response js)) (answer i (HasValue h) nd (lk_storer l)) w))" for rt w i
    using assms(4) ld(5) by (simp add: dispatch_request_def handle_find_value_message_def)
  obtain nd1 l1 where
    "Node_send_request_and_wait (client_env js dr (ni_address s)) (ask (lk_next_id l) (FindValue h) nd (lk_storer l)) LOOKUP_TIMEOUT_MILLISECONDS nd
       (l\<lparr>lk_next_id := lk_next_id l + 1\<rparr>) = (Inr (answer (lk_next_id l) (HasValue h) nd (lk_storer l)), nd1, l1)"
    "linked c s port nd1 l1" "quiet nd l nd1 l1 1"
    by (rule linked_lookup [where dr = dr and t = "FindValue h" and t' = "HasValue h", OF assms(1-3) _ _ d]) (use assms(3) in auto)
  then show thesis
    using ld(5) by (intro that) (simp_all add: Node_single_lookup_def Request_new_def, simp add: Response_new_def)
qed

section \<open>Lookups between the two\<close>

lemma linked_table:
  assumes "linked c s port nd l" "rt_inv rt" "rt_id rt = ni_id c" "RoutingTable_get_all_nodeinfos rt = [s]"
  shows "linked c s port (nd\<lparr>nd_routing_table := rt\<rparr>) l" "quiet nd l (nd\<lparr>nd_routing_table := rt\<rparr>) l 0"
proof -
  show "linked c s port (nd\<lparr>nd_routing_table := rt\<rparr>) l"
    using assms by (auto simp: linked_def nd_inv_def)
  show "quiet nd l (nd\<lparr>nd_routing_table := rt\<rparr>) l 0"
    unfolding quiet_def
    by (intro conjI exI [of _ rt] exI [of _ "nd_request_map nd"] exI [of _ "nd_routing_table (lk_storer l)"]) simp_all
qed

lemma linked_find_node:
  assumes "talk js c s H port" "linked c s port nd l" "h \<in> H"
  obtains nd' l' where "Node_find_node (client_env js dr (ni_address s)) h nd l = Ret (Inr [s], nd', l')"
    "linked c s port nd' l'" "quiet nd l nd' l' 1"
proof -
  note ld = linkedD [OF assms(2)]
  let ?env = "client_env js dr (ni_address s)"
  have h: "wf_key h" "h \<noteq> ni_id c" using assms(1,3) by (auto simp: talk_def)
  obtain rt where rt: "RoutingTable_lookup_get_alpha_closest 0 (nd_routing_table nd) h = Ret (Inr [s], rt)" "rt_inv rt"
      "rt_id rt = ni_id c" "RoutingTable_get_all_nodeinfos rt = [s]"
    using lookup_closest_of_one [OF ld(17) h(1) _ ld(3)] h(2) ld(18) by metis
  note start = linked_table [OF assms(2) rt(2-4)]
  obtain nd1 l1 where look: "Node_single_lookup ?env h s False (nd\<lparr>nd_routing_table := rt\<rparr>) l =
      (LookupResponse_new_nodes_successful s [c], nd1, l1)" "linked c s port nd1 l1" "quiet (nd\<lparr>nd_routing_table := rt\<rparr>) l nd1 l1 1"
    using linked_find_node_request [OF assms(1) start(1) assms(3)] .
  note ld1 = linkedD [OF look(2)]
  obtain rt' where rt': "Node_store_nodeinfo ?env s nd1 l1 = Ret (Inr (), nd1\<lparr>nd_routing_table := rt'\<rparr>, l1)"
      "nd_inv (nd1\<lparr>nd_routing_table := rt'\<rparr>)" "RoutingTable_get_all_nodeinfos rt' = [s]"
    by (rule store_only_contact [where n = s and env = ?env and w = l1, OF ld1(1,20)]) (use ld1(3,6,7,19) in auto)
  have "rt_inv rt'" "rt_id rt' = ni_id c" using rt'(2) ld1(7) by (auto simp: nd_inv_def)
  note last = linked_table [OF look(2) this rt'(3)]
  have "Node_find_node ?env h nd l = Ret (Inr [s], nd1\<lparr>nd_routing_table := rt'\<rparr>, l1)"
    using lookup_one_nodes [OF look(1)] rt(1) rt'(1) ld(2)
    by (simp add: Node_find_node_def Let_def)
  moreover have "quiet nd l (nd1\<lparr>nd_routing_table := rt'\<rparr>) l1 1"
    using quiet_trans [OF quiet_trans [OF start(2) look(3)] last(2)] by simp
  ultimately show thesis using that last(1) by blast
qed

lemma linked_find_storer:
  assumes "talk js c s H port" "linked c s port nd l" "h \<in> H"
    and "ShardStorageManager_is_chunk_already_stored h (nd_storage (lk_storer l))"
    and "nd_disk nd (chunk_path (nd_storage nd) h) = None"
  obtains nd' l' where "Node_find_storer (client_env js dr (ni_address s)) h nd l = Ret (Inr s, nd', l')"
    "linked c s port nd' l'" "quiet nd l nd' l' 1"
proof -
  note ld = linkedD [OF assms(2)]
  let ?env = "client_env js dr (ni_address s)"
  have h: "wf_key h" "h \<noteq> ni_id c" using assms(1,3) by (auto simp: talk_def)
  have closest: "RoutingTable_get_alpha_closest (nd_routing_table nd) h = Ret (Inr [s])"
    unfolding RoutingTable_get_alpha_closest_def
    by (rule closest_of_one [OF ld(17) h(1) _ ld(3) ALPHA_pos]) (use h(2) ld(18) in simp)
  obtain nd1 l1 where look: "Node_single_lookup ?env h s True nd l = (LookupResponse_new_value_successful s, nd1, l1)"
      "linked c s port nd1 l1" "quiet nd l nd1 l1 1"
    using linked_find_value_request [OF assms(1-4)] .
  obtain b where "Node_lookup_loop ?env h True (LookupBuffer_new h [s] c) (nd, l) =
      Some ([LookupResponse_new_value_successful s], b, nd1, l1)"
    using lookup_one_value [OF look(1)] by blast
  then have "Node_find_storer ?env h nd l = Ret (Inr s, nd1, l1)"
    using closest ld(2) assms(5)
    by (simp add: Node_find_storer_def ShardStorageManager_read_chunk_def is_value_response_def LookupResponse_new_value_successful_def)
  then show thesis using that look(2,3) by blast
qed

section \<open>Uploading\<close>

text \<open>Room for chunks at a storer: it may own as many more, and there is no file of their names.\<close>

definition room_for :: "key list \<Rightarrow> node \<Rightarrow> bool" where
  "room_for hs st \<longleftrightarrow> HashMap_len (ss_owned_chunks (nd_storage st)) + length hs \<le> MAX_SHARDS_STORED \<and>
     (\<forall>h \<in> set hs. nd_disk st (chunk_path (nd_storage st) h) = None)"

lemma room_for_quiet: "quiet nd l nd1 l1 n \<Longrightarrow> room_for hs (lk_storer l1) = room_for hs (lk_storer l)"
  by (auto simp: quiet_def room_for_def)

lemma quiet_contents:
  assumes "quiet nd l nd1 l1 n"
  shows "nd_storage (lk_storer l1) = nd_storage (lk_storer l)" "nd_disk (lk_storer l1) = nd_disk (lk_storer l)"
    "nd_storage nd1 = nd_storage nd" "nd_disk nd1 = nd_disk nd" "nd_file_manager nd1 = nd_file_manager nd"
    "lk_next_id l1 = lk_next_id l + of_nat n"
  using assms by (auto simp: quiet_def)

lemma room_not_stored:
  assumes "nd_inv st" "room_for (h # hs) st"
  shows "\<not> ShardStorageManager_is_chunk_already_stored h (nd_storage st)"
proof
  assume "ShardStorageManager_is_chunk_already_stored h (nd_storage st)"
  then have "HashMap_get (ss_owned_chunks (nd_storage st)) h \<noteq> None"
    by (simp add: ShardStorageManager_is_chunk_already_stored_def HashMap_contains_key_def)
  moreover have "ss_inv (nd_storage st, nd_disk st)" using assms(1) by (simp add: nd_inv_def)
  ultimately show False using ss_inv_owned(2) assms(2) by (fastforce simp: room_for_def)
qed

text \<open>The lookup and the announcement of one chunk.\<close>

lemma linked_resolve:
  assumes "talk js c s H port" "linked c s port nd l" "h \<in> H" "room_for (h # hs) (lk_storer l)"
  obtains r nd' l' where "Node_resolve_alpha_closest_nodes_to_key (client_env js dr (ni_address s)) h nd l = Ret (Inr [r], nd', l')"
    "rs_sender r = s" "linked c s port nd' l'" "quiet nd l nd' l' 2"
proof -
  let ?env = "client_env js dr (ni_address s)"
  have js: "json_ok js (talk_requests c s H) (talk_responses c s H port)" and h: "wf_key h"
    using assms(1,3) by (auto simp: talk_def)
  obtain nd1 l1 where find: "Node_find_node ?env h nd l = Ret (Inr [s], nd1, l1)" "linked c s port nd1 l1" "quiet nd l nd1 l1 1"
    using linked_find_node [OF assms(1-3)] .
  note ld = linkedD [OF find(2)]
  let ?st = "lk_storer l1" and ?r = "answer (lk_next_id l1) StoreOK nd1 (lk_storer l1)"
  have new: "\<not> ShardStorageManager_is_chunk_already_stored h (nd_storage ?st)"
    by (rule room_not_stored [OF ld(4)]) (use assms(4) room_for_quiet [OF find(3)] in simp)
  have q: "ask (lk_next_id l1) (Store h) nd1 ?st \<in> talk_requests c s H"
    by (rule talk_request(1) [OF assms(1,3) _ ld(2,5)]) simp
  have a: "answer (lk_next_id l1) (store_reply h ?st) nd1 ?st \<in> talk_responses c s H port"
    by (rule talk_response [OF _ ld(2,5)]) (simp add: new)
  obtain rt nd2 l2 where ann: "Node_send_initial_store_request ?env h s (nd1, l1) = (Some ?r, nd2, l2)"
    and nd2: "same_but_map nd1 nd2" "nd_inv nd2"
    and l2: "lk_storer l2 = ?st\<lparr>nd_routing_table := rt\<rparr>" "nd_inv (?st\<lparr>nd_routing_table := rt\<rparr>)" "RoutingTable_get_all_nodeinfos rt = [c]"
      "lk_tasks l2 = lk_tasks l1" "wi_port (lk_wires l2) = wi_port (lk_wires l1)" "lk_next_id l2 = lk_next_id l1 + 1"
    by (rule client_announces [where dr = dr and l = l1, OF js q a ld(1,4,6) h])
      (simp add: ld(2,9), simp, (rule that; use ld(2,5,8,10) new in simp))
  note step = linked_step [OF find(2) nd2 l2]
  have "Node_resolve_alpha_closest_nodes_to_key ?env h nd l = Ret (Inr [?r], nd2, l2)"
    using find(1) ann by (simp add: Node_resolve_alpha_closest_nodes_to_key_def ALPHA_def)
  moreover have "rs_sender ?r = s" using ld(5) by (simp add: Response_new_def)
  moreover have "quiet nd l nd2 l2 2" using quiet_trans [OF find(3) step(2)] by (simp add: numeral_2_eq_2)
  ultimately show thesis using that step(1) by blast
qed

text \<open>What the storer's files are after it got a chunk.\<close>

definition received :: "chunk \<Rightarrow> node \<Rightarrow> node \<Rightarrow> bool" where
  "received ck st st' \<longleftrightarrow> nd_contents st' = (nd_contents st)(ch_hash ck \<mapsto> ch_data ck) \<and>
     nd_disk st' = (nd_disk st)(chunk_path (nd_storage st) (ch_hash ck) \<mapsto> ch_data ck) \<and>
     ss_storage_root_path (nd_storage st') = ss_storage_root_path (nd_storage st) \<and>
     HashMap_len (ss_owned_chunks (nd_storage st')) = Suc (HashMap_len (ss_owned_chunks (nd_storage st)))"

lemma received_room:
  assumes "received ck st st'" "room_for (ch_hash ck # hs) st" "ch_hash ck \<notin> set hs" "wf_key (ch_hash ck)" "\<forall>h \<in> set hs. wf_key h"
  shows "room_for hs st'"
proof -
  have path: "chunk_path (nd_storage st') h = chunk_path (nd_storage st) h" for h
    using assms(1) by (simp add: received_def chunk_path_def)
  have "chunk_path (nd_storage st) h \<noteq> chunk_path (nd_storage st) (ch_hash ck)" if "h \<in> set hs" for h
    using chunk_path_inj [of h "ch_hash ck"] that assms(3-5) by auto
  then show ?thesis using assms(1,2) unfolding room_for_def path by (auto simp: received_def)
qed

text \<open>The port and the transfer.\<close>

lemma linked_send_chunk:
  assumes "talk js c s H port" "linked c s port nd l" "ch_hash ck \<in> H" "room_for (ch_hash ck # hs) (lk_storer l)"
    and "rs_sender r = s" "length (ch_data ck) \<le> ENCRYPTED_CHUNK_SIZE_B"
  obtains ports nd1 l1 l2 where
    "Node_get_ports_for_nodes (client_env js dr (ni_address s)) [r] (ch_hash ck) (nd, l) = (Inr ports, nd1, l1)"
    "Node_store_chunk (client_env js dr (ni_address s)) ports ck l1 = (Inr (), l2)"
    "linked c s port nd1 l2" "same_but_map nd nd1" "received ck (lk_storer l) (lk_storer l2)" "lk_next_id l2 = lk_next_id l + 1"
proof -
  note ld = linkedD [OF assms(2)]
  let ?h = "ch_hash ck" and ?st = "lk_storer l" and ?env = "client_env js dr (ni_address s)"
  let ?r = "answer (lk_next_id l) (PortOK port) nd ?st"
  have js: "json_ok js (talk_requests c s H) (talk_responses c s H port)" and h: "wf_key ?h"
    using assms(1,3) by (auto simp: talk_def)
  have q: "ask (lk_next_id l) (GetPort ?h) nd ?st \<in> talk_requests c s H"
    by (rule talk_request(1) [OF assms(1,3) _ ld(2,5)]) simp
  have a: "answer (lk_next_id l) (PortOK (wi_port (lk_wires l))) nd ?st \<in> talk_responses c s H port"
    by (rule talk_response [OF _ ld(2,5)]) (simp add: ld(15))
  obtain rt nd1 l1 where rt: "nd_inv (?st\<lparr>nd_routing_table := rt\<rparr>)" "RoutingTable_get_all_nodeinfos rt = [c]"
    and nd1: "same_but_map nd nd1" "nd_inv nd1"
    and get: "Node_send_get_port_request ?env ?h s (nd, l) = (Some ?r, nd1, l1)"
    and l1: "lk_storer l1 = announced port nd ?h (?st\<lparr>nd_routing_table := rt\<rparr>)" "lk_tasks l1 = [listening port]"
      "wi_bound (lk_wires l1) = LOCALHOST" "wi_port (lk_wires l1) = port" "lk_next_id l1 = lk_next_id l + 1"
    by (rule client_gets_port [where dr = dr and l = l, OF js q a ld(1,4,6) h])
      (simp add: ld(2,9), simp, simp add: ld(15,16), (rule that; use ld(2,5,8,10,14,15) in simp))
  have ports: "Node_get_ports_for_nodes ?env [r] ?h (nd, l) = (Inr [?r], nd1, l1)"
    using get assms(5) by (simp add: Node_get_ports_for_nodes_def ALPHA_def)
  have room: "HashMap_len (ss_owned_chunks (nd_storage (?st\<lparr>nd_routing_table := rt\<rparr>))) < MAX_SHARDS_STORED"
    "nd_disk (?st\<lparr>nd_routing_table := rt\<rparr>) (chunk_path (nd_storage (?st\<lparr>nd_routing_table := rt\<rparr>)) ?h) = None"
    using assms(4) by (simp_all add: room_for_def)
  obtain st2 where run: "run_spawned (storer_env (js_response js)) (listening port) (announced port nd ?h (?st\<lparr>nd_routing_table := rt\<rparr>))
        ((lk_wires l1)\<lparr>wi_incoming := ch_data ck\<rparr>) = (st2, (lk_wires l1)\<lparr>wi_incoming := ch_data ck\<rparr>)"
    and st2: "nd_inv st2" "nd_contents st2 = (nd_contents (?st\<lparr>nd_routing_table := rt\<rparr>))(?h \<mapsto> ch_data ck)"
      "nd_disk st2 = (nd_disk (?st\<lparr>nd_routing_table := rt\<rparr>))(chunk_path (nd_storage (?st\<lparr>nd_routing_table := rt\<rparr>)) ?h \<mapsto> ch_data ck)"
      "ss_storage_root_path (nd_storage st2) = ss_storage_root_path (nd_storage (?st\<lparr>nd_routing_table := rt\<rparr>))"
      "DataTransfersTable_get port (ss_data_transfers_table (nd_storage st2)) = None"
      "HashMap_len (ss_owned_chunks (nd_storage st2)) =
         Suc (HashMap_len (ss_owned_chunks (nd_storage (?st\<lparr>nd_routing_table := rt\<rparr>))))"
      "nd_routing_table st2 = nd_routing_table (?st\<lparr>nd_routing_table := rt\<rparr>)" "nd_key st2 = nd_key (?st\<lparr>nd_routing_table := rt\<rparr>)"
      "nd_address st2 = nd_address (?st\<lparr>nd_routing_table := rt\<rparr>)"
    using storer_takes [OF rt(1) h assms(6) room, where port = port and nd = nd and w = "lk_wires l1" and jr = "js_response js"] .
  have rec: "received ck ?st st2" using st2(2-4,6) by (simp add: received_def)
  let ?l2 = "l1\<lparr>lk_storer := st2, lk_wires := (lk_wires l1)\<lparr>wi_incoming := ch_data ck\<rparr>, lk_tasks := []\<rparr>"
  have store: "Node_store_chunk ?env [?r] ck l1 = (Inr (), ?l2)"
    by (rule client_sends [where a = "ni_address s", OF l1(2)])
      (use ld(5,13) l1(1,3) run in \<open>simp_all add: reaches_def Response_new_def\<close>)
  have "Node_to_node_info st2 = s" using st2(8,9) ld(5) by (simp add: Node_to_node_info_def)
  then have "linked c s port nd1 ?l2"
    using ld(2,3,6,7,12,13,19) same_but_map_simps [OF nd1(1)] nd1(2) st2(1,5,7) rt(2) l1(4) by (simp add: linked_def)
  then show thesis using that [OF ports store] nd1(1) rec l1(5) by simp
qed

text \<open>What a step may change of the client: its contacts and its pending requests.\<close>

definition kept :: "node \<Rightarrow> node \<Rightarrow> bool" where
  "kept nd nd1 \<longleftrightarrow> (\<exists>rt m. nd1 = nd\<lparr>nd_routing_table := rt, nd_request_map := m\<rparr>)"

lemma kept_trans: "kept a b \<Longrightarrow> kept b c \<Longrightarrow> kept a c"
  by (auto simp: kept_def) blast

lemma kept_steps: "quiet nd l nd1 l1 n \<Longrightarrow> kept nd nd1" "same_but_map nd nd1 \<Longrightarrow> kept nd nd1" "kept nd nd"
proof -
  show "kept nd nd" unfolding kept_def by (intro exI [of _ "nd_routing_table nd"] exI [of _ "nd_request_map nd"]) simp
  assume "same_but_map nd nd1"
  then obtain m where "nd1 = nd\<lparr>nd_request_map := m\<rparr>" by (auto simp: same_but_map_def)
  then show "kept nd nd1" unfolding kept_def by (intro exI [of _ "nd_routing_table nd"] exI [of _ m]) simp
qed (auto simp: quiet_def kept_def)

lemma kept_simps:
  assumes "kept nd nd1"
  shows "nd_storage nd1 = nd_storage nd" "nd_disk nd1 = nd_disk nd" "nd_file_manager nd1 = nd_file_manager nd"
  using assms by (auto simp: kept_def)

text \<open>One chunk of the loop of \<open>upload_file\<close>.\<close>

lemma linked_upload_chunk:
  assumes "talk js c s H port" "linked c s port nd l" "ch_hash ck \<in> H" "room_for (ch_hash ck # hs) (lk_storer l)"
    and "length (ch_data ck) \<le> ENCRYPTED_CHUNK_SIZE_B"
    and "FileUploader_get_next_chunk_encrypt (dr_aead dr) (dr_digest dr) (dr_inputs dr (lk_next_id l)) u = Ret (Inr (Some ck), u1)"
  obtains nd1 l1 where
    "upload_chunks (client_env js dr (ni_address s)) u nd l = upload_chunks (client_env js dr (ni_address s)) u1 nd1 l1"
    "linked c s port nd1 l1" "kept nd nd1" "received ck (lk_storer l) (lk_storer l1)" "lk_next_id l1 = lk_next_id l + 3"
proof -
  let ?env = "client_env js dr (ni_address s)"
  obtain r nd1 l1 where res: "Node_resolve_alpha_closest_nodes_to_key ?env (ch_hash ck) nd l = Ret (Inr [r], nd1, l1)"
      "rs_sender r = s" "linked c s port nd1 l1" "quiet nd l nd1 l1 2"
    using linked_resolve [OF assms(1-4)] .
  have room: "room_for (ch_hash ck # hs) (lk_storer l1)" using assms(4) room_for_quiet [OF res(4)] by simp
  obtain ports nd2 l2 l3 where send: "Node_get_ports_for_nodes ?env [r] (ch_hash ck) (nd1, l1) = (Inr ports, nd2, l2)"
    "Node_store_chunk ?env ports ck l2 = (Inr (), l3)" "linked c s port nd2 l3" "same_but_map nd1 nd2"
    "received ck (lk_storer l1) (lk_storer l3)" "lk_next_id l3 = lk_next_id l1 + 1"
    using linked_send_chunk [OF assms(1) res(3) assms(3) room res(2) assms(5)] .
  have "upload_chunks ?env u nd l = upload_chunks ?env u1 nd2 l3"
    using assms(6) res(1) send(1,2) by (simp add: upload_chunks.simps [of ?env u])
  moreover have "received ck (lk_storer l) (lk_storer l3)"
    using send(5) unfolding received_def quiet_contents(1,2) [OF res(4)] .
  moreover have "kept nd nd2" by (rule kept_trans [OF kept_steps(1) [OF res(4)] kept_steps(2) [OF send(4)]])
  moreover have "lk_next_id l3 = lk_next_id l + 3" using send(6) quiet_contents(6) [OF res(4)] by simp
  ultimately show thesis using that send(3) by blast
qed

text \<open>
  The whole loop: the storer holds every chunk that cutting the file gives. A chunk takes three
  requests, so the outside input of the \<open>i\<close>-th chunk is the one at request \<open>3 * i\<close>.
\<close>

definition file_inputs :: "drawing \<Rightarrow> nat \<Rightarrow> chunk_input" where
  "file_inputs dr i = dr_inputs dr (of_nat (3 * i))"

lemma linked_upload_chunks:
  assumes "talk js c s H port" "shard_file (dr_aead dr) (dr_digest dr) (file_inputs dr) i u = Ret (Inr cs, u')"
    and "linked c s port nd l" "ch_hash ` set cs \<subseteq> H" "distinct (map ch_hash cs)" "room_for (map ch_hash cs) (lk_storer l)"
    and "\<forall>ck \<in> set cs. length (ch_data ck) \<le> ENCRYPTED_CHUNK_SIZE_B" "lk_next_id l = of_nat (3 * i)"
  shows "\<exists>nd' l'. upload_chunks (client_env js dr (ni_address s)) u nd l = Ret (Inr (), u', nd', l') \<and>
    linked c s port nd' l' \<and> kept nd nd' \<and>
    nd_contents (lk_storer l') = nd_contents (lk_storer l) ++ map_of (map (\<lambda>ck. (ch_hash ck, ch_data ck)) cs)"
  using assms(2-)
proof (induction cs arbitrary: i u nd l)
  case Nil
  from Nil.prems(1) have "FileUploader_get_next_chunk_encrypt (dr_aead dr) (dr_digest dr) (file_inputs dr i) u = Ret (Inr None, u')"
    by (cases rule: shard_file_RetE) auto
  then show ?case using Nil.prems kept_steps(3) by (simp add: upload_chunks.simps [of _ u] file_inputs_def)
next
  case (Cons ck cs)
  let ?env = "client_env js dr (ni_address s)"
  from Cons.prems(1) obtain u1 where u1: "FileUploader_get_next_chunk_encrypt (dr_aead dr) (dr_digest dr) (file_inputs dr i) u = Ret (Inr (Some ck), u1)"
      "shard_file (dr_aead dr) (dr_digest dr) (file_inputs dr) (Suc i) u1 = Ret (Inr cs, u')"
    by (cases rule: shard_file_RetE) auto
  have room: "room_for (ch_hash ck # map ch_hash cs) (lk_storer l)" and h: "ch_hash ck \<in> H" using Cons.prems(3,5) by auto
  obtain nd1 l1 where step: "upload_chunks ?env u nd l = upload_chunks ?env u1 nd1 l1"
    "linked c s port nd1 l1" "kept nd nd1" "received ck (lk_storer l) (lk_storer l1)" "lk_next_id l1 = lk_next_id l + 3"
    by (rule linked_upload_chunk [where dr = dr and u = u, OF assms(1) Cons.prems(2) h room])
      (use Cons.prems(6,7) u1(1) in \<open>auto simp: file_inputs_def\<close>)
  have "room_for (map ch_hash cs) (lk_storer l1)"
    by (rule received_room [OF step(4) room]) (use Cons.prems(3,4) assms(1) in \<open>auto simp: talk_def\<close>)
  moreover have "lk_next_id l1 = of_nat (3 * Suc i)" using step(5) Cons.prems(7) by simp
  ultimately have "\<exists>nd' l'. upload_chunks ?env u1 nd1 l1 = Ret (Inr (), u', nd', l') \<and> linked c s port nd' l' \<and> kept nd1 nd' \<and>
      nd_contents (lk_storer l') = nd_contents (lk_storer l1) ++ map_of (map (\<lambda>ck. (ch_hash ck, ch_data ck)) cs)"
    using Cons.prems(3,4,6) by (intro Cons.IH [OF u1(2) step(2)]) auto
  then obtain nd' l' where IH: "upload_chunks ?env u1 nd1 l1 = Ret (Inr (), u', nd', l')" "linked c s port nd' l'" "kept nd1 nd'"
      "nd_contents (lk_storer l') = nd_contents (lk_storer l1) ++ map_of (map (\<lambda>ck. (ch_hash ck, ch_data ck)) cs)"
    by blast
  have all: "nd_contents (lk_storer l1) ++ map_of (map (\<lambda>ck. (ch_hash ck, ch_data ck)) cs) =
      nd_contents (lk_storer l) ++ map_of (map (\<lambda>ck. (ch_hash ck, ch_data ck)) (ck # cs))"
    using conjunct1 [OF step(4) [unfolded received_def]] Cons.prems(4)
    by (simp only: list.map map_of.simps fst_conv snd_conv map_add_upd) (simp add: map_add_upd_left dom_map_of_conv_image_fst image_image)
  show ?case unfolding step(1) using IH(1,2) IH(4) [unfolded all] kept_trans [OF step(3) IH(3)] by blast
qed

section \<open>Downloading\<close>

lemma first_error_Inr: "first_error (map (\<lambda>k. Inr (f k)) ks) = Inr (map f ks)"
  by (induction ks) auto

text \<open>The searches of \<open>find_storers_parallel\<close> all find the storer.\<close>

definition held_by :: "key set \<Rightarrow> node \<Rightarrow> link \<Rightarrow> bool" where
  "held_by hs nd l \<longleftrightarrow> (\<forall>h \<in> hs. ShardStorageManager_is_chunk_already_stored h (nd_storage (lk_storer l)) \<and>
     nd_disk nd (chunk_path (nd_storage nd) h) = None)"

lemma held_by_quiet: "quiet nd l nd1 l1 n \<Longrightarrow> held_by hs nd1 l1 = held_by hs nd l"
  by (auto simp: held_by_def quiet_contents)

lemma linked_find_batch:
  assumes "talk js c s H port" "linked c s port nd l" "set ks \<subseteq> H" "held_by (set ks) nd l"
  shows "\<exists>nd' l'. find_storers_batch (client_env js dr (ni_address s)) ks nd l = Ret (map (\<lambda>k. Inr (k, s)) ks, nd', l') \<and>
    linked c s port nd' l' \<and> quiet nd l nd' l' (length ks)"
  using assms(2-)
proof (induction ks arbitrary: nd l)
  case Nil
  have "nd = nd\<lparr>nd_routing_table := nd_routing_table nd\<rparr>" by simp
  with linked_table(2) [OF Nil.prems(1), of "nd_routing_table nd"] linkedD(3,17,18) [OF Nil.prems(1)] Nil.prems(1)
  show ?case by simp
next
  case (Cons k ks)
  let ?env = "client_env js dr (ni_address s)"
  obtain nd1 l1 where one: "Node_find_storer ?env k nd l = Ret (Inr s, nd1, l1)" "linked c s port nd1 l1" "quiet nd l nd1 l1 1"
    by (rule linked_find_storer [where h = k and dr = dr, OF assms(1) Cons.prems(1)])
      (use Cons.prems(2,3) in \<open>auto simp: held_by_def\<close>)
  have "held_by (set ks) nd1 l1" using Cons.prems(3) held_by_quiet [OF one(3)] by (simp add: held_by_def)
  then obtain nd2 l2 where "find_storers_batch ?env ks nd1 l1 = Ret (map (\<lambda>k. Inr (k, s)) ks, nd2, l2)"
      "linked c s port nd2 l2" "quiet nd1 l1 nd2 l2 (length ks)"
    using Cons.IH [OF one(2)] Cons.prems(2) by auto
  with one(1) quiet_trans [OF one(3)] show ?case by (intro exI [of _ nd2] exI [of _ l2]) fastforce
qed

lemma linked_find_storers:
  assumes "talk js c s H port" "linked c s port nd l" "set ks \<subseteq> H" "held_by (set ks) nd l"
  shows "\<exists>nd' l'. Node_find_storers_parallel (client_env js dr (ni_address s)) ks nd l = Ret (Inr (map (\<lambda>k. (k, s)) ks), nd', l') \<and>
    linked c s port nd' l' \<and> quiet nd l nd' l' (length ks)"
  using assms(2-)
proof (induction ks arbitrary: nd l rule: length_induct)
  case (1 ks)
  let ?env = "client_env js dr (ni_address s)"
  have sub: "set (take ALPHA ks) \<subseteq> set ks" "set (drop ALPHA ks) \<subseteq> set ks" by (rule set_take_subset, rule set_drop_subset)
  then have held: "held_by (set (take ALPHA ks)) nd l" "held_by (set (drop ALPHA ks)) nd l"
    using "1.prems"(3) by (auto simp: held_by_def)
  obtain nd1 l1 where b: "find_storers_batch ?env (take ALPHA ks) nd l = Ret (map (\<lambda>k. Inr (k, s)) (take ALPHA ks), nd1, l1)"
      "linked c s port nd1 l1" "quiet nd l nd1 l1 (length (take ALPHA ks))"
    using linked_find_batch [OF assms(1) "1.prems"(1) _ held(1)] sub(1) "1.prems"(2) by blast
  show ?case
  proof (cases "ks = []")
    case True
    then show ?thesis using b by (simp add: Node_find_storers_parallel.simps [of ?env "[]"])
  next
    case False
    then have "length (drop ALPHA ks) < length ks" by (simp add: ALPHA_def)
    moreover have "held_by (set (drop ALPHA ks)) nd1 l1" using held(2) held_by_quiet [OF b(3)] by simp
    ultimately obtain nd2 l2 where
      rest: "Node_find_storers_parallel ?env (drop ALPHA ks) nd1 l1 = Ret (Inr (map (\<lambda>k. (k, s)) (drop ALPHA ks)), nd2, l2)"
      "linked c s port nd2 l2" "quiet nd1 l1 nd2 l2 (length (drop ALPHA ks))"
      using "1.IH" b(2) sub(2) "1.prems"(2) by blast
    have "length (take ALPHA ks) + length (drop ALPHA ks) = length ks" by simp
    then have "quiet nd l nd2 l2 (length ks)" using quiet_trans [OF b(3) rest(3)] by simp
    moreover have "Node_find_storers_parallel ?env ks nd l = Ret (Inr (map (\<lambda>k. (k, s)) ks), nd2, l2)"
      using False by (simp add: Node_find_storers_parallel.simps [of ?env ks] b(1) rest(1) first_error_Inr)
        (metis append_take_drop_id map_append)
    ultimately show ?thesis using rest(2) by blast
  qed
qed

text \<open>The transfers: what the downloader gets are the chunks the storer holds.\<close>

lemma linked_fetch:
  assumes "talk js c s H port" "linked c s port nd l" "h \<in> H" "nd_contents (lk_storer l) h = Some data"
  obtains l' where "Node_download_chunk_from_storer (client_env js dr (ni_address s)) h s nd l = (Inr data, l')"
    "linked c s port nd l'" "nd_contents (lk_storer l') = nd_contents (lk_storer l)"
proof -
  note ld = linkedD [OF assms(2)]
  have js: "json_ok js (talk_requests c s H) (talk_responses c s H port)" and h: "wf_key h"
    using assms(1,3) by (auto simp: talk_def)
  have q: "ask (lk_next_id l) (GetValue h client_port) nd (lk_storer l) \<in> talk_requests c s H"
    by (rule talk_request(1) [OF assms(1,3) _ ld(2,5)]) simp
  have full: "\<not> full_for (nd_routing_table (lk_storer l)) (Node_to_node_info nd)" "SocketAddr_ip (nd_address nd) = LOOPBACK"
    by (simp_all add: ld(2,9,11,12))
  obtain rt l' where "Node_download_chunk_from_storer (client_env js dr (nd_address (lk_storer l))) h (Node_to_node_info (lk_storer l)) nd l =
      (Inr data, l')"
    "nd_inv ((lk_storer l)\<lparr>nd_routing_table := rt\<rparr>)"
    "set (RoutingTable_get_all_nodeinfos (nd_routing_table (lk_storer l))) \<subseteq> {Node_to_node_info nd} \<longrightarrow>
       RoutingTable_get_all_nodeinfos rt = [Node_to_node_info nd]"
    "lk_storer l' = (lk_storer l)\<lparr>nd_routing_table := rt\<rparr>" "lk_tasks l' = lk_tasks l" "wi_port (lk_wires l') = wi_port (lk_wires l)"
    using client_fetches [where dr = dr, OF js q ld(1,4,6) h full refl assms(4)] .
  with assms(2) show thesis by (intro that [of l']) (simp_all add: linked_def ld(2,5,8,10))
qed

lemma linked_download_chunks:
  assumes "talk js c s H port" "linked c s port nd l" "ch_hash ` set cs \<subseteq> H"
    and "\<forall>ck \<in> set cs. nd_contents (lk_storer l) (ch_hash ck) = Some (ch_data ck)"
    and "store_chunks (dr_aead dr) cs f = Ret (Inr (), f')"
  shows "\<exists>l'. download_chunks (client_env js dr (ni_address s)) (map (\<lambda>ck. (ch_hash ck, s)) cs) f nd l = Ret (Inr (), f', l')"
  using assms(2-)
proof (induction cs arbitrary: l f)
  case (Cons ck cs)
  obtain l1 where one: "Node_download_chunk_from_storer (client_env js dr (ni_address s)) (ch_hash ck) s nd l = (Inr (ch_data ck), l1)"
    "linked c s port nd l1" "nd_contents (lk_storer l1) = nd_contents (lk_storer l)"
    by (rule linked_fetch [where dr = dr, OF assms(1) Cons.prems(1)]) (use Cons.prems(2,3) in auto)
  obtain r f1 where r: "FileDownloader_store_next_chunk_decrypt (dr_aead dr) WriteOk True ck f = Ret (r, f1)"
      "(case r of Inl e \<Rightarrow> Ret (Inl e, f1) | Inr _ \<Rightarrow> store_chunks (dr_aead dr) cs f1) = Ret (Inr (), f')"
    using Cons.prems(4) by (auto simp: bind_run_Ret_iff)
  then have f1: "FileDownloader_store_next_chunk_decrypt (dr_aead dr) WriteOk True ck f = Ret (Inr (), f1)"
    "store_chunks (dr_aead dr) cs f1 = Ret (Inr (), f')"
    by (cases r; simp)+
  have "\<exists>l'. download_chunks (client_env js dr (ni_address s)) (map (\<lambda>ck. (ch_hash ck, s)) cs) f1 nd l1 = Ret (Inr (), f', l')"
    by (rule Cons.IH [OF one(2)]) (use Cons.prems(2,3) one(3) f1(2) in auto)
  then show ?case using one(1) f1(1) by (cases ck) simp
qed simp

section \<open>Properties\<close>

lemma linked_files:
  assumes "linked c s port nd l"
  shows "linked c s port (nd\<lparr>nd_file_manager := fm\<rparr>) l" "linked c s port (nd\<lparr>nd_disk := (nd_disk nd)(p \<mapsto> [])\<rparr>) l"
proof -
  have "ss_inv (nd_storage nd, (nd_disk nd)(p \<mapsto> []))" using linkedD(1) [OF assms]
    by (fastforce simp: nd_inv_def ss_inv_def)
  then show "linked c s port (nd\<lparr>nd_disk := (nd_disk nd)(p \<mapsto> [])\<rparr>) l"
    using assms by (simp add: linked_def nd_inv_def Node_to_node_info_def)
qed (use assms in \<open>simp add: linked_def nd_inv_def Node_to_node_info_def\<close>)

lemma new_uploader:
  assumes "FileUploader_new True key path d = Ret (Inr u, d)" "d path = Some content"
  obtains name where "Path_file_name path = Some name" "length content \<le> MAX_FILE_SIZE_MB * 1024 * 1024"
    "u = \<lparr>fu_remaining = content, fu_file_metadata = \<lparr>fm_name = name, fm_encryption_key = key, fm_chunks_metadata = []\<rparr>,
       fu_encryption_key = key\<rparr>"
  using assms by (auto simp: FileUploader_new_def FileUploader_new_with_max_file_size_def split: if_split_asm option.split_asm)

text \<open>The upload, with what the storer holds afterwards.\<close>

lemma linked_upload_file:
  assumes "talk js c s (ch_hash ` set cs) port" "linked c s port nd l" "lk_next_id l = 0" "nd_disk nd path = Some content"
    and "FileUploader_new True (dr_key dr) path (nd_disk nd) = Ret (Inr u, nd_disk nd)"
    and "shard_file (dr_aead dr) (dr_digest dr) (file_inputs dr) 0 u = Ret (Inr cs, u')"
    and "distinct (map ch_hash cs)" "room_for (map ch_hash cs) (lk_storer l)"
    and "aead_spec (dr_aead dr)" "\<forall>j. length (ci_nonce (file_inputs dr j)) = AES_GCM_NONCE_SIZE_B"
  obtains md ps nd1 l1 where "Node_upload_file (client_env js dr (ni_address s)) path nd l = Ret (Inr md, nd1, l1)"
    "Path_file_name path = Some (fm_name md)" "fm_encryption_key md = dr_key dr" "concat ps = content"
    "chunks_of (dr_aead dr) (dr_key dr) ps cs (fm_chunks_metadata md)" "linked c s port nd1 l1"
    "nd_storage nd1 = nd_storage nd" "nd_disk nd1 = nd_disk nd"
    "\<forall>ck \<in> set cs. nd_contents (lk_storer l1) (ch_hash ck) = Some (ch_data ck)"
proof -
  let ?env = "client_env js dr (ni_address s)"
  obtain name where name: "Path_file_name path = Some name" "length content \<le> MAX_FILE_SIZE_MB * 1024 * 1024"
      "u = \<lparr>fu_remaining = content, fu_file_metadata = \<lparr>fm_name = name, fm_encryption_key = dr_key dr, fm_chunks_metadata = []\<rparr>,
        fu_encryption_key = dr_key dr\<rparr>"
    using new_uploader [OF assms(5,4)] .
  obtain ps ms where ch: "chunks_of (dr_aead dr) (dr_key dr) ps cs ms" "concat ps = content" "fu_remaining u' = []"
      "fu_file_metadata u' = \<lparr>fm_name = name, fm_encryption_key = dr_key dr, fm_chunks_metadata = ms\<rparr>"
    using shard_file_chunks [OF assms(6,10)] by (auto simp: name(3))
  have sizes: "\<forall>ck \<in> set cs. length (ch_data ck) \<le> ENCRYPTED_CHUNK_SIZE_B"
    using chunks_of_sizes [OF assms(9) ch(1)] by simp
  obtain nd1 l1 where up: "upload_chunks ?env u nd l = Ret (Inr (), u', nd1, l1)" "linked c s port nd1 l1" "kept nd nd1"
      "nd_contents (lk_storer l1) = nd_contents (lk_storer l) ++ map_of (map (\<lambda>ck. (ch_hash ck, ch_data ck)) cs)"
    using linked_upload_chunks [OF assms(1,6,2) subset_refl assms(7,8) sizes] assms(3) by auto
  let ?md = "\<lparr>fm_name = name, fm_encryption_key = dr_key dr, fm_chunks_metadata = ms\<rparr>"
  let ?nd = "nd1\<lparr>nd_file_manager := FileManager_add_file_uploaded_entry 0 path (nd_file_manager nd1)\<rparr>"
  have upf: "Node_upload_file ?env path nd l = Ret (Inr ?md, ?nd, l1)"
    using upload_file_started [where env = ?env and w = l, OF assms(4) name(2,1)] up(1) ch(3,4)
    by (simp add: name(3) FileUploader_get_metadata_def)
  have "map_of (map (\<lambda>ck. (ch_hash ck, ch_data ck)) cs) (ch_hash ck) = Some (ch_data ck)" if "ck \<in> set cs" for ck
    using that assms(7) by (intro map_of_is_SomeI) (auto simp: comp_def)
  then have "\<forall>ck \<in> set cs. nd_contents (lk_storer l1) (ch_hash ck) = Some (ch_data ck)"
    unfolding up(4) by (simp add: map_add_def)
  then show thesis
    using that [OF upf _ _ ch(2) _ linked_files(1) [OF up(2)]] name(1) ch(1) kept_simps [OF up(3)] by simp
qed

text \<open>Claim C1. A file uploaded by one node can be downloaded again: when the client knows the storer, both are
  on one machine, the chunks of the file have different hashes and the storer has room for them, \<open>upload_file\<close>
  succeeds and leaves every chunk with the storer; \<open>download_file\<close> with the metadata it returned then succeeds and
  the file it writes has exactly the contents of the one uploaded, whatever its length, the reads and the padding.\<close>

theorem file_exchange_roundtrip:
  assumes "talk js c s (ch_hash ` set cs) port" "linked c s port nd l" "lk_next_id l = 0" "nd_disk nd path = Some content"
    and "FileUploader_new True (dr_key dr) path (nd_disk nd) = Ret (Inr u, nd_disk nd)"
    and "shard_file (dr_aead dr) (dr_digest dr) (file_inputs dr) 0 u = Ret (Inr cs, u')"
    and "distinct (map ch_hash cs)" "room_for (map ch_hash cs) (lk_storer l)"
    and "aead_spec (dr_aead dr)" "\<forall>j. length (ci_nonce (file_inputs dr j)) = AES_GCM_NONCE_SIZE_B"
    and "length (dr_key dr) = AES_KEY_SIZE_B" "\<forall>ck \<in> set cs. nd_disk nd (chunk_path (nd_storage nd) (ch_hash ck)) = None"
  shows "\<exists>md nd1 l1 nd2 l2. Node_upload_file (client_env js dr (ni_address s)) path nd l = Ret (Inr md, nd1, l1) \<and>
    Path_file_name path = Some (fm_name md) \<and>
    (\<forall>ck \<in> set cs. nd_contents (lk_storer l1) (ch_hash ck) = Some (ch_data ck)) \<and>
    Node_download_file (client_env js dr (ni_address s)) md out nd1 l1 = Ret (Inr (Path_join out (fm_name md)), nd2, l2) \<and>
    nd_disk nd2 (Path_join out (fm_name md)) = Some content"
proof -
  let ?env = "client_env js dr (ni_address s)"
  obtain md ps nd1 l1 where up: "Node_upload_file ?env path nd l = Ret (Inr md, nd1, l1)" "Path_file_name path = Some (fm_name md)"
    and md: "fm_encryption_key md = dr_key dr" "concat ps = content" "chunks_of (dr_aead dr) (dr_key dr) ps cs (fm_chunks_metadata md)"
    and nd1: "linked c s port nd1 l1" "nd_storage nd1 = nd_storage nd" "nd_disk nd1 = nd_disk nd"
      "\<forall>ck \<in> set cs. nd_contents (lk_storer l1) (ch_hash ck) = Some (ch_data ck)"
    using linked_upload_file [OF assms(1-10)] .
  have "held_by (ch_hash ` set cs) nd1 l1"
    using assms(12) nd1(2-4) by (auto simp: held_by_def ss_contents_def ShardStorageManager_is_chunk_already_stored_def
        HashMap_contains_key_def split: if_split_asm)
  then obtain nd2 l2 where find: "Node_find_storers_parallel ?env (map ch_hash cs) nd1 l1 = Ret (Inr (map (\<lambda>k. (k, s)) (map ch_hash cs)), nd2, l2)"
      "linked c s port nd2 l2" "quiet nd1 l1 nd2 l2 (length cs)"
    using linked_find_storers [where ks = "map ch_hash cs" and dr = dr, OF assms(1) nd1(1)] by auto
  let ?p = "Path_join out (fm_name md)" and ?nd2 = "nd2\<lparr>nd_disk := (nd_disk nd2)(Path_join out (fm_name md) \<mapsto> [])\<rparr>"
  obtain f f' where f: "FileDownloader_new True md out (nd_disk nd2) = (Inr f, (nd_disk nd2)(?p \<mapsto> []))"
      "store_chunks (dr_aead dr) cs f = Ret (Inr (), f')" "FileDownloader_get_output_file_path f' = ?p"
      "fd_content f' = concat ps" "concat ps \<noteq> [] \<longrightarrow> fd_flushed f' = concat ps"
    using downloads_back [OF assms(9), where md = md and d = "nd_disk nd2" and out = out] md assms(11) by metis
  have "\<forall>ck \<in> set cs. nd_contents (lk_storer l2) (ch_hash ck) = Some (ch_data ck)"
    using nd1(4) quiet_contents(1,2) [OF find(3)] by simp
  then obtain l3 where dl: "download_chunks ?env (map (\<lambda>ck. (ch_hash ck, s)) cs) f ?nd2 l2 = Ret (Inr (), f', l3)"
    using linked_download_chunks [OF assms(1) linked_files(2) [OF find(2)] subset_refl _ f(2)] by blast
  have flushed: "fd_flushed f' = content"
  proof (cases "content = []")
    case True
    then have "cs = []" using md(2,3) by (cases cs) (auto elim: chunks_of_ConsE simp: chunk_of_def)
    then show ?thesis using f(1,2) True by (auto simp: FileDownloader_new_def Let_def)
  qed (use f(5) md(2) in simp)
  have keys: "map cm_hash (fm_chunks_metadata md) = map ch_hash cs" by (rule chunks_of_hashes [OF md(3)])
  have "Node_download_file ?env md out nd1 l1 = Ret (Inr ?p, ?nd2\<lparr>nd_disk := (nd_disk ?nd2)(?p \<mapsto> content)\<rparr>, l3)"
    using f(3) find(1) dl flushed
    by (simp add: Node_download_file_def keys f(1) FileDownloader_get_output_file_path_def comp_def)
  then show ?thesis using up nd1(4)
    by (intro exI [of _ md] exI [of _ nd1] exI [of _ l1] exI [of _ "?nd2\<lparr>nd_disk := (nd_disk ?nd2)(?p \<mapsto> content)\<rparr>"] exI [of _ l3]) simp
qed

section \<open>Example\<close>

text \<open>
  A codec for the messages of one exchange: a tag, the bits of the request id, and the key of the
  message when it has one; the nodes are fixed.
\<close>

definition id_bits :: "request_id \<Rightarrow> bytes" where
  "id_bits i = map (\<lambda>n. if bit i n then 1 else 0) [0..<128]"

definition bits_id :: "bytes \<Rightarrow> request_id" where
  "bits_id bs = horner_sum of_bool 2 (map (\<lambda>b. b = 1) bs)"

lemma id_bits_simps [simp]: "length (id_bits i) = 128" "bits_id (id_bits i) = i"
proof -
  show "length (id_bits i) = 128" by (simp add: id_bits_def)
  have "(\<lambda>b. b = 1) \<circ> (\<lambda>n. if bit i n then 1 else 0 :: u8) = bit i" by (auto simp: fun_eq_iff)
  then have "bits_id (id_bits i) = horner_sum of_bool 2 (map (bit i) [0..<128])"
    unfolding bits_id_def id_bits_def map_map by simp
  then show "bits_id (id_bits i) = i" by (simp add: horner_sum_bit_eq_take_bit take_bit_word_eq_self)
qed

definition pair_request :: "request \<Rightarrow> bytes option" where
  "pair_request q =
     (case rq_request_type q of
        FindNode k \<Rightarrow> Some (1 # id_bits (rq_request_id q) @ key_value k)
      | Store k \<Rightarrow> Some (2 # id_bits (rq_request_id q) @ key_value k)
      | GetPort k \<Rightarrow> Some (3 # id_bits (rq_request_id q) @ key_value k)
      | FindValue k \<Rightarrow> Some (4 # id_bits (rq_request_id q) @ key_value k)
      | GetValue k p \<Rightarrow> Some (5 # id_bits (rq_request_id q) @ key_value k)
      | Ping \<Rightarrow> None)"

definition pair_parse_request :: "bytes \<Rightarrow> request option" where
  "pair_parse_request bs =
     (let k = Key (drop 129 bs); t = hd bs;
          ty = (if t = 1 then FindNode k else if t = 2 then Store k else if t = 3 then GetPort k
            else if t = 4 then FindValue k else GetValue k client_port)
      in Some \<lparr>rq_request_type = ty, rq_sender = contact 0, rq_receiver = contact 5, rq_request_id = bits_id (take 128 (tl bs))\<rparr>)"

definition pair_response :: "response \<Rightarrow> bytes option" where
  "pair_response r =
     (case rs_response_type r of
        Nodes ns \<Rightarrow> Some (101 # id_bits (rs_request_id r))
      | StoreOK \<Rightarrow> Some (102 # id_bits (rs_request_id r))
      | PortOK p \<Rightarrow> Some (103 # id_bits (rs_request_id r))
      | HasValue k \<Rightarrow> Some (104 # id_bits (rs_request_id r) @ key_value k)
      | _ \<Rightarrow> None)"

definition pair_parse_response :: "bytes \<Rightarrow> response option" where
  "pair_parse_response bs =
     (let t = hd bs; mk = (\<lambda>ty. Some (Response_new ty (contact 5) (contact 0) (bits_id (take 128 (tl bs)))))
      in if t = 101 then mk (Nodes [contact 0]) else if t = 102 then mk StoreOK else if t = 103 then mk (PortOK 9)
         else if t = 104 then mk (HasValue (Key (drop 129 bs))) else None)"

definition pair_json :: json where
  "pair_json = \<lparr>js_request = pair_request, js_response = pair_response,
     js_parse_request = pair_parse_request, js_parse_response = pair_parse_response\<rparr>"

definition pair_drawing :: drawing where
  "pair_drawing = \<lparr>dr_inputs = (\<lambda>_. sample_inputs 0), dr_key = replicate 32 0, dr_aead = sample_aead,
     dr_digest = (\<lambda>bs. replicate 19 0 @ [hd bs + 6])\<rparr>"

definition pair_client :: node where
  "pair_client = serving_nd\<lparr>nd_disk := [''a'' \<mapsto> [1, 2, 3]]\<rparr>"

definition pair_storer :: node where
  "pair_storer = Node_new 0 (small_key 5) (ni_address (contact 5)) ''s'' Map.empty"

lemma pair_json_ok:
  assumes "\<forall>h \<in> H. wf_key h"
  shows "json_ok pair_json (talk_requests (contact 0) (contact 5) H) (talk_responses (contact 0) (contact 5) H 9)"
proof -
  have len: "length (key_value h) = 20" if "h \<in> H" for h using assms that by (auto simp: wf_key_def K_def)
  have "\<exists>bs. pair_request q = Some bs \<and> length bs \<le> 1168 \<and> pair_parse_response bs = None \<and> pair_parse_request bs = Some q"
    if "q \<in> talk_requests (contact 0) (contact 5) H" for q
    using that len by (auto simp: talk_requests_def pair_request_def pair_parse_response_def pair_parse_request_def Let_def)
  moreover have "\<exists>bs. pair_response r = Some bs \<and> length bs \<le> 1168 \<and> pair_parse_response bs = Some r"
    if "r \<in> talk_responses (contact 0) (contact 5) H 9" for r
    using that len by (auto simp: talk_responses_def pair_response_def pair_parse_response_def Let_def Response_new_def)
  moreover have "response_wf r" if "pair_parse_response bs = Some r" for bs r
    using that by (auto simp: pair_parse_response_def Let_def Response_new_def response_wf_def split: if_split_asm)
  ultimately show ?thesis by (auto simp: json_ok_def pair_json_def MAX_MESSAGE_SIZE_eq)
qed

lemma pair_linked: "linked (contact 0) (contact 5) 9 pair_client (link_new pair_storer 9)"
proof -
  have "nd_inv pair_client" using serving_nd_inv
    by (simp add: pair_client_def nd_inv_def serving_nd_def small_nd_def Node_new_def ss_inv_def ShardStorageManager_new_def HashMap_new_def HashMap_get_def)
  moreover have "nd_inv pair_storer" by (simp add: pair_storer_def nd_inv_new)
  moreover have "Node_to_node_info pair_client = contact 0" "Node_to_node_info pair_storer = contact 5"
    using serving_nd_simps(2) by (simp_all add: pair_client_def pair_storer_def Node_to_node_info_def Node_new_def NodeInfo_new_def contact_def)
  moreover have "RoutingTable_get_all_nodeinfos (nd_routing_table pair_client) = [contact 5]"
    by (simp add: pair_client_def RoutingTable_get_all_nodeinfos_def small_rt_def KBucket_get_nodeinfos_def KBucket_new_def)
  moreover have "RoutingTable_get_all_nodeinfos (nd_routing_table pair_storer) = []"
    by (simp add: pair_storer_def Node_new_def RoutingTable_get_all_nodeinfos_def RoutingTable_new_def KBucket_get_nodeinfos_def KBucket_new_def)
  ultimately show ?thesis
    by (simp add: linked_def) (simp add: contact_def LOOPBACK_def pair_storer_def Node_new_def example_storage)
qed

text \<open>The file of three bytes is cut into two chunks, with the hashes 7 and 9.\<close>

lemma pair_chunk:
  assumes "length (fu_encryption_key u) = 32"
  shows "fu_remaining u = b # r \<Longrightarrow> \<exists>e m. FileUploader_get_next_chunk_encrypt sample_aead (dr_digest pair_drawing) (sample_inputs 0) u =
      Ret (Inr (Some \<lparr>ch_data = e, ch_hash = small_key (b + 6)\<rparr>), next_metadata u (min 2 (Suc (length r))) m)"
    "fu_remaining u = [] \<Longrightarrow>
      FileUploader_get_next_chunk_encrypt sample_aead (dr_digest pair_drawing) (sample_inputs 0) u = Ret (Inr None, u)"
proof -
  have r: "ci_read (sample_inputs 0) = Some 2" by (simp add: sample_inputs_def)
  show "fu_remaining u = [] \<Longrightarrow>
      FileUploader_get_next_chunk_encrypt sample_aead (dr_digest pair_drawing) (sample_inputs 0) u = Ret (Inr None, u)"
    using get_next_chunk_eq [OF r refl] by simp
  assume u: "fu_remaining u = b # r"
  then have n: "min 2 (Suc (length r)) = file_read padded_size 2 (fu_remaining u)"
    by (simp add: file_read_def CHUNK_DATA_SIZE_KB_def)
  have h: "Key_from_input (dr_digest pair_drawing) (b # bs) = small_key (b + 6)" for bs
    by (simp add: Key_from_input_def small_key_def K_def pair_drawing_def)
  obtain e where e: "ae_encrypt sample_aead k (ci_nonce (sample_inputs 0)) p = Some (e p)" for k p
    by (simp add: sample_aead_def)
  show "\<exists>e m. FileUploader_get_next_chunk_encrypt sample_aead (dr_digest pair_drawing) (sample_inputs 0) u =
      Ret (Inr (Some \<lparr>ch_data = e, ch_hash = small_key (b + 6)\<rparr>), next_metadata u (min 2 (Suc (length r))) m)"
    using get_next_chunk_eq [where ae = sample_aead and digest = "dr_digest pair_drawing", OF r n] assms u
    by (auto simp: h e Let_def AES_KEY_SIZE_B_def)
qed

lemma pair_shard:
  assumes "length (fu_encryption_key u) = 32" "fu_remaining u = [1, 2, 3]"
  shows "\<exists>e e' u'. shard_file sample_aead (dr_digest pair_drawing) (file_inputs pair_drawing) 0 u =
    Ret (Inr [\<lparr>ch_data = e, ch_hash = small_key 7\<rparr>, \<lparr>ch_data = e', ch_hash = small_key 9\<rparr>], u')"
proof -
  have inp: "file_inputs pair_drawing i = sample_inputs 0" for i by (simp add: file_inputs_def pair_drawing_def)
  obtain e m where one: "FileUploader_get_next_chunk_encrypt sample_aead (dr_digest pair_drawing) (sample_inputs 0) u =
      Ret (Inr (Some \<lparr>ch_data = e, ch_hash = small_key 7\<rparr>), next_metadata u 2 m)"
    using pair_chunk(1) [OF assms] by (auto simp: numeral_2_eq_2)
  let ?u1 = "next_metadata u 2 m"
  have u1: "length (fu_encryption_key ?u1) = 32" "fu_remaining ?u1 = [3]" using assms by (simp_all add: next_metadata_def)
  obtain e' m' where two: "FileUploader_get_next_chunk_encrypt sample_aead (dr_digest pair_drawing) (sample_inputs 0) ?u1 =
      Ret (Inr (Some \<lparr>ch_data = e', ch_hash = small_key 9\<rparr>), next_metadata ?u1 1 m')"
    using pair_chunk(1) [OF u1] by auto
  let ?u2 = "next_metadata ?u1 1 m'"
  have "FileUploader_get_next_chunk_encrypt sample_aead (dr_digest pair_drawing) (sample_inputs 0) ?u2 = Ret (Inr None, ?u2)"
    using u1 by (intro pair_chunk(2)) (simp_all add: next_metadata_def)
  then have "shard_file sample_aead (dr_digest pair_drawing) (file_inputs pair_drawing) 2 ?u2 = Ret (Inr [], ?u2)"
    by (simp add: shard_file.simps [of _ _ _ 2] inp)
  moreover have "Suc 1 = 2" by simp
  ultimately have "shard_file sample_aead (dr_digest pair_drawing) (file_inputs pair_drawing) 1 ?u1 =
      Ret (Inr [\<lparr>ch_data = e', ch_hash = small_key 9\<rparr>], ?u2)"
    using two by (simp add: shard_file.simps [of _ _ _ 1] inp del: One_nat_def)
  then show ?thesis using one by (simp add: shard_file.simps [of _ _ _ 0] inp One_nat_def [symmetric] del: One_nat_def)
qed

theorem file_exchange_roundtrip_witness:
  "\<exists>md nd1 l1 nd2 l2. Node_upload_file (client_env pair_json pair_drawing (ni_address (contact 5))) ''a'' pair_client (link_new pair_storer 9) =
       Ret (Inr md, nd1, l1) \<and>
     Node_download_file (client_env pair_json pair_drawing (ni_address (contact 5))) md ''o'' nd1 l1 = Ret (Inr ''o/a'', nd2, l2) \<and>
     nd_disk nd2 ''o/a'' = Some [1, 2, 3]"
proof -
  let ?u = "\<lparr>fu_remaining = [1, 2, 3], fu_file_metadata = \<lparr>fm_name = ''a'', fm_encryption_key = replicate 32 0,
      fm_chunks_metadata = []\<rparr>, fu_encryption_key = replicate 32 0\<rparr>"
  have dr: "dr_aead pair_drawing = sample_aead" "dr_key pair_drawing = replicate 32 0" by (simp_all add: pair_drawing_def)
  have disk: "nd_disk pair_client = [''a'' \<mapsto> [1, 2, 3]]" "nd_storage pair_client = ShardStorageManager_new ''store''"
    by (simp_all add: pair_client_def serving_nd_def small_nd_def Node_new_def)
  have new: "FileUploader_new True (dr_key pair_drawing) ''a'' (nd_disk pair_client) = Ret (Inr ?u, nd_disk pair_client)"
    by (simp add: disk dr FileUploader_new_def FileUploader_new_with_max_file_size_def MAX_FILE_SIZE_MB_def Path_file_name_def Let_def)
  obtain e e' u' where sh: "shard_file (dr_aead pair_drawing) (dr_digest pair_drawing) (file_inputs pair_drawing) 0 ?u =
      Ret (Inr [\<lparr>ch_data = e, ch_hash = small_key 7\<rparr>, \<lparr>ch_data = e', ch_hash = small_key 9\<rparr>], u')"
    using pair_shard [of ?u] unfolding dr by auto
  let ?cs = "[\<lparr>ch_data = e, ch_hash = small_key 7\<rparr>, \<lparr>ch_data = e', ch_hash = small_key 9\<rparr>]"
  have talk: "talk pair_json (contact 0) (contact 5) (ch_hash ` set ?cs) 9"
    unfolding talk_def by (intro conjI pair_json_ok) simp_all
  have room: "room_for (map ch_hash ?cs) (lk_storer (link_new pair_storer 9))"
    by (simp add: room_for_def pair_storer_def Node_new_def example_storage)
  have inputs: "\<forall>j. length (ci_nonce (file_inputs pair_drawing j)) = AES_GCM_NONCE_SIZE_B"
    by (simp add: file_inputs_def pair_drawing_def sample_inputs_def AES_GCM_NONCE_SIZE_B_def)
  have free: "\<forall>ck \<in> set ?cs. nd_disk pair_client (chunk_path (nd_storage pair_client) (ch_hash ck)) = None"
    by (auto simp: disk chunk_path_def ShardStorageManager_new_def Path_join_def)
  have "Path_file_name ''a'' = Some ''a''" "Path_join ''o'' ''a'' = ''o/a''"
    by (simp_all add: Path_file_name_def Path_join_def Let_def)
  with file_exchange_roundtrip [where out = "''o''" and content = "[1, 2, 3]",
      OF talk pair_linked _ _ new sh _ room _ inputs _ free] sample_aead_spec
  show ?thesis by (fastforce simp: disk dr AES_KEY_SIZE_B_def)
qed

end
