(* ===== verification/Message_Text.thy ===== *)
theory Message_Text
  imports Messages Sharding
begin

text \<open>
  The \<open>Display\<close> texts of \<open>networking/messages.rs\<close>, which are the log lines of sent and received
  messages, and of the contacts of \<open>networking/node_info.rs\<close>. The text of an identifier is the \<open>uuid\<close> crate's and is a parameter: 36 characters
  that determine the identifier.
\<close>

section \<open>Numbers\<close>

text \<open>The format \<open>{}\<close> of an unsigned number.\<close>

fun fmt_dec :: "nat \<Rightarrow> string" where
  "fmt_dec n = (if n < 10 then [hex_digit n] else fmt_dec (n div 10) @ [hex_digit (n mod 10)])"

declare fmt_dec.simps [simp del]

fun dec_value :: "string \<Rightarrow> nat \<Rightarrow> nat" where
  "dec_value [] a = a"
| "dec_value (c # cs) a = dec_value cs (10 * a + (case hex_value c of Some v \<Rightarrow> unat v | None \<Rightarrow> 0))"

lemma dec_value_append [simp]: "dec_value (s @ t) a = dec_value t (dec_value s a)"
  by (induction s arbitrary: a) simp_all

lemma dec_value_fmt_dec: "dec_value (fmt_dec n) 0 = n"
proof (induction n rule: fmt_dec.induct)
  case (1 n)
  have digit: "unat (of_nat k :: u8) = k" if "k < 10" for k :: nat
    using that by (simp add: unat_of_nat take_bit_eq_mod)
  show ?case
  proof (cases "n < 10")
    case True
    then show ?thesis by (simp add: fmt_dec.simps [of n] hex_value_digit digit)
  next
    case False
    then have "hex_value (hex_digit (n mod 10)) = Some (of_nat (n mod 10))" by (intro hex_value_digit) simp
    with False 1 show ?thesis by (simp add: fmt_dec.simps [of n] digit)
  qed
qed

lemma fmt_dec_inj [simp]: "fmt_dec m = fmt_dec n \<longleftrightarrow> m = n"
  by (metis dec_value_fmt_dec)

section \<open>Texts\<close>

fun RequestType_display :: "request_type \<Rightarrow> string" where
  "RequestType_display Ping = ''Ping''"
| "RequestType_display (FindNode node_id) = ''FindNode('' @ Key_display node_id @ '')''"
| "RequestType_display (FindValue chunk_id) = ''FindValue('' @ Key_display chunk_id @ '')''"
| "RequestType_display (Store chunk_id) = ''Store('' @ Key_display chunk_id @ '')''"
| "RequestType_display (GetPort chunk_id) = ''GetPort('' @ Key_display chunk_id @ '')''"
| "RequestType_display (GetValue chunk_id port) =
     ''GetValue('' @ Key_display chunk_id @ '', '' @ fmt_dec (unat port) @ '')''"

fun ResponseType_display :: "response_type \<Rightarrow> string" where
  "ResponseType_display Pong = ''Pong''"
| "ResponseType_display (Nodes nodes) = ''Nodes('' @ fmt_dec (length nodes) @ '')''"
| "ResponseType_display StoreChunkUpdated = ''StoreChunkUpdated''"
| "ResponseType_display StoreOK = ''StoreOK''"
| "ResponseType_display (PortOK port) = ''PortOK('' @ fmt_dec (unat port) @ '')''"
| "ResponseType_display (HasValue chunk_id) = ''HasValue('' @ Key_display chunk_id @ '')''"

definition Request_display :: "(request_id \<Rightarrow> string) \<Rightarrow> request \<Rightarrow> string" where
  "Request_display fmt_uuid r = RequestType_display (rq_request_type r) @ '' ['' @ fmt_uuid (rq_request_id r) @
     ''] '' @ Key_display (ni_id (rq_sender r)) @ '' -> '' @ Key_display (ni_id (rq_receiver r))"

definition Response_display :: "(request_id \<Rightarrow> string) \<Rightarrow> response \<Rightarrow> string" where
  "Response_display fmt_uuid r = ResponseType_display (rs_response_type r) @ '' ['' @ fmt_uuid (rs_request_id r) @
     ''] '' @ Key_display (ni_id (rs_sender r)) @ '' -> '' @ Key_display (ni_id (rs_receiver r))"

section \<open>What a text tells\<close>

fun request_type_wf :: "request_type \<Rightarrow> bool" where
  "request_type_wf Ping = True"
| "request_type_wf (FindNode k) = wf_key k"
| "request_type_wf (FindValue k) = wf_key k"
| "request_type_wf (Store k) = wf_key k"
| "request_type_wf (GetPort k) = wf_key k"
| "request_type_wf (GetValue k port) = wf_key k"

text \<open>What a response text keeps of a response: of contacts only their number.\<close>

fun response_summary :: "response_type \<Rightarrow> response_type + nat" where
  "response_summary (Nodes nodes) = Inr (length nodes)"
| "response_summary rt = Inl rt"

lemma length_Key_display: "wf_key k \<Longrightarrow> length (Key_display k) = 2 * K"
  by (simp add: Key_display_def wf_key_def)

lemma display_prefix:
  assumes "wf_key a" "wf_key b"
  shows "Key_display a @ s = Key_display b @ t \<longleftrightarrow> a = b \<and> s = t"
  using assms by (auto simp: append_eq_append_conv length_Key_display Key_display_inj)

lemma RequestType_display_inj:
  "request_type_wf a \<Longrightarrow> request_type_wf b \<Longrightarrow> RequestType_display a = RequestType_display b \<longleftrightarrow> a = b"
  by (cases a; cases b) (auto simp: display_prefix Key_display_inj simp flip: word_unat_eq_iff)

lemma ResponseType_display_eq:
  assumes "\<And>k. a = HasValue k \<Longrightarrow> wf_key k" "\<And>k. b = HasValue k \<Longrightarrow> wf_key k"
  shows "ResponseType_display a = ResponseType_display b \<longleftrightarrow> response_summary a = response_summary b"
  using assms by (cases a; cases b) (auto simp: display_prefix Key_display_inj simp flip: word_unat_eq_iff)

lemma line_parts:
  assumes "length u = length u'" "wf_key a" "wf_key a'" "wf_key b" "wf_key b'"
  shows "t @ '' ['' @ u @ ''] '' @ Key_display a @ '' -> '' @ Key_display b =
     t' @ '' ['' @ u' @ ''] '' @ Key_display a' @ '' -> '' @ Key_display b' \<longleftrightarrow> t = t' \<and> u = u' \<and> a = a' \<and> b = b'"
  using assms by (subst append_eq_append_conv)
    (auto simp: length_Key_display append_eq_append_conv Key_display_inj display_prefix)

text \<open>
  The log line of a request determines what was asked, by whom, of whom and under which identifier.
\<close>

lemma request_line_complete:
  assumes "\<And>i. length (fmt_uuid i) = 36" "inj fmt_uuid"
    and "request_type_wf (rq_request_type q)" "wf_node (rq_sender q)" "wf_node (rq_receiver q)"
    and "request_type_wf (rq_request_type q')" "wf_node (rq_sender q')" "wf_node (rq_receiver q')"
  shows "Request_display fmt_uuid q = Request_display fmt_uuid q' \<longleftrightarrow>
     rq_request_type q = rq_request_type q' \<and> rq_request_id q = rq_request_id q' \<and>
     ni_id (rq_sender q) = ni_id (rq_sender q') \<and> ni_id (rq_receiver q) = ni_id (rq_receiver q')"
  unfolding Request_display_def
  by (subst line_parts) (use assms in \<open>simp_all add: RequestType_display_inj wf_node_def inj_eq\<close>)

text \<open>The log line of a response determines it up to the contacts it lists.\<close>

lemma response_line_summary:
  assumes "\<And>i. length (fmt_uuid i) = 36" "inj fmt_uuid"
    and "\<And>k. rs_response_type r = HasValue k \<Longrightarrow> wf_key k" "wf_node (rs_sender r)" "wf_node (rs_receiver r)"
    and "\<And>k. rs_response_type r' = HasValue k \<Longrightarrow> wf_key k" "wf_node (rs_sender r')" "wf_node (rs_receiver r')"
  shows "Response_display fmt_uuid r = Response_display fmt_uuid r' \<longleftrightarrow>
     response_summary (rs_response_type r) = response_summary (rs_response_type r') \<and> rs_request_id r = rs_request_id r' \<and>
     ni_id (rs_sender r) = ni_id (rs_sender r') \<and> ni_id (rs_receiver r) = ni_id (rs_receiver r')"
  unfolding Response_display_def
  by (subst line_parts) (use assms in \<open>simp_all add: ResponseType_display_eq wf_node_def inj_eq\<close>)

section \<open>Addresses\<close>

text \<open>
  The standard texts of addresses. An IPv4 address is written in dotted decimal; an IPv6 address in
  groups of hexadecimal digits, the first of the longest runs of more than one zero group as \<open>::\<close>, or
  as \<open>::ffff:\<close> before a mapped IPv4 address.
\<close>

definition Ipv4Addr_octets :: "u32 \<Rightarrow> bytes" where
  "Ipv4Addr_octets a = rev (u32_to_le_bytes a)"

fun join_with :: "string \<Rightarrow> string list \<Rightarrow> string" where
  "join_with sep [] = []"
| "join_with sep [s] = s"
| "join_with sep (s # t # ts) = s @ sep @ join_with sep (t # ts)"

definition Ipv4Addr_display :: "u32 \<Rightarrow> string" where
  "Ipv4Addr_display a = join_with ''.'' (map (\<lambda>b. fmt_dec (unat b)) (Ipv4Addr_octets a))"

fun fmt_hex :: "nat \<Rightarrow> string" where
  "fmt_hex n = (if n < 16 then [hex_digit n] else fmt_hex (n div 16) @ [hex_digit (n mod 16)])"

declare fmt_hex.simps [simp del]

definition Ipv6Addr_segments :: "128 word \<Rightarrow> u16 list" where
  "Ipv6Addr_segments a = map (\<lambda>i. ucast (drop_bit (112 - 16 * i) a)) [0..<8]"

text \<open>The scan for the longest run of zeros: the runs are pairs of start and length.\<close>

fun longest_zeros :: "nat \<Rightarrow> u16 list \<Rightarrow> nat \<times> nat \<Rightarrow> nat \<times> nat \<Rightarrow> nat \<times> nat" where
  "longest_zeros i [] current longest = longest"
| "longest_zeros i (segment # segments) (start, len) longest =
     (if segment = 0
      then let current = (if len = 0 then i else start, Suc len)
           in longest_zeros (Suc i) segments current (if snd current > snd longest then current else longest)
      else longest_zeros (Suc i) segments (0, 0) longest)"

definition fmt_subslice :: "u16 list \<Rightarrow> string" where
  "fmt_subslice chunk = join_with '':'' (map (\<lambda>s. fmt_hex (unat s)) chunk)"

definition Ipv6Addr_display :: "128 word \<Rightarrow> string" where
  "Ipv6Addr_display a =
     (let segments = Ipv6Addr_segments a
      in if take 6 segments = replicate 5 0 @ [0xffff] then ''::ffff:'' @ Ipv4Addr_display (ucast a)
         else let (start, len) = longest_zeros 0 segments (0, 0) (0, 0)
              in if len > 1 then fmt_subslice (take start segments) @ ''::'' @ fmt_subslice (drop (start + len) segments)
                 else fmt_subslice segments)"

fun SocketAddr_display :: "socket_addr \<Rightarrow> string" where
  "SocketAddr_display (SocketAddrV4 a p) = Ipv4Addr_display a @ '':'' @ fmt_dec (unat p)"
| "SocketAddr_display (SocketAddrV6 a p flowinfo scope_id) =
     ''['' @ Ipv6Addr_display a @ (if scope_id = 0 then [] else ''%'' @ fmt_dec (unat scope_id)) @ '']:'' @ fmt_dec (unat p)"

definition NodeInfo_display :: "node_info \<Rightarrow> string" where
  "NodeInfo_display n = Key_display (ni_id n) @ '' @ '' @ SocketAddr_display (ni_address n)"

text \<open>The digits of a number hold no separator, so texts with a separator can be taken apart.\<close>

lemma fmt_dec_no_sep: "hex_value c = None \<Longrightarrow> c \<notin> set (fmt_dec n)"
proof (induction n rule: fmt_dec.induct)
  case (1 n)
  have "c \<noteq> hex_digit k" if "k < 10" for k using hex_value_digit [of k] that 1(2) by auto
  then show ?case using 1 by (cases "n < 10") (simp_all add: fmt_dec.simps [of n])
qed

lemma sep_values [simp]: "hex_value (CHR ''.'') = None" "hex_value (CHR '':'') = None"
  by (simp_all add: hex_value_def)

lemma separated:
  assumes "c \<notin> set s" "c \<notin> set s'"
  shows "s @ c # t = s' @ c # t' \<longleftrightarrow> s = s' \<and> t = t'"
  using assms
proof (induction s arbitrary: s')
  case Nil
  then show ?case by (cases s') auto
next
  case (Cons x s)
  then show ?case by (cases s') auto
qed

lemma fmt_dec_separated:
  "fmt_dec m @ CHR ''.'' # t = fmt_dec n @ CHR ''.'' # t' \<longleftrightarrow> m = n \<and> t = t'"
  by (simp add: separated fmt_dec_no_sep)

lemma octets_inj: "Ipv4Addr_octets a = Ipv4Addr_octets b \<longleftrightarrow> a = b"
  unfolding Ipv4Addr_octets_def by (metis rev_is_rev_conv u32_le_bytes_roundtrip)

lemma Ipv4Addr_display_inj: "Ipv4Addr_display a = Ipv4Addr_display b \<longleftrightarrow> a = b"
proof -
  have "\<exists>w x y z. Ipv4Addr_octets c = [w, x, y, z]" for c
    by (simp add: Ipv4Addr_octets_def u32_to_le_bytes_def upt_rec)
  then obtain w x y z w' x' y' z' where o: "Ipv4Addr_octets a = [w, x, y, z]" "Ipv4Addr_octets b = [w', x', y', z']" by metis
  then show ?thesis
    using octets_inj [of a b] by (simp add: Ipv4Addr_display_def fmt_dec_separated word_unat_eq_iff)
qed

lemma Ipv4Addr_display_no_colon: "CHR '':'' \<notin> set (Ipv4Addr_display a)"
proof -
  have "set (join_with sep ss) \<subseteq> set sep \<union> (\<Union>s \<in> set ss. set s)" for sep ss
    by (induction sep ss rule: join_with.induct) auto
  then show ?thesis using fmt_dec_no_sep [of "CHR '':''"] by (fastforce simp: Ipv4Addr_display_def)
qed

text \<open>The text of a contact with an IPv4 address determines the contact.\<close>

lemma contact_text_complete:
  assumes "wf_node m" "wf_node n" "ni_address m = SocketAddrV4 a p" "ni_address n = SocketAddrV4 b q"
  shows "NodeInfo_display m = NodeInfo_display n \<longleftrightarrow> m = n"
  using assms by (auto simp: NodeInfo_display_def wf_node_def display_prefix separated Ipv4Addr_display_no_colon
      Ipv4Addr_display_inj simp flip: word_unat_eq_iff)

lemma replicate_5: "replicate 5 x = [x, x, x, x, x]"
  by (simp add: numeral_eq_Suc)

lemma address_texts:
  "SocketAddr_display (SocketAddrV4 2130706433 8080) = ''127.0.0.1:8080''"
  "SocketAddr_display (SocketAddrV6 1 8080 0 0) = ''[::1]:8080''"
  "SocketAddr_display (SocketAddrV6 0xffff7f000001 1 0 3) = ''[::ffff:127.0.0.1%3]:1''"
  by (simp_all add: Ipv4Addr_display_def Ipv4Addr_octets_def u32_to_le_bytes_def upt_rec fmt_dec.simps hex_digit_def
      Ipv6Addr_display_def Ipv6Addr_segments_def fmt_subslice_def fmt_hex.simps replicate_5)

end
