(* ===== verification/Config.thy ===== *)
theory Config
  imports Messages Files
begin

text \<open>
  \<open>config.rs\<close> and \<open>cache.rs\<close>: the settings of a node read from a YAML file, the address it
  announces, and the cache file a node can be restarted from. The YAML and JSON readers, the
  network interfaces and the public address service are parameters; texts are ASCII.
\<close>

section \<open>Texts\<close>

definition ascii_lower :: "char \<Rightarrow> char" where
  "ascii_lower c =
     (let n = of_char c :: nat in if 65 \<le> n \<and> n \<le> 90 then char_of (n + 32) else c)"

definition to_lowercase :: "string \<Rightarrow> string" where
  "to_lowercase s = map ascii_lower s"

section \<open>Configuration\<close>

datatype ip_address_type = Public | Local | Loopback

definition IpAddressType_display :: "ip_address_type \<Rightarrow> string" where
  "IpAddressType_display t =
     (case t of Public \<Rightarrow> ''public'' | Local \<Rightarrow> ''local'' | Loopback \<Rightarrow> ''loopback'')"

definition IpAddressType_deserialize :: "string \<Rightarrow> ip_address_type option" where
  "IpAddressType_deserialize s =
     (let l = to_lowercase s in
      if l = ''public'' then Some Public
      else if l = ''local'' then Some Local
      else if l = ''loopback'' then Some Loopback
      else None)"

record config =
  cf_beacon_node_address :: "socket_addr option"
  cf_beacon_node_key :: "key option"
  cf_node_port :: "u16 option"
  cf_ip_address_type :: ip_address_type
  cf_cache_file_path :: "string option"
  cf_storage_path :: string

datatype config_error =
    ConfigOpenFailed
  | ConfigParseFailed
  | StorageDirFailed
  | BeaconAddressMissing
  | BeaconKeyMissing
  | PublicIpFailed
  | InterfacesFailed
  | LocalIpFailed

text \<open>
  What the start-up uses of the host: directories, the interfaces with their loopback flag, the
  public address service, UDP sockets (named by numbers) and random keys.
\<close>

record 'w host =
  ho_path_exists :: "string \<Rightarrow> 'w \<Rightarrow> bool \<times> 'w"
  ho_create_dir_all :: "string \<Rightarrow> 'w \<Rightarrow> bool \<times> 'w"
  ho_open_ok :: "string \<Rightarrow> 'w \<Rightarrow> bool \<times> 'w"
  ho_public_ip :: "'w \<Rightarrow> ip_addr option \<times> 'w"
  ho_if_addrs :: "'w \<Rightarrow> (bool \<times> ip_addr) list option \<times> 'w"
  ho_yaml_config :: "bytes \<Rightarrow> config option"
  ho_udp_bind :: "socket_addr \<Rightarrow> 'w \<Rightarrow> nat option \<times> 'w"
  ho_udp_local_addr :: "nat \<Rightarrow> 'w \<Rightarrow> socket_addr option \<times> 'w"
  ho_random_key :: "'w \<Rightarrow> bytes \<times> 'w"

definition Config_validate_storage_path ::
  "('w, 'z) host_scheme \<Rightarrow> string \<Rightarrow> 'w \<Rightarrow> (config_error + unit) \<times> 'w" where
  "Config_validate_storage_path env path w =
     (let (found, w1) = ho_path_exists env path w in
      if \<not> found
      then let (created, w2) = ho_create_dir_all env path w1
           in (if created then Inr () else Inl StorageDirFailed, w2)
      else (Inr (), w1))"

definition Config_parse_from_file ::
  "('w, 'z) host_scheme \<Rightarrow> string \<Rightarrow> bool \<Rightarrow> u16 option \<Rightarrow> disk \<Rightarrow> 'w \<Rightarrow> (config_error + config) \<times> 'w" where
  "Config_parse_from_file env file_path skip_join port_arg d w0 =
     (let (open_ok, w) = ho_open_ok env file_path w0 in
      case d file_path of
        None \<Rightarrow> (Inl ConfigOpenFailed, w)
      | Some content \<Rightarrow>
          if \<not> open_ok then (Inl ConfigOpenFailed, w)
          else case ho_yaml_config env content of
                 None \<Rightarrow> (Inl ConfigParseFailed, w)
               | Some config \<Rightarrow>
                   (case Config_validate_storage_path env (cf_storage_path config) w of
                      (Inl e, w1) \<Rightarrow> (Inl e, w1)
                    | (Inr _, w1) \<Rightarrow>
                        if \<not> skip_join \<and> cf_beacon_node_address config = None
                        then (Inl BeaconAddressMissing, w1)
                        else if \<not> skip_join \<and> cf_beacon_node_key config = None
                        then (Inl BeaconKeyMissing, w1)
                        else let config1 = (case port_arg of
                                   Some port \<Rightarrow> config\<lparr>cf_node_port := Some port\<rparr>
                                 | None \<Rightarrow> config);
                                 config2 = (if cf_node_port config1 = None
                                            then config1\<lparr>cf_node_port := Some 0\<rparr> else config1)
                             in (Inr config2, w1)))"

definition ip_is_ipv4 :: "ip_addr \<Rightarrow> bool" where
  "ip_is_ipv4 ip = (case ip of V4 _ \<Rightarrow> True | V6 _ \<Rightarrow> False)"

definition Config_resolve_ip_address ::
  "('w, 'z) host_scheme \<Rightarrow> config \<Rightarrow> 'w \<Rightarrow> (config_error + ip_addr) \<times> 'w" where
  "Config_resolve_ip_address env config w =
     (case cf_ip_address_type config of
        Public \<Rightarrow>
          (case ho_public_ip env w of
             (Some ip, w1) \<Rightarrow> (Inr ip, w1)
           | (None, w1) \<Rightarrow> (Inl PublicIpFailed, w1))
      | Local \<Rightarrow>
          (case ho_if_addrs env w of
             (None, w1) \<Rightarrow> (Inl InterfacesFailed, w1)
           | (Some if_addrs, w1) \<Rightarrow>
               (case find (\<lambda>(is_loopback, ip). \<not> is_loopback \<and> ip_is_ipv4 ip) if_addrs of
                  Some (_, ip) \<Rightarrow> (Inr ip, w1)
                | None \<Rightarrow> (Inl LocalIpFailed, w1)))
      | Loopback \<Rightarrow> (Inr (V4 2130706433), w))"

section \<open>Cache\<close>

record cache =
  ca_key :: key
  ca_skip_join :: bool
  ca_config :: config
  ca_routing_table_nodes :: "node_info list option"

datatype cache_error = CacheOpenFailed | CacheParseFailed | CacheDirFailed | CacheCreateFailed | CacheWriteFailed

text \<open>\<open>read_json\<close> and \<open>write_json\<close> are the JSON codec for \<open>Cache\<close>.\<close>

definition Cache_parse_from_file ::
  "(bytes \<Rightarrow> cache option) \<Rightarrow> bool \<Rightarrow> string \<Rightarrow> disk \<Rightarrow> cache_error + cache" where
  "Cache_parse_from_file read_json open_ok file_path d =
     (case d file_path of
        None \<Rightarrow> Inl CacheOpenFailed
      | Some content \<Rightarrow>
          if \<not> open_ok then Inl CacheOpenFailed
          else case read_json content of None \<Rightarrow> Inl CacheParseFailed | Some cache \<Rightarrow> Inr cache)"

text \<open>\<open>Path::parent\<close>: everything before the last component, unless the path is empty or a root;
  empty components and \<open>.\<close> after the first are dropped.\<close>

definition Path_parent :: "string \<Rightarrow> string option" where
  "Path_parent p =
     (let absolute = (p \<noteq> [] \<and> hd p = CHR ''/'');
          parts = filter (\<lambda>c. c \<noteq> []) (split_on (CHR ''/'') p);
          cs = (if absolute then filter (\<lambda>c. c \<noteq> ''.'') parts
                else take 1 parts @ filter (\<lambda>c. c \<noteq> ''.'') (drop 1 parts))
      in if cs = [] then None
         else let joined = concat (map (\<lambda>c. c @ ''/'') (butlast cs))
              in Some ((if absolute then ''/'' else []) @ butlast joined))"

definition Cache_save_to_file ::
  "('w, 'z) host_scheme \<Rightarrow> (cache \<Rightarrow> bytes) \<Rightarrow> bool \<Rightarrow> write_outcome \<Rightarrow> string \<Rightarrow> cache \<Rightarrow> disk \<Rightarrow> 'w \<Rightarrow>
     (cache_error + unit) \<times> disk \<times> 'w" where
  "Cache_save_to_file env write_json create_ok wr file_path cache d w =
     (let (dir_ok, w1) =
            (case Path_parent file_path of
               None \<Rightarrow> (True, w)
             | Some parent \<Rightarrow>
                 let (found, w1) = ho_path_exists env parent w
                 in if \<not> found then ho_create_dir_all env parent w1 else (True, w1))
      in if \<not> dir_ok then (Inl CacheDirFailed, d, w1)
         else if \<not> create_ok then (Inl CacheCreateFailed, d, w1)
         else let d1 = d(file_path \<mapsto> written wr (write_json cache))
              in (if wr = WriteOk then Inr () else Inl CacheWriteFailed, d1, w1))"

section \<open>Main results\<close>

lemma to_lowercase_idem: "to_lowercase (to_lowercase s) = to_lowercase s"
proof -
  have "ascii_lower (ascii_lower c) = ascii_lower c" for c
    by (auto simp: ascii_lower_def Let_def)
  then show ?thesis by (simp add: to_lowercase_def)
qed

text \<open>The kind of address is read without regard to case: the text written for a kind, in
  any spelling, is read as this kind, and every text that is read is a spelling of what is
  written for the kind it is read as.\<close>

lemma ip_address_type_round_trip:
  "(to_lowercase s = IpAddressType_display t \<longleftrightarrow> IpAddressType_deserialize s = Some t) \<and>
   IpAddressType_deserialize (IpAddressType_display t) = Some t"
proof -
  have low: "to_lowercase (IpAddressType_display t) = IpAddressType_display t" for t
    by (cases t) (simp_all add: to_lowercase_def ascii_lower_def Let_def IpAddressType_display_def)
  have iff: "to_lowercase s = IpAddressType_display t \<longleftrightarrow> IpAddressType_deserialize s = Some t" for s t
    by (cases t) (auto simp: IpAddressType_display_def IpAddressType_deserialize_def Let_def)
  show ?thesis using iff [of s t] iff [of "IpAddressType_display t" t] low [of t] by simp
qed

text \<open>What a configuration that was read satisfies: the file existed and was valid YAML;
  unless joining is skipped, the beacon's address and key are there; the port is the one of the
  command line if given, else the one of the file, else 0; every other setting is the one of the
  file. Without joining, only opening, parsing and the storage directory can fail.\<close>

lemma config_parse_outcome:
  assumes "Config_parse_from_file env path skip_join port_arg d w = (r, w')"
  shows "case r of
      Inr c \<Rightarrow> \<exists>content c0. d path = Some content \<and> ho_yaml_config env content = Some c0 \<and>
        (\<not> skip_join \<longrightarrow> cf_beacon_node_address c \<noteq> None \<and> cf_beacon_node_key c \<noteq> None) \<and>
        cf_node_port c = Some (case port_arg of Some p \<Rightarrow> p
          | None \<Rightarrow> (case cf_node_port c0 of Some p \<Rightarrow> p | None \<Rightarrow> 0)) \<and>
        c = c0\<lparr>cf_node_port := cf_node_port c\<rparr>
    | Inl e \<Rightarrow> e \<in> {ConfigOpenFailed, ConfigParseFailed, StorageDirFailed} \<or>
        \<not> skip_join \<and> e \<in> {BeaconAddressMissing, BeaconKeyMissing}"
  using assms
  by (auto simp: Config_parse_from_file_def Config_validate_storage_path_def Let_def
      split: option.split_asm if_split_asm prod.split_asm sum.split_asm sum.split option.split)

definition quiet_host :: "'w host" where
  "quiet_host = \<lparr>ho_path_exists = (\<lambda>p w. (True, w)), ho_create_dir_all = (\<lambda>p w. (True, w)),
     ho_open_ok = (\<lambda>p w. (True, w)), ho_public_ip = (\<lambda>w. (None, w)),
     ho_if_addrs = (\<lambda>w. (Some [(True, V4 2130706433), (False, V6 1), (False, V4 3232235777)], w)),
     ho_yaml_config = (\<lambda>_. Some \<lparr>cf_beacon_node_address = None, cf_beacon_node_key = None, cf_node_port = Some 8081,
       cf_ip_address_type = Local, cf_cache_file_path = None, cf_storage_path = ''s''\<rparr>),
     ho_udp_bind = (\<lambda>a w. (Some 0, w)), ho_udp_local_addr = (\<lambda>s w. (Some (SocketAddrV4 2130706433 0), w)),
     ho_random_key = (\<lambda>w. (replicate 20 0, w))\<rparr>"

text \<open>The announced address of a loopback or local node is an IPv4 address.\<close>

lemma resolve_ip_ipv4:
  assumes "Config_resolve_ip_address env c w = (Inr ip, w')" "cf_ip_address_type c \<noteq> Public"
  shows "ip_is_ipv4 ip"
  using assms
  by (cases "cf_ip_address_type c")
    (auto simp: Config_resolve_ip_address_def split: prod.split_asm option.split_asm dest!: find_SomeD,
     simp_all add: ip_is_ipv4_def)

text \<open>Saving and reading the cache: a save that succeeds is read back as the same cache,
  and it changes no other file; a save that fails before the file is created changes nothing. The JSON codec is relied on to read back
  the text it writes for this cache.\<close>

lemma cache_round_trip:
  assumes "read_json (write_json c) = Some c"
    and "Cache_save_to_file env write_json create_ok wr path c d w = (r, d', w')"
  shows "(r = Inr () \<longrightarrow> Cache_parse_from_file read_json True path d' = Inr c) \<and>
    (\<forall>p. p \<noteq> path \<longrightarrow> d' p = d p) \<and>
    (r = Inl CacheDirFailed \<or> r = Inl CacheCreateFailed \<longrightarrow> d' = d)"
  using assms
  by (auto simp: Cache_save_to_file_def Cache_parse_from_file_def Let_def
      split: option.split_asm if_split_asm prod.split_asm)

definition sample_cache :: cache where
  "sample_cache = \<lparr>ca_key = Key (replicate 20 1), ca_skip_join = True,
     ca_config = \<lparr>cf_beacon_node_address = None, cf_beacon_node_key = None, cf_node_port = Some 8081,
       cf_ip_address_type = Loopback, cf_cache_file_path = Some ''dir/c'', cf_storage_path = ''s''\<rparr>,
     ca_routing_table_nodes = None\<rparr>"

end
