(* ===== verification/Console.thy ===== *)
theory Console
  imports File_Transfer Config
begin

text \<open>
  The command loop of \<open>main.rs\<close>: splitting a line into words, recognising the command and its
  number of arguments, running it on the node and reporting the outcome. What is printed is a
  value of \<open>console_reply\<close>; banners and separators are left out. The \<open>hex\<close> and \<open>bincode\<close> crates
  are parameters. Letter case and white space are those of ASCII.
\<close>

section \<open>Texts\<close>

definition is_whitespace :: "char \<Rightarrow> bool" where
  "is_whitespace c = (let n = of_char c :: nat in n = 32 \<or> (9 \<le> n \<and> n \<le> 13))"

function split_whitespace :: "string \<Rightarrow> string list" where
  "split_whitespace s =
     (case dropWhile is_whitespace s of
        [] \<Rightarrow> []
      | c # cs \<Rightarrow> (c # takeWhile (\<lambda>x. \<not> is_whitespace x) cs) # split_whitespace (dropWhile (\<lambda>x. \<not> is_whitespace x) cs))"
  by pat_completeness auto
termination
proof (relation "measure length")
  fix s c cs
  assume "dropWhile is_whitespace s = c # cs"
  then have "length (c # cs) \<le> length s" using length_dropWhile_le [of is_whitespace s] by simp
  then show "(dropWhile (\<lambda>x. \<not> is_whitespace x) cs, s) \<in> measure length"
    using length_dropWhile_le [of "\<lambda>x. \<not> is_whitespace x" cs] by simp
qed simp

declare split_whitespace.simps [simp del]

definition trim :: "string \<Rightarrow> string" where
  "trim s = rev (dropWhile is_whitespace (rev (dropWhile is_whitespace s)))"

text \<open>The well-formed byte sequences of UTF-8; a text is kept as its bytes.\<close>

definition utf8_cont :: "u8 \<Rightarrow> bool" where
  "utf8_cont b \<longleftrightarrow> 0x80 \<le> b \<and> b \<le> 0xBF"

fun utf8_valid :: "bytes \<Rightarrow> bool" where
  "utf8_valid [] = True"
| "utf8_valid (b # bs) =
     (if b \<le> 0x7F then utf8_valid bs
      else if 0xC2 \<le> b \<and> b \<le> 0xDF then
        (case bs of c1 # r \<Rightarrow> utf8_cont c1 \<and> utf8_valid r | _ \<Rightarrow> False)
      else if 0xE0 \<le> b \<and> b \<le> 0xEF then
        (case bs of c1 # c2 # r \<Rightarrow>
            utf8_cont c1 \<and> utf8_cont c2 \<and> (b = 0xE0 \<longrightarrow> 0xA0 \<le> c1) \<and> (b = 0xED \<longrightarrow> c1 \<le> 0x9F) \<and> utf8_valid r
          | _ \<Rightarrow> False)
      else if 0xF0 \<le> b \<and> b \<le> 0xF4 then
        (case bs of c1 # c2 # c3 # r \<Rightarrow>
            utf8_cont c1 \<and> utf8_cont c2 \<and> utf8_cont c3 \<and> (b = 0xF0 \<longrightarrow> 0x90 \<le> c1) \<and> (b = 0xF4 \<longrightarrow> c1 \<le> 0x8F) \<and>
            utf8_valid r
          | _ \<Rightarrow> False)
      else False)"

definition read_to_string :: "bool \<Rightarrow> string \<Rightarrow> disk \<Rightarrow> string option" where
  "read_to_string read_ok path d =
     (case d path of
        None \<Rightarrow> None
      | Some bs \<Rightarrow> if read_ok \<and> utf8_valid bs then Some (map (\<lambda>b. char_of (unat b)) bs) else None)"

section \<open>Commands\<close>

record codecs =
  co_hex_decode :: "string \<Rightarrow> unit + bytes"
  co_hex_encode :: "bytes \<Rightarrow> string"
  co_serialize :: "file_metadata \<Rightarrow> string + bytes"
  co_deserialize :: "bytes \<Rightarrow> unit + file_metadata"

datatype console_reply =
    PingResponded string response
  | PingFailed string node_error
  | InvalidNodeId "unit key_error"
  | ClosestNodes string "node_info list"
  | FindFailed node_op_error
  | Uploaded string
  | UploadFailed transfer_error
  | Downloaded string
  | DownloadFailed transfer_error
  | InvalidHandle metadata_error
  | InvalidHandleIn string metadata_error
  | HandleFileUnreadable string
  | RoutingTableContent "node_info list"
  | AvailableChunks "key list"
  | WrongCommand string

definition console_ping ::
  "codecs \<Rightarrow> ('w, 'z) net_scheme \<Rightarrow> string \<Rightarrow> node \<Rightarrow> 'w \<Rightarrow> (console_reply \<times> node \<times> 'w) run" where
  "console_ping co env arg nd w =
     (case Key_from_hex_str (co_hex_decode co) arg of
        Inl e \<Rightarrow> Ret (InvalidNodeId e, nd, w)
      | Inr node_id \<Rightarrow>
          bind_run (Node_ping env False node_id nd w) (\<lambda>(r, nd', w').
            Ret (case r of Inr response \<Rightarrow> PingResponded arg response | Inl e \<Rightarrow> PingFailed arg e, nd', w')))"

definition console_find_node ::
  "codecs \<Rightarrow> ('w, 'z) net_scheme \<Rightarrow> string \<Rightarrow> node \<Rightarrow> 'w \<Rightarrow> (console_reply \<times> node \<times> 'w) run" where
  "console_find_node co env arg nd w =
     (case Key_from_hex_str (co_hex_decode co) arg of
        Inl e \<Rightarrow> Ret (InvalidNodeId e, nd, w)
      | Inr node_id \<Rightarrow>
          bind_run (Node_find_node env node_id nd w) (\<lambda>(r, nd', w').
            Ret (case r of Inr closest_nodes \<Rightarrow> ClosestNodes arg closest_nodes | Inl e \<Rightarrow> FindFailed e, nd', w')))"

definition console_upload ::
  "codecs \<Rightarrow> ('w, 'z) net_scheme \<Rightarrow> string \<Rightarrow> node \<Rightarrow> 'w \<Rightarrow> (console_reply \<times> node \<times> 'w) run" where
  "console_upload co env file_path nd w =
     bind_run (Node_upload_file env file_path nd w) (\<lambda>(r, nd', w').
       Ret (case r of
              Inr file_metadata \<Rightarrow> Uploaded (FileMetadata_display (co_serialize co) (co_hex_encode co) file_metadata)
            | Inl e \<Rightarrow> UploadFailed e, nd', w'))"

definition console_fetch ::
  "('w, 'z) net_scheme \<Rightarrow> file_metadata \<Rightarrow> string \<Rightarrow> node \<Rightarrow> 'w \<Rightarrow> (console_reply \<times> node \<times> 'w) run" where
  "console_fetch env file_metadata output_dir nd w =
     bind_run (Node_download_file env file_metadata output_dir nd w) (\<lambda>(r, nd', w').
       Ret (case r of Inr file \<Rightarrow> Downloaded file | Inl e \<Rightarrow> DownloadFailed e, nd', w'))"

definition console_download ::
  "codecs \<Rightarrow> ('w, 'z) net_scheme \<Rightarrow> string \<Rightarrow> string \<Rightarrow> node \<Rightarrow> 'w \<Rightarrow> (console_reply \<times> node \<times> 'w) run" where
  "console_download co env file_handle storage_dir nd w =
     (case FileMetadata_from_str (co_hex_decode co) (co_deserialize co) file_handle of
        Inl e \<Rightarrow> Ret (InvalidHandle e, nd, w)
      | Inr file_metadata \<Rightarrow> console_fetch env file_metadata storage_dir nd w)"

definition console_download_from_handle_file ::
  "codecs \<Rightarrow> ('w, 'z) net_scheme \<Rightarrow> string \<Rightarrow> string \<Rightarrow> node \<Rightarrow> 'w \<Rightarrow> (console_reply \<times> node \<times> 'w) run" where
  "console_download_from_handle_file co env handle_file_path output_dir nd w =
     (let (read_ok, w1) = net_read_ok env w in
      case read_to_string read_ok handle_file_path (nd_disk nd) of
        None \<Rightarrow> Ret (HandleFileUnreadable handle_file_path, nd, w1)
      | Some handle_str \<Rightarrow>
          (case FileMetadata_from_str (co_hex_decode co) (co_deserialize co) (trim handle_str) of
             Inl e \<Rightarrow> Ret (InvalidHandleIn handle_file_path e, nd, w1)
           | Inr file_metadata \<Rightarrow> console_fetch env file_metadata output_dir nd w1))"

text \<open>One line of input; a blank line is skipped.\<close>

definition console_line ::
  "codecs \<Rightarrow> ('w, 'z) net_scheme \<Rightarrow> string \<Rightarrow> node \<Rightarrow> 'w \<Rightarrow> (console_reply option \<times> node \<times> 'w) run" where
  "console_line co env line nd w =
     (let parts = split_whitespace line in
      if parts = [] then Ret (None, nd, w)
      else
        let command = to_lowercase (parts ! 0) in
        bind_run
          (if command = ''ping'' \<and> length parts = 2 then console_ping co env (parts ! 1) nd w
           else if command = ''find_node'' \<and> length parts = 2 then console_find_node co env (parts ! 1) nd w
           else if command = ''upload'' \<and> length parts = 2 then console_upload co env (parts ! 1) nd w
           else if command = ''download'' \<and> length parts = 3 then
             console_download co env (parts ! 1) (parts ! 2) nd w
           else if command = ''download_from_handle_file'' \<and> length parts = 3 then
             console_download_from_handle_file co env (parts ! 1) (parts ! 2) nd w
           else if command = ''dump_rt'' \<and> length parts = 1 then
             Ret (RoutingTableContent (Node_get_routing_table_content nd), nd, w)
           else if command = ''dump_chunks'' \<and> length parts = 1 then
             Ret (AvailableChunks (Node_get_owned_chunk_keys nd), nd, w)
           else Ret (WrongCommand (parts ! 0), nd, w))
          (\<lambda>(reply, nd', w'). Ret (Some reply, nd', w')))"

text \<open>
  The loop: the input is what the reads of lines return, \<open>None\<close> for an I/O error, and ends with
  the end of the input. The first component tells whether the program ends without an error.
\<close>

fun console_loop ::
  "codecs \<Rightarrow> ('w, 'z) net_scheme \<Rightarrow> string option list \<Rightarrow> node \<Rightarrow> 'w \<Rightarrow> (bool \<times> console_reply list \<times> node \<times> 'w) run" where
  "console_loop co env [] nd w = Ret (True, [], nd, w)"
| "console_loop co env (None # lines) nd w = Ret (False, [], nd, w)"
| "console_loop co env (Some line # lines) nd w =
     bind_run (console_line co env line nd w) (\<lambda>(reply, nd1, w1).
       bind_run (console_loop co env lines nd1 w1) (\<lambda>(ok, replies, nd2, w2).
         Ret (ok, (case reply of None \<Rightarrow> replies | Some r \<Rightarrow> r # replies), nd2, w2)))"

section \<open>Recognising commands\<close>

lemma split_whitespace_space: "is_whitespace c \<Longrightarrow> split_whitespace (c # s) = split_whitespace s"
  by (simp add: split_whitespace.simps [of "c # s"] split_whitespace.simps [of s])

lemma split_whitespace_word:
  assumes "x \<noteq> []" "list_all (\<lambda>c. \<not> is_whitespace c) x" "is_whitespace c"
  shows "split_whitespace (x @ c # s) = x # split_whitespace s" "split_whitespace x = [x]"
proof -
  obtain d ds where x: "x = d # ds" using assms(1) by (cases x) auto
  have t: "takeWhile (\<lambda>c. \<not> is_whitespace c) (ds @ c # s) = ds" "dropWhile (\<lambda>c. \<not> is_whitespace c) (ds @ c # s) = c # s"
      "takeWhile (\<lambda>c. \<not> is_whitespace c) ds = ds" "dropWhile (\<lambda>c. \<not> is_whitespace c) ds = []"
    using assms(2,3) x by (simp_all add: list_all_iff takeWhile_append2 dropWhile_append2)
  show "split_whitespace (x @ c # s) = x # split_whitespace s"
    using assms(2,3) t by (simp add: x split_whitespace.simps [of "d # ds @ c # s"] split_whitespace_space)
  have "split_whitespace (d # ds) = (d # takeWhile (\<lambda>c. \<not> is_whitespace c) ds) #
      split_whitespace (dropWhile (\<lambda>c. \<not> is_whitespace c) ds)"
    using assms(2) by (simp add: x split_whitespace.simps [of "d # ds"])
  then show "split_whitespace x = [x]" unfolding x t(3,4) by (simp add: split_whitespace.simps [of "[]"])
qed

lemma split_whitespace_Nil: "split_whitespace s = [] \<longleftrightarrow> list_all is_whitespace s"
proof (cases "dropWhile is_whitespace s")
  case Nil
  then have "split_whitespace s = []" unfolding split_whitespace.simps [of s] by (simp only: list.case)
  then show ?thesis using Nil by (simp add: list_all_iff)
next
  case (Cons c cs)
  then have "\<not> list_all is_whitespace s" using dropWhile_eq_Nil_conv [of is_whitespace s] by (auto simp: list_all_iff)
  then show ?thesis using Cons by (simp add: split_whitespace.simps [of s])
qed

lemma trim_word:
  assumes "x \<noteq> []" "list_all (\<lambda>c. \<not> is_whitespace c) x" "list_all is_whitespace a" "list_all is_whitespace b"
  shows "trim (a @ x @ b) = x"
proof -
  have "dropWhile is_whitespace (a @ y) = dropWhile is_whitespace y" if "list_all is_whitespace a" for a y
    using that by (simp add: list_all_iff dropWhile_append2)
  moreover have "list_all is_whitespace (rev b)" using assms(4) by (simp add: list_all_iff)
  moreover have "dropWhile is_whitespace (x @ b) = x @ b"
    using assms(1,2) by (cases x) simp_all
  moreover have "dropWhile is_whitespace (rev x) = rev x"
    using assms(1,2) last_in_set [of x] by (simp add: dropWhile_eq_self_iff hd_rev list_all_iff)
  ultimately show ?thesis using assms(3) by (simp add: trim_def)
qed

text \<open>The commands with the number of their arguments.\<close>

definition console_commands :: "(string \<times> nat) list" where
  "console_commands = [(''ping'', 1), (''find_node'', 1), (''upload'', 1), (''download'', 2),
     (''download_from_handle_file'', 2), (''dump_rt'', 0), (''dump_chunks'', 0)]"

lemma replies_not_wrong:
  "console_ping co env a nd w \<noteq> Ret (WrongCommand c, nd', w')"
  "console_find_node co env a nd w \<noteq> Ret (WrongCommand c, nd', w')"
  "console_upload co env a nd w \<noteq> Ret (WrongCommand c, nd', w')"
  "console_fetch env md b nd w \<noteq> Ret (WrongCommand c, nd', w')"
  by (auto simp: console_ping_def console_find_node_def console_upload_def console_fetch_def bind_run_Ret_iff
      split: sum.splits)

lemma downloads_not_wrong:
  "console_download co env a b nd w \<noteq> Ret (WrongCommand c, nd', w')"
  "console_download_from_handle_file co env a b nd w \<noteq> Ret (WrongCommand c, nd', w')"
  by (auto simp: console_download_def console_download_from_handle_file_def Let_def replies_not_wrong
      split: sum.splits option.splits prod.splits)

lemma console_line_Some:
  assumes "split_whitespace line = c # args"
  shows "console_line co env line nd w = Ret (r, nd', w') \<longleftrightarrow> (\<exists>reply. r = Some reply \<and>
    (if (to_lowercase c, length args) = (''ping'', 1) then console_ping co env (args ! 0) nd w
     else if (to_lowercase c, length args) = (''find_node'', 1) then console_find_node co env (args ! 0) nd w
     else if (to_lowercase c, length args) = (''upload'', 1) then console_upload co env (args ! 0) nd w
     else if (to_lowercase c, length args) = (''download'', 2) then console_download co env (args ! 0) (args ! 1) nd w
     else if (to_lowercase c, length args) = (''download_from_handle_file'', 2) then
       console_download_from_handle_file co env (args ! 0) (args ! 1) nd w
     else if (to_lowercase c, length args) = (''dump_rt'', 0) then
       Ret (RoutingTableContent (Node_get_routing_table_content nd), nd, w)
     else if (to_lowercase c, length args) = (''dump_chunks'', 0) then
       Ret (AvailableChunks (Node_get_owned_chunk_keys nd), nd, w)
     else Ret (WrongCommand c, nd, w)) = Ret (reply, nd', w'))"
  using assms by (auto simp: console_line_def bind_run_Ret_iff Let_def numeral_2_eq_2)

text \<open>A line is refused exactly when it is not blank and its first word, in lower case,
  with the number of the other words is not in the list of commands; a refused or blank line
  changes nothing.\<close>

theorem console_recognises:
  "(console_line co env line nd w = Ret (Some (WrongCommand c), nd', w') \<longleftrightarrow>
      (\<exists>args. split_whitespace line = c # args \<and> (to_lowercase c, length args) \<notin> set console_commands \<and>
         nd' = nd \<and> w' = w)) \<and>
   (console_line co env line nd w = Ret (None, nd', w') \<longleftrightarrow> list_all is_whitespace line \<and> nd' = nd \<and> w' = w)"
proof (cases "split_whitespace line")
  case Nil
  then show ?thesis using split_whitespace_Nil [of line] by (auto simp: console_line_def)
next
  case (Cons d args)
  then have "\<not> list_all is_whitespace line" using split_whitespace_Nil [of line] by simp
  then show ?thesis
    using Cons by (auto simp: console_line_Some [OF Cons] replies_not_wrong downloads_not_wrong console_commands_def
        split: if_split_asm)
qed

section \<open>File handles\<close>

text \<open>
  What the handle of a file relies on: the metadata is serialised to bytes that are read back as
  the same metadata, and the hexadecimal text of these bytes is a word that is decoded to them.
\<close>

definition handle_ok :: "codecs \<Rightarrow> file_metadata \<Rightarrow> bool" where
  "handle_ok co md \<longleftrightarrow> (\<exists>bs. co_serialize co md = Inr bs \<and> co_deserialize co bs = Inr md \<and>
     co_hex_decode co (co_hex_encode co bs) = Inr bs \<and> co_hex_encode co bs \<noteq> [] \<and>
     list_all (\<lambda>c. \<not> is_whitespace c \<and> (of_char c :: nat) < 128) (co_hex_encode co bs))"

lemma handle_reads_back:
  assumes "handle_ok co md"
  shows "FileMetadata_from_str (co_hex_decode co) (co_deserialize co)
      (FileMetadata_display (co_serialize co) (co_hex_encode co) md) = Inr md"
  using assms by (auto simp: handle_ok_def FileMetadata_from_str_def FileMetadata_display_def)

lemma unat_of_char: "unat (of_char c :: u8) = of_char c"
proof -
  have "(of_char c :: u8) = of_nat (of_char c)" by (simp only: of_nat_of_char)
  then show ?thesis by (simp only: unat_of_nat) simp
qed

lemma ascii_utf8_valid: "list_all (\<lambda>c. (of_char c :: nat) < 128) s \<Longrightarrow> utf8_valid (map of_char s)"
  by (induction s) (simp_all add: word_le_nat_alt unat_of_char)

lemma read_to_string_ascii:
  assumes "d path = Some (map of_char s)" "list_all (\<lambda>c. (of_char c :: nat) < 128) s"
  shows "read_to_string True path d = Some s"
  using assms ascii_utf8_valid [of s] by (simp add: read_to_string_def unat_of_char map_idI)

lemma is_whitespace_ascii: "is_whitespace c \<Longrightarrow> (of_char c :: nat) < 128"
  by (auto simp: is_whitespace_def Let_def)

text \<open>Claim C24. The handle printed after an upload brings the file back: given to \<open>download\<close>, or
  read from a file that holds it between any white space, it starts the download of exactly the
  metadata it was printed for into the given directory.\<close>

theorem handle_round_trip:
  assumes "handle_ok co md" "handle = FileMetadata_display (co_serialize co) (co_hex_encode co) md"
    and "dir \<noteq> []" "list_all (\<lambda>c. \<not> is_whitespace c) dir" "file \<noteq> []" "list_all (\<lambda>c. \<not> is_whitespace c) file"
    and "list_all is_whitespace before" "list_all is_whitespace after"
    and "nd_disk nd file = Some (map of_char (before @ handle @ after))" "net_read_ok env w = (True, w1)"
  shows "console_line co env (''download '' @ handle @ '' '' @ dir) nd w =
      bind_run (console_fetch env md dir nd w) (\<lambda>(r, nd', w'). Ret (Some r, nd', w')) \<and>
    console_line co env (''download_from_handle_file '' @ file @ '' '' @ dir) nd w =
      bind_run (console_fetch env md dir nd w1) (\<lambda>(r, nd', w'). Ret (Some r, nd', w'))"
proof -
  have space: "is_whitespace (CHR '' '')" by (simp add: is_whitespace_def)
  have words: "list_all (\<lambda>c. \<not> is_whitespace c) ''download''"
    "list_all (\<lambda>c. \<not> is_whitespace c) ''download_from_handle_file''"
    by (simp_all add: is_whitespace_def)
  have handle: "handle \<noteq> []" "list_all (\<lambda>c. \<not> is_whitespace c) handle" "list_all (\<lambda>c. (of_char c :: nat) < 128) handle"
    using assms(1,2) by (auto simp: handle_ok_def FileMetadata_display_def list_all_iff)
  have "list_all (\<lambda>c. (of_char c :: nat) < 128) (before @ handle @ after)"
    using handle(3) assms(7,8) is_whitespace_ascii by (auto simp: list_all_iff)
  note read = read_to_string_ascii [where d = "nd_disk nd" and path = "file" and s = "before @ handle @ after", OF assms(9) this] trim_word [OF handle(1,2) assms(7,8)]
    handle_reads_back [OF assms(1), folded assms(2)]
  have "split_whitespace (''download'' @ CHR '' '' # handle @ CHR '' '' # dir) = [''download'', handle, dir]"
    using split_whitespace_word [OF _ words(1) space] split_whitespace_word [OF handle(1,2) space]
      split_whitespace_word [OF assms(3,4) space] by simp
  moreover have "split_whitespace (''download_from_handle_file'' @ CHR '' '' # file @ CHR '' '' # dir) =
      [''download_from_handle_file'', file, dir]"
    using split_whitespace_word [OF _ words(2) space] split_whitespace_word [OF assms(5,6) space]
      split_whitespace_word [OF assms(3,4) space] by simp
  ultimately show ?thesis
    by (simp add: console_line_def console_download_def console_download_from_handle_file_def read assms(10)
        to_lowercase_def ascii_lower_def)
qed

section \<open>A session\<close>

text \<open>
  What a command leaves: it panics only in the case \<open>p\<close>, waits forever only in the case \<open>q\<close>,
  and otherwise returns a node that satisfies its invariant.
\<close>

definition run_ok :: "bool \<Rightarrow> bool \<Rightarrow> ('r \<times> node \<times> 'w) run \<Rightarrow> bool" where
  "run_ok p q x \<longleftrightarrow> (case x of
      Panicked \<Rightarrow> p
    | Blocked \<Rightarrow> q
    | Ret (r, nd, w) \<Rightarrow> nd_inv nd)"

lemma run_ok_Ret [simp]: "run_ok p q (Ret (r, nd, w)) = nd_inv nd"
  by (simp add: run_ok_def)

lemma run_ok_mono: "run_ok p q x \<Longrightarrow> (p \<Longrightarrow> p') \<Longrightarrow> (q \<Longrightarrow> q') \<Longrightarrow> run_ok p' q' x"
  by (auto simp: run_ok_def split: run.splits)

lemma run_ok_reply: "run_ok p q x \<Longrightarrow> run_ok p q (bind_run x (\<lambda>(r, nd, w). Ret (f r, nd, w)))"
  by (auto simp: run_ok_def split: run.splits)

text \<open>
  The lines that wait forever: a search whose answering nodes do not fit into the routing table of the node, and an
  upload that gets stuck in the same way for one of its chunks.
\<close>

definition search_stuck :: "codecs \<Rightarrow> ('w, 'z) net_scheme \<Rightarrow> string \<Rightarrow> node \<Rightarrow> 'w \<Rightarrow> bool" where
  "search_stuck co env arg nd w = (case Key_from_hex_str (co_hex_decode co) arg of
     Inl _ \<Rightarrow> False
   | Inr k \<Rightarrow> crowded (nd_routing_table nd) (find_node_responsive env k nd w))"

definition line_stuck :: "codecs \<Rightarrow> ('w, 'z) net_scheme \<Rightarrow> string \<Rightarrow> node \<Rightarrow> 'w \<Rightarrow> bool" where
  "line_stuck co env line nd w = (case split_whitespace line of
       [c, arg] \<Rightarrow> to_lowercase c = ''find_node'' \<and> search_stuck co env arg nd w \<or>
         to_lowercase c = ''upload'' \<and> file_upload_stuck env arg nd w
     | _ \<Rightarrow> False)"

lemma optional_entry:
  obtains (failed) e where "q = Inl e" | (absent) "q = Inr None" | (entry) n where "q = Inr (Some n)"
  by (cases q) (auto intro: option.exhaust)

lemma console_ping_ok:
  assumes "await_ok env" "nd_inv nd"
  shows "run_ok False False (console_ping co env arg nd w)"
proof (cases "Key_from_hex_str (co_hex_decode co) arg")
  case (Inr k)
  from from_hex_str_wf [OF Inr] assms(2) obtain q where "RoutingTable_get_nodeinfo (nd_routing_table nd) k = Ret q"
    using get_nodeinfo_returns [of "nd_routing_table nd" k] by (auto simp: nd_inv_def)
  moreover have "\<exists>r nd' w'. Node_ping env False k nd w = Ret (r, nd', w') \<and> nd_inv nd'"
    if "RoutingTable_get_nodeinfo (nd_routing_table nd) k = Ret (Inr (Some n))" for n
    using ping_returns [OF assms that, of w] by blast
  ultimately have "\<exists>r nd' w'. Node_ping env False k nd w = Ret (r, nd', w') \<and> nd_inv nd'"
    using assms(2) by (cases rule: optional_entry [of q]) (auto simp: Node_ping_def)
  then show ?thesis by (auto simp: console_ping_def Inr)
qed (use assms in \<open>simp add: console_ping_def\<close>)

lemma console_find_node_ok:
  assumes "await_ok env" "nd_inv nd"
  shows "run_ok False (search_stuck co env arg nd w) (console_find_node co env arg nd w)"
proof (cases "Key_from_hex_str (co_hex_decode co) arg")
  case (Inr k)
  have "run_ok False (search_stuck co env arg nd w) (Node_find_node env k nd w)"
    using find_node_cases [OF assms from_hex_str_wf [OF Inr], of w]
    by (auto simp: run_ok_def search_stuck_def Inr split: run.splits sum.splits) (metis sum.exhaust)
  then show ?thesis by (simp add: console_find_node_def Inr run_ok_reply)
qed (use assms in \<open>simp add: console_find_node_def\<close>)

lemma console_upload_ok:
  assumes "await_ok env" "nd_inv nd"
    and "\<And>bs. length (net_digest env bs) = K" "\<And>w. length (fst (net_gen_key env w)) = AES_KEY_SIZE_B"
  shows "run_ok (Path_file_name path = None) (file_upload_stuck env path nd w) (console_upload co env path nd w)"
proof -
  have "run_ok (Path_file_name path = None) (file_upload_stuck env path nd w) (Node_upload_file env path nd w)"
    using upload_file_cases [OF assms, of path w] by (auto simp: run_ok_def split: run.splits)
  then show ?thesis by (simp add: console_upload_def run_ok_reply)
qed

definition is_download :: "string \<Rightarrow> bool" where
  "is_download line = (case split_whitespace line of [] \<Rightarrow> False
     | c # _ \<Rightarrow> to_lowercase c = ''download'' \<or> to_lowercase c = ''download_from_handle_file'')"

definition is_nameless_upload :: "string \<Rightarrow> bool" where
  "is_nameless_upload line = (case split_whitespace line of
       [c, path] \<Rightarrow> to_lowercase c = ''upload'' \<and> Path_file_name path = None
     | _ \<Rightarrow> False)"

lemma console_line_ok:
  assumes "await_ok env" "nd_inv nd" "\<not> is_download line"
    and "\<And>bs. length (net_digest env bs) = K" "\<And>w. length (fst (net_gen_key env w)) = AES_KEY_SIZE_B"
  shows "run_ok (is_nameless_upload line) (line_stuck co env line nd w) (console_line co env line nd w)"
proof (cases "split_whitespace line")
  case Nil
  then show ?thesis using assms(2) by (simp add: console_line_def)
next
  case (Cons c args)
  let ?ok = "run_ok (is_nameless_upload line) (line_stuck co env line nd w)"
  have up: "?ok (console_upload co env (args ! 0) nd w)"
    if "to_lowercase c = ''upload''" "length args = 1"
    using that Cons
    by (intro run_ok_mono [OF console_upload_ok [OF assms(1,2,4,5)]])
      (auto simp: is_nameless_upload_def line_stuck_def length_Suc_conv)
  have find: "?ok (console_find_node co env (args ! 0) nd w)" if "to_lowercase c = ''find_node''" "length args = 1"
    using that Cons
    by (intro run_ok_mono [OF console_find_node_ok [OF assms(1,2)]]) (auto simp: line_stuck_def length_Suc_conv)
  show ?thesis
    unfolding console_line_def Let_def
    using assms(2,3) Cons up find run_ok_mono [OF console_ping_ok [OF assms(1,2)]]
    by (auto simp: is_download_def intro!: run_ok_reply)
qed

text \<open>A session is stuck at one of its lines: the lines before it were answered, and this one waits forever.\<close>

definition session_stuck :: "codecs \<Rightarrow> ('w, 'z) net_scheme \<Rightarrow> string option list \<Rightarrow> node \<Rightarrow> 'w \<Rightarrow> bool" where
  "session_stuck co env lines nd w \<longleftrightarrow> (\<exists>before line after replies nd' w'. lines = before @ Some line # after \<and>
     console_loop co env before nd w = Ret (True, replies, nd', w') \<and> line_stuck co env line nd' w')"

lemma session_stuck_here: "line_stuck co env line nd w \<Longrightarrow> session_stuck co env (Some line # lines) nd w"
  unfolding session_stuck_def by (metis append_Nil console_loop.simps(1))

lemma session_stuck_later:
  assumes "console_line co env line nd w = Ret (r, nd1, w1)" "session_stuck co env lines nd1 w1"
  shows "session_stuck co env (Some line # lines) nd w"
proof -
  from assms(2) obtain before l after replies nd' w' where "lines = before @ Some l # after"
      "console_loop co env before nd1 w1 = Ret (True, replies, nd', w')" and stuck: "line_stuck co env l nd' w'"
    unfolding session_stuck_def by blast
  then have "Some line # lines = (Some line # before) @ Some l # after"
      "\<exists>replies. console_loop co env (Some line # before) nd w = Ret (True, replies, nd', w')"
    using assms(1) by simp_all
  then show ?thesis using stuck unfolding session_stuck_def by blast
qed

text \<open>Claim C23. A session of commands other than downloads never breaks the node: it panics only when
  a path without a file name is uploaded. It stops only at a line, after all earlier ones were answered, that
  searches a node or uploads a file and for which the nodes that answer the search, or the search for one of the chunks,
  do not fit into the routing table that the node has at this line. It
  otherwise answers every line that is not blank and ends with a node that satisfies its
  invariant; the program ends with an error exactly when reading a line failed.\<close>

theorem console_session:
  assumes "await_ok env" "nd_inv nd"
    and "\<And>bs. length (net_digest env bs) = K" "\<And>w. length (fst (net_gen_key env w)) = AES_KEY_SIZE_B"
    and "list_all (\<lambda>l. case l of None \<Rightarrow> True | Some line \<Rightarrow> \<not> is_download line) lines"
  shows "case console_loop co env lines nd w of
      Panicked \<Rightarrow> \<exists>line. Some line \<in> set lines \<and> is_nameless_upload line
    | Blocked \<Rightarrow> session_stuck co env lines nd w
    | Ret (ok, replies, nd', w') \<Rightarrow> nd_inv nd' \<and> (ok \<longleftrightarrow> None \<notin> set lines) \<and>
        length replies = length (filter (\<lambda>l. split_whitespace (the l) \<noteq> []) (takeWhile (\<lambda>l. l \<noteq> None) lines))"
  using assms(2,5)
proof (induction lines arbitrary: nd w)
  case (Cons l lines)
  show ?case
  proof (cases l)
    case None
    then show ?thesis using Cons.prems(1) by simp
  next
    case (Some line)
    then have d: "\<not> is_download line" and ds: "list_all (\<lambda>l. case l of None \<Rightarrow> True | Some line \<Rightarrow> \<not> is_download line) lines"
      using Cons.prems(2) by simp_all
    note ok = console_line_ok [OF assms(1) Cons.prems(1) d assms(3,4), of co w]
    show ?thesis
    proof (cases "console_line co env line nd w")
      case (Ret x)
      obtain r nd1 w1 where x: "x = (r, nd1, w1)" by (cases x)
      have "nd_inv nd1" using ok Ret x by simp
      note IH = Cons.IH [OF this ds, of w1]
      have "r = None \<longleftrightarrow> split_whitespace line = []"
        using Ret x by (auto simp: console_line_def Let_def bind_run_Ret_iff split: if_split_asm)
      moreover have "session_stuck co env lines nd1 w1 \<Longrightarrow> session_stuck co env (l # lines) nd w"
        using session_stuck_later [OF Ret [unfolded x]] Some by simp
      ultimately show ?thesis using IH Ret x Some
        by (cases "console_loop co env lines nd1 w1") (auto split: option.splits)
    qed (use ok Some session_stuck_here in \<open>auto simp: run_ok_def\<close>)
  qed
qed simp

section \<open>Examples\<close>

definition sample_codecs :: codecs where
  "sample_codecs = \<lparr>co_hex_decode = hex_pairs, co_hex_encode = (\<lambda>bs. concat (map fmt_02x bs)),
     co_serialize = (\<lambda>_. Inr [171]),
     co_deserialize = (\<lambda>_. Inr \<lparr>fm_name = ''a'', fm_encryption_key = [], fm_chunks_metadata = []\<rparr>)\<rparr>"

lemma split_upload_a: "split_whitespace ''upload a'' = [''upload'', ''a'']"
  using split_whitespace_word(1) [of "''upload''" "CHR '' ''" "''a''"] split_whitespace_word(2) [of "''a''" "CHR '' ''"]
  by (simp add: is_whitespace_def)

theorem console_session_witness:
  "\<exists>handle nd'. console_loop sample_codecs serving_env [Some ''upload a'', Some '' ''] serving_nd [] =
     Ret (True, [Uploaded handle], nd', [3]) \<and> nd_inv nd'"
proof -
  obtain md nd' where up: "Node_upload_file serving_env ''a'' serving_nd [] = Ret (Inr md, nd', [3])"
    using serving_upload_file by blast
  have blank: "split_whitespace '' '' = []" by (simp add: split_whitespace_Nil is_whitespace_def)
  have run: "\<exists>h. console_loop sample_codecs serving_env [Some ''upload a'', Some '' ''] serving_nd [] =
      Ret (True, [Uploaded h], nd', [3])"
    by (simp add: console_line_def split_upload_a blank console_upload_def up to_lowercase_def ascii_lower_def)
  have "length (net_digest serving_env bs) = K" "length (fst (net_gen_key serving_env w)) = AES_KEY_SIZE_B" for bs w
    by (simp_all add: K_def AES_KEY_SIZE_B_def)
  from console_session [OF serving_await_ok serving_nd_inv this,
      of "[Some ''upload a'', Some '' '']" sample_codecs "[]"] run
  show ?thesis by (auto simp: is_download_def split_upload_a blank to_lowercase_def ascii_lower_def)
qed

definition handle_nd :: node where
  "handle_nd = serving_nd\<lparr>nd_disk := [''h'' \<mapsto> map of_char ('' ab '')]\<rparr>"

theorem handle_round_trip_witness:
  "console_line sample_codecs serving_env ''download ab d'' handle_nd [] =
     bind_run (console_fetch serving_env \<lparr>fm_name = ''a'', fm_encryption_key = [], fm_chunks_metadata = []\<rparr> ''d'' handle_nd [])
       (\<lambda>(r, nd', w'). Ret (Some r, nd', w'))"
proof -
  let ?md = "\<lparr>fm_name = ''a'', fm_encryption_key = [], fm_chunks_metadata = []\<rparr>"
  have hex: "concat (map fmt_02x [171]) = ''ab''" by code_simp
  have "hex_pairs ''ab'' = Inr [171]" by code_simp
  then have ok: "handle_ok sample_codecs ?md"
    using hex by (simp add: handle_ok_def sample_codecs_def is_whitespace_def)
  have h: "''ab'' = FileMetadata_display (co_serialize sample_codecs) (co_hex_encode sample_codecs) ?md"
    using hex by (simp add: FileMetadata_display_def sample_codecs_def)
  have "nd_disk handle_nd ''h'' = Some (map of_char ('' '' @ ''ab'' @ '' ''))"
    "net_read_ok serving_env [] = (True, [])" by (simp_all add: handle_nd_def)
  from handle_round_trip [OF ok h, of "''d''" "''h''" "'' ''" "'' ''", OF _ _ _ _ _ _ this]
  show ?thesis by (simp add: is_whitespace_def)
qed

end
