(* ===== verification/Startup.thy ===== *)
theory Startup
  imports Config Node_Correctness
begin

text \<open>
  \<open>main.rs\<close>, up to the command loop, with \<open>cli/args.rs\<close>: choosing between cache and
  configuration, creating the node, joining the network, and the tasks that save the cache.
\<close>

section \<open>Definitions\<close>

record arguments =
  ar_config :: "string option"
  ar_cache :: "string option"
  ar_verbose :: bool
  ar_skip_join :: bool
  ar_port :: "u16 option"
  ar_automatic_storage :: bool

datatype node_new_error = AddressParseFailed | UdpBindFailed | UdpLocalAddrFailed | DispatcherFailed

datatype start_error =
    CacheFailed cache_error
  | ConfigFailed config_error
  | NoInput
  | ResolveFailed config_error
  | PortMissing
  | AutomaticStorageFailed
  | NodeFailed node_new_error
  | NoBeaconKey
  | NoBeaconAddress
  | JoinFailed node_op_error

text \<open>
  Parsing \<^verbatim>\<open>format!("{}:{}", ip, port)\<close> as a socket address: an IPv6 address needs brackets, which
  the format does not write, so only IPv4 addresses parse.
\<close>

definition SocketAddr_parse_formatted :: "ip_addr \<Rightarrow> u16 \<Rightarrow> socket_addr option" where
  "SocketAddr_parse_formatted ip port =
     (case ip of V4 a \<Rightarrow> Some (SocketAddrV4 a port) | V6 _ \<Rightarrow> None)"

definition MessageDispatcher_new :: "('w, 'z) host_scheme \<Rightarrow> 'w \<Rightarrow> bool \<times> 'w" where
  "MessageDispatcher_new ho w =
     (case ho_udp_bind ho (SocketAddrV4 0 0) w of (None, w1) \<Rightarrow> (False, w1) | (Some _, w1) \<Rightarrow> (True, w1))"

definition Node_open ::
  "('w, 'y) host_scheme \<Rightarrow> time \<Rightarrow> key \<Rightarrow> ip_addr \<Rightarrow> u16 \<Rightarrow> string \<Rightarrow> disk \<Rightarrow> 'w \<Rightarrow> (node_new_error + node) \<times> 'w" where
  "Node_open ho now k ip port storage_path d w =
     (case SocketAddr_parse_formatted ip port of
        None \<Rightarrow> (Inl AddressParseFailed, w)
      | Some address \<Rightarrow>
          (case ho_udp_bind ho address w of
             (None, w1) \<Rightarrow> (Inl UdpBindFailed, w1)
           | (Some socket, w1) \<Rightarrow>
               (case ho_udp_local_addr ho socket w1 of
                  (None, w2) \<Rightarrow> (Inl UdpLocalAddrFailed, w2)
                | (Some resolved_address, w2) \<Rightarrow>
                    (case MessageDispatcher_new ho w2 of
                       (False, w3) \<Rightarrow> (Inl DispatcherFailed, w3)
                     | (True, w3) \<Rightarrow> (Inr (Node_new now k resolved_address storage_path d), w3)))))"

text \<open>Where the settings come from.\<close>

definition main_load ::
  "('w, 'y) host_scheme \<Rightarrow> (bytes \<Rightarrow> cache option) \<Rightarrow> arguments \<Rightarrow> disk \<Rightarrow> 'w \<Rightarrow> (start_error + cache) \<times> 'w" where
  "main_load ho read_json args d w =
     (case ar_cache args of
        Some cache_path \<Rightarrow>
          let (open_ok, w1) = ho_open_ok ho cache_path w
          in (case Cache_parse_from_file read_json open_ok cache_path d of
                Inl e \<Rightarrow> Inl (CacheFailed e) | Inr cache \<Rightarrow> Inr cache, w1)
      | None \<Rightarrow>
          (case ar_config args of
             Some config_path \<Rightarrow>
               (case Config_parse_from_file ho config_path (ar_skip_join args) (ar_port args) d w of
                  (Inl e, w1) \<Rightarrow> (Inl (ConfigFailed e), w1)
                | (Inr config, w1) \<Rightarrow>
                    let (rng, w2) = ho_random_key ho w1
                    in (Inr \<lparr>ca_key = Key_new_random rng, ca_skip_join = ar_skip_join args, ca_config = config,
                          ca_routing_table_nodes = None\<rparr>, w2))
           | None \<Rightarrow> (Inl NoInput, w)))"

text \<open>The node, before it joins the network.\<close>

definition main_create ::
  "('w, 'y) host_scheme \<Rightarrow> ('w, 'z) net_scheme \<Rightarrow> arguments \<Rightarrow> cache \<Rightarrow> disk \<Rightarrow> 'w \<Rightarrow>
     (start_error + node \<times> config) \<times> 'w" where
  "main_create ho env args cache d w0 =
     (let config = ca_config cache in
      case Config_resolve_ip_address ho config w0 of
        (Inl e, w1) \<Rightarrow> (Inl (ResolveFailed e), w1)
      | (Inr ip, w1) \<Rightarrow>
          (case cf_node_port config of
             None \<Rightarrow> (Inl PortMissing, w1)
           | Some port \<Rightarrow>
               let (rng, w2) = ho_random_key ho w1;
                   node_key = Key_new_random rng;
                   storage_path = ''storage-'' @ Key_display node_key;
                   (dir_ok, w3) = (if ar_automatic_storage args then ho_create_dir_all ho storage_path w2 else (True, w2))
               in if \<not> dir_ok then (Inl AutomaticStorageFailed, w3)
                  else let config1 = (if ar_automatic_storage args then config\<lparr>cf_storage_path := storage_path\<rparr> else config);
                           (now, w4) = net_now env w3
                       in case Node_open ho now node_key ip port (cf_storage_path config1) d w4 of
                            (Inl e, w5) \<Rightarrow> (Inl (NodeFailed e), w5)
                          | (Inr node, w5) \<Rightarrow> (Inr (node, config1), w5)))"

definition main_join ::
  "('w, 'z) net_scheme \<Rightarrow> cache \<Rightarrow> config \<Rightarrow> node \<Rightarrow> 'w \<Rightarrow> ((start_error + unit) \<times> node \<times> 'w) run" where
  "main_join env cache config node w =
     (if ca_skip_join cache then Ret (Inr (), node, w)
      else case cf_beacon_node_key config of
             None \<Rightarrow> Ret (Inl NoBeaconKey, node, w)
           | Some beacon_node_key \<Rightarrow>
               (case cf_beacon_node_address config of
                  None \<Rightarrow> Ret (Inl NoBeaconAddress, node, w)
                | Some beacon_node_addr \<Rightarrow>
                    bind_run (Node_join_network env (NodeInfo_new beacon_node_key beacon_node_addr) node w)
                      (\<lambda>(r, node', w'). Ret (case r of Inl e \<Rightarrow> Inl (JoinFailed e) | Inr _ \<Rightarrow> Inr (), node', w'))))"

definition main_start ::
  "('w, 'y) host_scheme \<Rightarrow> ('w, 'z) net_scheme \<Rightarrow> (bytes \<Rightarrow> cache option) \<Rightarrow> arguments \<Rightarrow> disk \<Rightarrow> 'w \<Rightarrow>
     ((start_error + node \<times> config \<times> cache) \<times> 'w) run" where
  "main_start ho env read_json args d w0 =
     (case main_load ho read_json args d w0 of
        (Inl e, w1) \<Rightarrow> Ret (Inl e, w1)
      | (Inr cache, w1) \<Rightarrow>
          (case main_create ho env args cache d w1 of
             (Inl e, w2) \<Rightarrow> Ret (Inl e, w2)
           | (Inr (node, config), w2) \<Rightarrow>
               bind_run (main_join env cache config node w2) (\<lambda>(r, node', w3).
                 Ret (case r of Inl e \<Rightarrow> Inl e | Inr _ \<Rightarrow> Inr (node', config, cache), w3))))"

text \<open>One turn of the task that saves the cache, and the save at shutdown.\<close>

definition cache_saver_turn ::
  "('w, 'y) host_scheme \<Rightarrow> (cache \<Rightarrow> bytes) \<Rightarrow> bool \<Rightarrow> write_outcome \<Rightarrow> string \<Rightarrow> node \<Rightarrow> cache \<Rightarrow> 'w \<Rightarrow>
     cache \<times> node \<times> 'w" where
  "cache_saver_turn ho write_json create_ok wr file_path node cache w =
     (let all_contacts = Node_get_routing_table_content node;
          cache1 = cache\<lparr>ca_routing_table_nodes := Some all_contacts\<rparr>;
          (_, d, w1) = Cache_save_to_file ho write_json create_ok wr file_path cache1 (nd_disk node) w
      in (cache1, node\<lparr>nd_disk := d\<rparr>, w1))"

definition shutdown ::
  "('w, 'y) host_scheme \<Rightarrow> (cache \<Rightarrow> bytes) \<Rightarrow> bool \<Rightarrow> write_outcome \<Rightarrow> string option \<Rightarrow> node \<Rightarrow> cache \<Rightarrow> 'w \<Rightarrow>
     node \<times> 'w" where
  "shutdown ho write_json create_ok wr file_path_option node cache w =
     (case file_path_option of
        None \<Rightarrow> (node, w)
      | Some file_path \<Rightarrow>
          let (_, d, w1) = Cache_save_to_file ho write_json create_ok wr file_path cache (nd_disk node) w
          in (node\<lparr>nd_disk := d\<rparr>, w1))"

section \<open>Facts\<close>

lemma Node_open_InrE:
  assumes "Node_open ho now k ip port path d w = (Inr nd, w')"
  obtains a resolved where "ip = V4 a" "nd = Node_new now k resolved path d"
  using assms
  by (auto simp: Node_open_def SocketAddr_parse_formatted_def
      split: ip_addr.split_asm prod.split_asm option.split_asm bool.split_asm)

lemma main_create_InrE:
  assumes "main_create ho env args cache d w = (Inr (nd, config), w')"
  obtains rng w1 w2 now resolved a where "ho_random_key ho w1 = (rng, w2)"
    "nd = Node_new now (Key_new_random rng) resolved (cf_storage_path config) d"
    "config = (if ar_automatic_storage args
       then (ca_config cache)\<lparr>cf_storage_path := ''storage-'' @ Key_display (Key_new_random rng)\<rparr> else ca_config cache)"
    "fst (Config_resolve_ip_address ho (ca_config cache) w) = Inr (V4 a)" "cf_node_port (ca_config cache) \<noteq> None"
proof -
  obtain r w1 where r: "Config_resolve_ip_address ho (ca_config cache) w = (r, w1)"
    by (cases "Config_resolve_ip_address ho (ca_config cache) w")
  obtain ip where ip: "r = Inr ip" using assms r by (cases r) (auto simp: main_create_def)
  obtain port where port: "cf_node_port (ca_config cache) = Some port"
    using assms r ip by (cases "cf_node_port (ca_config cache)") (auto simp: main_create_def)
  obtain rng w2 where rng: "ho_random_key ho w1 = (rng, w2)" by (cases "ho_random_key ho w1")
  let ?path = "''storage-'' @ Key_display (Key_new_random rng)"
  obtain ok w3 where dir: "(if ar_automatic_storage args then ho_create_dir_all ho ?path w2 else (True, w2)) = (ok, w3)"
    by (cases "if ar_automatic_storage args then ho_create_dir_all ho ?path w2 else (True, w2)")
  obtain now w4 where now: "net_now env w3 = (now, w4)" by (cases "net_now env w3")
  define config1 where
    "config1 = (if ar_automatic_storage args then (ca_config cache)\<lparr>cf_storage_path := ?path\<rparr> else ca_config cache)"
  have "(case Node_open ho now (Key_new_random rng) ip port (cf_storage_path config1) d w4 of
      (Inl e, w5) \<Rightarrow> (Inl (NodeFailed e), w5) | (Inr node, w5) \<Rightarrow> (Inr (node, config1), w5)) = (Inr (nd, config), w')"
    using assms unfolding main_create_def Let_def r ip port rng dir prod.case sum.case option.case now config1_def [symmetric]
    by (cases ok) auto
  then obtain w5 where "Node_open ho now (Key_new_random rng) ip port (cf_storage_path config) d w4 = (Inr nd, w5)"
      "config = config1"
    by (cases "Node_open ho now (Key_new_random rng) ip port (cf_storage_path config1) d w4";
        cases "fst (Node_open ho now (Key_new_random rng) ip port (cf_storage_path config1) d w4)") auto
  then show thesis
    using that [OF rng] r ip port unfolding config1_def by (auto elim!: Node_open_InrE)
qed

text \<open>The keys a configuration or a cache file can hold have 20 bytes, as \<open>Key::deserialize\<close> ensures.\<close>

definition files_wf :: "('w, 'y) host_scheme \<Rightarrow> (bytes \<Rightarrow> cache option) \<Rightarrow> bool" where
  "files_wf ho read_json \<longleftrightarrow>
     (\<forall>content c k. ho_yaml_config ho content = Some c \<and> cf_beacon_node_key c = Some k \<longrightarrow> wf_key k) \<and>
     (\<forall>content c k. read_json content = Some c \<and> cf_beacon_node_key (ca_config c) = Some k \<longrightarrow> wf_key k)"

lemma config_parse_key:
  assumes "Config_parse_from_file ho path skip_join port_arg d w = (Inr c, w')"
  obtains content c0 where "ho_yaml_config ho content = Some c0" "cf_beacon_node_key c0 = cf_beacon_node_key c"
    "cf_node_port c \<noteq> None" "\<not> skip_join \<longrightarrow> cf_beacon_node_address c \<noteq> None \<and> cf_beacon_node_key c \<noteq> None"
  using assms
  by (auto simp: Config_parse_from_file_def Let_def
      split: option.split_asm if_split_asm prod.split_asm sum.split_asm)

lemma main_load_InrE:
  assumes "main_load ho read_json args d w = (Inr cache, w')" "files_wf ho read_json"
  shows "cf_beacon_node_key (ca_config cache) = Some k \<longrightarrow> wf_key k"
    and "ar_cache args = None \<Longrightarrow> cf_node_port (ca_config cache) \<noteq> None \<and> ca_skip_join cache = ar_skip_join args \<and>
      (\<not> ca_skip_join cache \<longrightarrow> cf_beacon_node_address (ca_config cache) \<noteq> None \<and> cf_beacon_node_key (ca_config cache) \<noteq> None)"
proof -
  consider (cached) p where "ar_cache args = Some p" | (config) p where "ar_cache args = None" "ar_config args = Some p"
    using assms(1) by (cases "ar_cache args"; cases "ar_config args") (auto simp: main_load_def)
  then have "(cf_beacon_node_key (ca_config cache) = Some k \<longrightarrow> wf_key k) \<and>
    (ar_cache args = None \<longrightarrow> cf_node_port (ca_config cache) \<noteq> None \<and> ca_skip_join cache = ar_skip_join args \<and>
      (\<not> ca_skip_join cache \<longrightarrow> cf_beacon_node_address (ca_config cache) \<noteq> None \<and> cf_beacon_node_key (ca_config cache) \<noteq> None))"
  proof cases
    case cached
    then obtain content where "read_json content = Some cache"
      using assms(1) by (auto simp: main_load_def Let_def Cache_parse_from_file_def
          split: prod.split_asm sum.split_asm option.split_asm if_split_asm)
    then show ?thesis using assms(2) cached by (auto simp: files_wf_def)
  next
    case config
    then obtain c w1 where c: "Config_parse_from_file ho p (ar_skip_join args) (ar_port args) d w = (Inr c, w1)"
        "ca_config cache = c" "ca_skip_join cache = ar_skip_join args"
      using assms(1) by (auto simp: main_load_def Let_def split: prod.split_asm sum.split_asm)
    from c(1) show ?thesis
      by (rule config_parse_key) (use assms(2) c(2,3) config in \<open>auto simp: files_wf_def\<close>)
  qed
  then show "cf_beacon_node_key (ca_config cache) = Some k \<longrightarrow> wf_key k"
    and "ar_cache args = None \<Longrightarrow> cf_node_port (ca_config cache) \<noteq> None \<and> ca_skip_join cache = ar_skip_join args \<and>
      (\<not> ca_skip_join cache \<longrightarrow> cf_beacon_node_address (ca_config cache) \<noteq> None \<and> cf_beacon_node_key (ca_config cache) \<noteq> None)"
    by blast+
qed

lemma main_create_InlE:
  assumes "main_create ho env args cache d w = (Inl e, w')" "cf_node_port (ca_config cache) \<noteq> None"
  shows "e \<noteq> PortMissing" "e \<noteq> NoBeaconKey" "e \<noteq> NoBeaconAddress"
  using assms by (auto simp: main_create_def Let_def split: prod.split_asm sum.split_asm if_split_asm option.split_asm)

text \<open>The node that is created is a new one, and the beacon of its settings is the one of the cache.\<close>

lemma main_create_node:
  assumes "main_create ho env args cache d w = (Inr (nd, config), w')" and "\<And>w. length (fst (ho_random_key ho w)) = 20"
  shows "nd_inv nd" "Node_get_routing_table_content nd = []" "nd_disk nd = d"
    "ss_storage_root_path (nd_storage nd) =
       (if ar_automatic_storage args then ''storage-'' @ Key_display (nd_key nd) else cf_storage_path (ca_config cache))"
    "cf_beacon_node_key config = cf_beacon_node_key (ca_config cache)"
    "cf_beacon_node_address config = cf_beacon_node_address (ca_config cache)"
proof -
  from assms(1) obtain rng w3 w4 now resolved where
    nd: "ho_random_key ho w3 = (rng, w4)" "nd = Node_new now (Key_new_random rng) resolved (cf_storage_path config) d"
      "config = (if ar_automatic_storage args
        then (ca_config cache)\<lparr>cf_storage_path := ''storage-'' @ Key_display (Key_new_random rng)\<rparr> else ca_config cache)"
    by (auto elim!: main_create_InrE)
  have "length rng = 20" using assms(2) [of w3] nd(1) by simp
  then show "nd_inv nd" unfolding nd(2) by (intro nd_inv_new) (simp add: wf_key_def Key_new_random_def K_def)
  show "Node_get_routing_table_content nd = []" "nd_disk nd = d"
    unfolding nd(2)
    by (simp_all add: Node_new_def Node_get_routing_table_content_def RoutingTable_new_def
        RoutingTable_get_all_nodeinfos_def KBucket_get_nodeinfos_def KBucket_new_def)
  show "ss_storage_root_path (nd_storage nd) =
       (if ar_automatic_storage args then ''storage-'' @ Key_display (nd_key nd) else cf_storage_path (ca_config cache))"
    using nd(2,3) by (simp add: Node_new_def ShardStorageManager_new_def)
  show "cf_beacon_node_key config = cf_beacon_node_key (ca_config cache)"
    "cf_beacon_node_address config = cf_beacon_node_address (ca_config cache)" by (simp_all add: nd(3))
qed

text \<open>Joining at the start is stuck: it is not skipped, and \<open>join_network\<close> with the beacon of the settings is.\<close>

definition start_stuck :: "('w, 'z) net_scheme \<Rightarrow> cache \<Rightarrow> config \<Rightarrow> node \<Rightarrow> 'w \<Rightarrow> bool" where
  "start_stuck env cache config nd w \<longleftrightarrow> \<not> ca_skip_join cache \<and>
     (case (cf_beacon_node_key config, cf_beacon_node_address config) of
        (Some k, Some a) \<Rightarrow> join_stuck env (NodeInfo_new k a) nd w
      | _ \<Rightarrow> False)"

lemma main_join_cases:
  assumes "await_ok env" "nd_inv nd" "\<And>k. cf_beacon_node_key config = Some k \<Longrightarrow> wf_key k"
  shows "case main_join env cache config nd w of
      Panicked \<Rightarrow> False
    | Blocked \<Rightarrow> start_stuck env cache config nd w
    | Ret (r, nd', w') \<Rightarrow> nd_inv nd' \<and> (ca_skip_join cache \<longrightarrow> r = Inr () \<and> nd' = nd \<and> w' = w) \<and>
        (r = Inl NoBeaconKey \<longrightarrow> cf_beacon_node_key config = None) \<and>
        (r = Inl NoBeaconAddress \<longrightarrow> cf_beacon_node_address config = None) \<and> r \<noteq> Inl PortMissing"
proof (cases "ca_skip_join cache")
  case False
  show ?thesis
  proof (cases "cf_beacon_node_key config")
    case (Some k)
    show ?thesis
    proof (cases "cf_beacon_node_address config")
      case (Some a)
      have "wf_node (NodeInfo_new k a)" using assms(3) \<open>cf_beacon_node_key config = Some k\<close>
        by (simp add: wf_node_def NodeInfo_new_def)
      note join = join_network_cases [OF assms(1,2) this, of w]
      show ?thesis
      proof (cases "Node_join_network env (NodeInfo_new k a) nd w")
        case (Ret x)
        obtain r nd' w' where "x = (r, nd', w')" by (cases x)
        then show ?thesis
          using join Ret False Some \<open>cf_beacon_node_key config = Some k\<close>
          by (cases r) (simp_all add: main_join_def)
      qed (use join False Some \<open>cf_beacon_node_key config = Some k\<close> in
          \<open>simp_all add: main_join_def start_stuck_def\<close>)
    qed (use False Some assms in \<open>simp add: main_join_def\<close>)
  qed (use False assms in \<open>simp add: main_join_def\<close>)
qed (use assms in \<open>simp add: main_join_def\<close>)

text \<open>The rest of the start, once a node was created from the settings.\<close>

lemma main_start_created:
  assumes "await_ok env" "main_load ho read_json args d w = (Inr cache, w1)"
    and "main_create ho env args cache d w1 = (Inr (nd, config), w2)"
    and "nd_inv nd" "\<And>k. cf_beacon_node_key config = Some k \<Longrightarrow> wf_key k"
  shows "case main_start ho env read_json args d w of
      Panicked \<Rightarrow> False
    | Blocked \<Rightarrow> start_stuck env cache config nd w2
    | Ret (Inl e, w') \<Rightarrow> \<not> ca_skip_join cache \<and> e \<noteq> PortMissing \<and>
        (e = NoBeaconKey \<longrightarrow> cf_beacon_node_key config = None) \<and>
        (e = NoBeaconAddress \<longrightarrow> cf_beacon_node_address config = None)
    | Ret (Inr (nd', config', cache'), w') \<Rightarrow> nd_inv nd' \<and> config' = config \<and> cache' = cache \<and>
        (ca_skip_join cache \<longrightarrow> nd' = nd)"
proof -
  note join = main_join_cases [where config = config and cache = cache and w = w2, OF assms(1,4,5), simplified]
  show ?thesis
  proof (cases "main_join env cache config nd w2")
    case (Ret x)
    obtain r nd' w' where x: "x = (r, nd', w')" by (cases x)
    have "main_start ho env read_json args d w =
        Ret (case r of Inl e \<Rightarrow> Inl e | Inr _ \<Rightarrow> Inr (nd', config, cache), w')"
      using Ret x assms(2,3) by (simp add: main_start_def)
    then show ?thesis using join Ret x by (cases r) auto
  qed (use join assms(2,3) in \<open>auto simp: main_start_def\<close>)
qed

section \<open>Main results\<close>

text \<open>Claim C25. What starting the program ends with: it never panics. It returns a node in a consistent
  state whose chunks are stored under the configured path, or under one named after its own key
  when that was asked for, and whose routing table is empty when joining is skipped; or it
  returns an error; when the settings come from a configuration file, the later checks of \<open>main\<close> for a missing port, beacon
  key or beacon address never fail, because reading the file already reports these. It waits forever only in
  \<open>join_network\<close>, when the nodes that answer the lookup of the own key do not fit into the routing table of the
  node just created.\<close>

theorem start_outcome:
  assumes "await_ok env" and "files_wf ho read_json" and "\<And>w. length (fst (ho_random_key ho w)) = 20"
  shows "case main_start ho env read_json args d w of
      Panicked \<Rightarrow> False
    | Blocked \<Rightarrow> \<exists>cache w1 nd config w2. main_load ho read_json args d w = (Inr cache, w1) \<and>
        main_create ho env args cache d w1 = (Inr (nd, config), w2) \<and> start_stuck env cache config nd w2
    | Ret (Inl e, w') \<Rightarrow> ar_cache args = None \<longrightarrow> e \<noteq> PortMissing \<and> e \<noteq> NoBeaconKey \<and> e \<noteq> NoBeaconAddress
    | Ret (Inr (nd, config, cache), w') \<Rightarrow> nd_inv nd \<and>
        (ca_skip_join cache \<longrightarrow> Node_get_routing_table_content nd = [] \<and> nd_disk nd = d) \<and>
        (ca_skip_join cache \<longrightarrow> ss_storage_root_path (nd_storage nd) =
           (if ar_automatic_storage args then ''storage-'' @ Key_display (nd_key nd)
            else cf_storage_path (ca_config cache)))"
proof (cases "main_load ho read_json args d w")
  case (Pair r1 w1)
  note load = Pair
  show ?thesis
  proof (cases r1)
    case (Inl e)
    then show ?thesis
      using load
      by (auto simp: main_start_def main_load_def Let_def split: prod.split_asm sum.split_asm option.split_asm)
  next
    case (Inr cache)
    note load = load [unfolded Inr]
    note keys = main_load_InrE [OF load assms(2)]
    obtain r2 w2 where create: "main_create ho env args cache d w1 = (r2, w2)"
      by (cases "main_create ho env args cache d w1")
    show ?thesis
    proof (cases r2)
      case (Inl e)
      then show ?thesis
        using load create keys(2) main_create_InlE [of ho env args cache d w1 e w2] by (simp add: main_start_def)
    next
      case (Inr nc)
      obtain nd config where nc: "nc = (nd, config)" by (cases nc)
      note created = main_create_node [OF create [unfolded Inr nc] assms(3)]
      have "wf_key k" if "cf_beacon_node_key config = Some k" for k
        using keys(1) [of k] that created(5) by simp
      from main_start_created [OF assms(1) load create [unfolded Inr nc] created(1) this] show ?thesis
        using keys(2) created load create [unfolded Inr nc] by (auto split: run.splits sum.splits)
    qed
  qed
qed

definition config_args :: arguments where
  "config_args = \<lparr>ar_config = Some ''c'', ar_cache = None, ar_verbose = False, ar_skip_join = True, ar_port = None,
     ar_automatic_storage = False\<rparr>"

lemma quiet_files_wf: "files_wf quiet_host (\<lambda>_. None)"
  by (simp add: files_wf_def quiet_host_def)

theorem start_outcome_witness:
  "\<exists>nd config cache w'. main_start quiet_host (reply_env lost_answer) (\<lambda>_. None) config_args [''c'' \<mapsto> []] (ni_address (contact 0))
      = Ret (Inr (nd, config, cache), w') \<and> nd_inv nd \<and> ca_skip_join cache \<and> Node_get_routing_table_content nd = []"
proof -
  have "\<exists>nd config cache w'. main_start quiet_host (reply_env lost_answer) (\<lambda>_. None) config_args [''c'' \<mapsto> []] (ni_address (contact 0))
      = Ret (Inr (nd, config, cache), w') \<and> ca_skip_join cache"
    by (simp add: main_start_def main_load_def config_args_def Config_parse_from_file_def Config_validate_storage_path_def
        quiet_host_def main_create_def Config_resolve_ip_address_def ip_is_ipv4_def Node_open_def
        SocketAddr_parse_formatted_def MessageDispatcher_new_def reply_env_def main_join_def)
  moreover have "length (fst (ho_random_key quiet_host w)) = 20" for w :: socket_addr by (simp add: quiet_host_def)
  ultimately show ?thesis
    using start_outcome [OF lost_answer_ok quiet_files_wf, of config_args "[''c'' \<mapsto> []]" "ni_address (contact 0)"]
    by fastforce
qed

text \<open>A restart does not keep the identity of the node: the key and the contacts stored in the
  cache have no influence on the node that is created or on how it joins; its key is a random
  one, drawn after the cache was read, and its routing table starts empty.\<close>

theorem start_ignores_cached_identity:
  "main_create ho env args (cache\<lparr>ca_key := k, ca_routing_table_nodes := ns\<rparr>) d w = main_create ho env args cache d w \<and>
   main_join env (cache\<lparr>ca_key := k, ca_routing_table_nodes := ns\<rparr>) config nd w' = main_join env cache config nd w' \<and>
   (main_create ho env args cache d w = (Inr (nd, config), w2) \<longrightarrow>
      (\<exists>w1. nd_key nd = Key_new_random (fst (ho_random_key ho w1))) \<and> Node_get_routing_table_content nd = [])"
proof (intro conjI impI)
  assume "main_create ho env args cache d w = (Inr (nd, config), w2)"
  then obtain rng w1 w4 now resolved where
    nd: "ho_random_key ho w1 = (rng, w4)" "nd = Node_new now (Key_new_random rng) resolved (cf_storage_path config) d"
    by (auto elim!: main_create_InrE)
  from nd show "\<exists>w1. nd_key nd = Key_new_random (fst (ho_random_key ho w1))"
    by (intro exI [of _ w1]) (simp add: Node_new_def)
  from nd(2) show "Node_get_routing_table_content nd = []"
    by (simp add: Node_new_def Node_get_routing_table_content_def RoutingTable_new_def
        RoutingTable_get_all_nodeinfos_def KBucket_get_nodeinfos_def KBucket_new_def)
qed (simp_all add: main_create_def main_join_def)

lemma cached_identity_example:
  "\<exists>nd config w'. main_create quiet_host (reply_env lost_answer) config_args sample_cache Map.empty (ni_address (contact 0))
     = (Inr (nd, config), w')"
  by (simp add: config_args_def quiet_host_def main_create_def Config_resolve_ip_address_def Node_open_def
        SocketAddr_parse_formatted_def MessageDispatcher_new_def reply_env_def sample_cache_def)

theorem start_ignores_cached_identity_witness:
  "\<exists>nd config w'. main_create quiet_host (reply_env lost_answer) config_args
      (sample_cache\<lparr>ca_key := small_key 9, ca_routing_table_nodes := None\<rparr>) Map.empty (ni_address (contact 0)) = (Inr (nd, config), w') \<and>
    nd_key nd \<noteq> small_key 9"
proof -
  obtain nd config w' where c: "main_create quiet_host (reply_env lost_answer) config_args sample_cache Map.empty (ni_address (contact 0))
     = (Inr (nd, config), w')" using cached_identity_example by blast
  have k: "Key_new_random (fst (ho_random_key quiet_host w)) \<noteq> small_key 9" for w :: socket_addr
    by (auto simp: Key_new_random_def quiet_host_def small_key_def dest!: arg_cong [where f = last])
  show ?thesis
    using start_ignores_cached_identity [where ho = quiet_host and env = "reply_env lost_answer" and args = config_args
        and cache = sample_cache and k = "small_key 9" and ns = None and d = Map.empty and w = "ni_address (contact 0)"
        and config = config and nd = nd and ?w2.0 = w'] c k
    by metis
qed

text \<open>A node whose announced address is an IPv6 address cannot be started: the address and
  the port are joined without brackets, which no longer parses as a socket address.\<close>

lemma ipv6_address_never_starts:
  assumes "Config_resolve_ip_address ho (ca_config cache) w = (Inr (V6 a), w1)"
  shows "\<exists>e w'. main_create ho env args cache d w = (Inl e, w') \<and>
    e \<in> {PortMissing, AutomaticStorageFailed, NodeFailed AddressParseFailed}"
  using assms
  by (auto simp: main_create_def Let_def Node_open_def SocketAddr_parse_formatted_def
      split: option.splits prod.splits if_splits)

end
