(* ===== verification/Utilities.thy ===== *)
theory Utilities
  imports Startup
begin

text \<open>
  \<open>utils/logging.rs\<close>, the set-up of the logger that \<open>main\<close> calls first, and \<open>utils/testing.rs\<close>,
  the files that the unit tests of the sharding work on.
\<close>

section \<open>Logging\<close>

text \<open>
  The levels \<open>LevelFilter\<close> and their text are the \<open>log\<close> crate's, \<open>env_logger::init\<close> reads the
  environment and installs a logger: all are parameters. The environment is a map from names to
  values.
\<close>

definition CARGO_PKG_NAME :: string where "CARGO_PKG_NAME = ''p2p''"

definition init_logging ::
  "('l \<Rightarrow> string) \<Rightarrow> ((string \<rightharpoonup> string) \<Rightarrow> 'w \<Rightarrow> 'w run) \<Rightarrow> 'l \<Rightarrow> (string \<rightharpoonup> string) \<Rightarrow> 'w \<Rightarrow>
     ((string \<rightharpoonup> string) \<times> 'w) run" where
  "init_logging fmt_level logger_init log_level vars w =
     (let vars1 = vars(''RUST_LOG'' \<mapsto> CARGO_PKG_NAME @ ''='' @ fmt_level log_level)
      in bind_run (logger_init vars1 w) (\<lambda>w1. Ret (vars1, w1)))"

text \<open>The first step of \<open>main\<close>.\<close>

definition main_logging ::
  "('l \<Rightarrow> string) \<Rightarrow> 'l \<Rightarrow> 'l \<Rightarrow> ((string \<rightharpoonup> string) \<Rightarrow> 'w \<Rightarrow> 'w run) \<Rightarrow> arguments \<Rightarrow> (string \<rightharpoonup> string) \<Rightarrow> 'w \<Rightarrow>
     ((string \<rightharpoonup> string) \<times> 'w) run" where
  "main_logging fmt_level info warn logger_init args vars w =
     (if ar_verbose args then init_logging fmt_level logger_init info vars w
      else init_logging fmt_level logger_init warn vars w)"

text \<open>The user's own setting of \<open>RUST_LOG\<close> has no effect: the logger sees the level of \<open>--verbose\<close> only.\<close>

lemma user_log_level_ignored:
  "map_run (\<lambda>(vars', w'). (vars' ''RUST_LOG'', w')) (main_logging fmt_level info warn logger_init args (vars(''RUST_LOG'' \<mapsto> user)) w) =
   map_run (\<lambda>(vars', w'). (vars' ''RUST_LOG'', w')) (main_logging fmt_level info warn logger_init args vars w)"
  by (simp add: main_logging_def init_logging_def Let_def)

section \<open>Files of the tests\<close>

text \<open>
  \<open>tempdir\<close> gives a directory or fails; every failure is unwrapped. Random bytes are numbered as
  they are drawn.
\<close>

definition create_test_file ::
  "string option \<Rightarrow> bool \<Rightarrow> write_outcome \<Rightarrow> (nat \<Rightarrow> u8) \<Rightarrow> nat option \<Rightarrow> bool \<Rightarrow> disk \<Rightarrow> ((string \<times> string) \<times> disk) run" where
  "create_test_file tempdir create_ok wr rng maybe_size randomly d =
     (case tempdir of
        None \<Rightarrow> Panicked
      | Some dir \<Rightarrow>
          let file_path = Path_join dir ''test_file''
          in if \<not> create_ok then Panicked
             else let d1 = d(file_path \<mapsto> [])
                  in case maybe_size of
                       None \<Rightarrow> Ret ((file_path, dir), d1)
                     | Some sz \<Rightarrow>
                         let bytes = (if randomly then map rng [0..<sz] else replicate sz 0)
                         in if wr \<noteq> WriteOk then Panicked
                            else Ret ((file_path, dir), d1(file_path \<mapsto> bytes)))"

definition create_test_file_rng_filled ::
  "string option \<Rightarrow> bool \<Rightarrow> write_outcome \<Rightarrow> (nat \<Rightarrow> u8) \<Rightarrow> nat \<Rightarrow> disk \<Rightarrow> ((string \<times> string) \<times> disk) run" where
  "create_test_file_rng_filled tempdir create_ok wr rng sz d = create_test_file tempdir create_ok wr rng (Some sz) True d"

definition create_test_file_zero_filled ::
  "string option \<Rightarrow> bool \<Rightarrow> write_outcome \<Rightarrow> (nat \<Rightarrow> u8) \<Rightarrow> nat \<Rightarrow> disk \<Rightarrow> ((string \<times> string) \<times> disk) run" where
  "create_test_file_zero_filled tempdir create_ok wr rng sz d = create_test_file tempdir create_ok wr rng (Some sz) True d"

definition create_test_file_empty ::
  "string option \<Rightarrow> bool \<Rightarrow> write_outcome \<Rightarrow> (nat \<Rightarrow> u8) \<Rightarrow> disk \<Rightarrow> ((string \<times> string) \<times> disk) run" where
  "create_test_file_empty tempdir create_ok wr rng d = create_test_file tempdir create_ok wr rng None False d"

lemma test_file_name [simp]: "Path_join dir ''test_file'' \<noteq> []"
  by (simp add: Path_join_def)

lemma split_on_ne [simp]: "split_on c xs \<noteq> []"
  by (induction xs) (auto split: list.split)

lemma split_on_append: "split_on c (xs @ c # ys) = split_on c xs @ split_on c ys"
  by (induction xs) (auto split: list.split)

lemma Path_file_name_test: "Path_file_name (Path_join dir ''test_file'') = Some ''test_file''"
proof -
  have "\<exists>ps. split_on (CHR ''/'') (Path_join dir ''test_file'') = ps @ [''test_file'']"
  proof (cases "dir = [] \<or> last dir = CHR ''/''")
    case True
    then show ?thesis
    proof (cases "dir = []")
      case False
      then obtain d where "dir = d @ [CHR ''/'']" using True by (metis append_butlast_last_id)
      then show ?thesis using split_on_append [of "CHR ''/''" d "''test_file''"] by (simp add: Path_join_def)
    qed (simp add: Path_join_def)
  next
    case False
    then show ?thesis using split_on_append [of "CHR ''/''" dir "''test_file''"] by (simp add: Path_join_def)
  qed
  then show ?thesis by (auto simp: Path_file_name_def)
qed

text \<open>The two tests of the uploader that need a file of a given size: the limit is exact.\<close>

lemma test_file_limit:
  assumes "create_test_file_zero_filled (Some dir) True WriteOk rng sz d = Ret ((path, dir'), d1)"
  shows "FileUploader_new_with_max_file_size True key path max_mb d1 =
    (if sz > max_mb * 1024 * 1024 then Ret (Inl FileTooBig, d1)
     else Ret (Inr \<lparr>fu_remaining = map rng [0..<sz],
       fu_file_metadata = \<lparr>fm_name = ''test_file'', fm_encryption_key = key, fm_chunks_metadata = []\<rparr>,
       fu_encryption_key = key\<rparr>, d1))"
  using assms
  by (auto simp: create_test_file_zero_filled_def create_test_file_def FileUploader_new_with_max_file_size_def Let_def
      Path_file_name_test)

text \<open>A file that is asked to be filled with zeros is filled with random bytes.\<close>

lemma zero_filled_is_random:
  "create_test_file_zero_filled tempdir create_ok wr rng sz d = create_test_file_rng_filled tempdir create_ok wr rng sz d"
  "create_test_file_zero_filled (Some dir) True WriteOk (\<lambda>_. 1) 2 Map.empty =
     Ret ((Path_join dir ''test_file'', dir), [Path_join dir ''test_file'' \<mapsto> [1, 1]])"
  by (simp_all add: create_test_file_zero_filled_def create_test_file_rng_filled_def create_test_file_def Let_def upt_rec)

end
