(* ===== verification/Spec2Isabelle.thy ===== *)
theory Spec2Isabelle
  imports Node_Correctness Routing_Correctness Listener Storage_Refinement Answers File_Exchange Message_Text Console Utilities
begin

text \<open>
  \<^bold>\<open>A peer-to-peer file system over Kademlia: the verification development\<close>

  \<^bold>\<open>The program.\<close> A node has a 160-bit key, a UDP socket, a routing table of other nodes, a table of
  requests waiting for a response, and a directory of encrypted chunks it stores for others.
  \<open>upload_file\<close> cuts a file into encrypted chunks, looks up the nodes closest to the hash of each
  chunk and sends it to them over TCP; \<open>download_file\<close> finds a storer for every chunk of a handle and
  puts the file together again. A fixed pool of workers answers the messages of other nodes.
  \<open>main.rs\<close> reads the settings, starts a node, joins the network through a beacon and then runs
  the commands of the user.

  \<^bold>\<open>Theories and sources\<close> (paths under \<open>src/src/\<close>).

  \<^item> \<open>Prelude\<close>: byte lists, machine words, the result type \<open>run\<close> of code that may panic or wait
    for ever, the constants of \<open>constants.rs\<close>, \<open>named_theorems\<close> and generic lemmas.
  \<^item> \<open>Hash_Map\<close>: \<open>std::collections::HashMap\<close> as an association list behind the locale
    \<open>finite_map\<close>, which the request map, the transfers table and the storage use.
  \<^item> \<open>Files\<close>: paths and a disk as a map from paths to contents.
  \<^item> \<open>Key\<close> (\<open>core/key.rs\<close>): keys, the XOR distance, shared leading bits, hexadecimal text.
  \<^item> \<open>Messages\<close> (\<open>networking/messages.rs\<close>, \<open>node_info.rs\<close>, \<open>message_dispatcher.rs\<close>): contacts,
    requests, responses, the size limit and the sending of messages; \<open>Message_Text\<close>: the texts of
    messages and contacts in the log.
  \<^item> \<open>Tcp_Listener\<close> (\<open>networking/tcp_listener.rs\<close>): the listener for one transfer.
  \<^item> \<open>Request_Map\<close> (\<open>networking/request_map.rs\<close>, \<open>Node::send_request_and_wait\<close>): the map of
    pending requests, and clients and workers as an inductive step relation between awaits.
  \<^item> \<open>KBucket\<close>, \<open>Routing_Table\<close>, \<open>Routing_Correctness\<close> (\<open>routing/kbucket.rs\<close>,
    \<open>routing/routing_table.rs\<close>): buckets, the table and the search for the closest contacts.
  \<^item> \<open>Lookup\<close> (\<open>core/lookup.rs\<close>): the buffer of a lookup, behind the locale \<open>lookup_state\<close>.
  \<^item> \<open>Sharding\<close> (\<open>sharding/\<close>): chunks, metadata, uploader, downloader and encryption.
  \<^item> \<open>Storage\<close>, \<open>Storage_Refinement\<close> (\<open>storage/\<close>): announced transfers, stored chunks, expiry,
    uploaded files; the locale \<open>chunk_store\<close> and the specification as a deterministic database with
    the same operations and answers.
  \<^item> \<open>Node\<close>, \<open>Node_Correctness\<close>, \<open>Sample_Network\<close> (\<open>core/node.rs\<close>): requests, ping, joining and
    lookups, and small networks that serve as examples.
  \<^item> \<open>File_Transfer\<close> (\<open>core/node.rs\<close>): uploading and downloading files.
  \<^item> \<open>Request_Handler\<close> (\<open>core/request_handler.rs\<close>): the router and every handler.
  \<^item> \<open>Listener\<close> (\<open>Node::start_listening\<close>): reader, bounded queue and workers as a step relation.
  \<^item> \<open>Answers\<close>: the type of what the handlers send.
  \<^item> \<open>Two_Nodes\<close>: the requests and transfers of a client run against the handlers of a storer;
    \<open>File_Exchange\<close>: whole uploads and downloads, with their lookups, between the two.
  \<^item> \<open>Config\<close>, \<open>Startup\<close> (\<open>config.rs\<close>, \<open>cache.rs\<close>, \<open>cli/args.rs\<close>, \<open>main.rs\<close>): settings, cache and start.
  \<^item> \<open>Console\<close> (\<open>main.rs\<close>): the command loop.
  \<^item> \<open>Utilities\<close> (\<open>utils/\<close>): the set-up of the logger and the files of the unit tests.

  \<^bold>\<open>How code corresponds to definitions.\<close> A struct is a record with a prefix for its fields, an enum
  a datatype; a method \<open>T::m\<close> is \<open>T_m\<close>. The state of a node is the record \<open>node\<close>; operations
  take it and return it changed. Everything outside (UDP and TCP, clock, random numbers, outcomes
  of file operations, JSON, cipher and hash) is a field of an environment record
  (\<open>env\<close>, extended by \<open>tcp\<close> and \<open>net\<close>, and \<open>host\<close>, \<open>codecs\<close>) that acts on a state \<open>'w\<close> of
  the world of any type, so the theorems hold for every behaviour of the network, those of hostile nodes
  included. \<open>Panicked\<close> is a panic; \<open>Blocked\<close> is a task that waits for a lock which is never
  released, as when \<open>ping\<close> asks for the routing table while its caller holds it for writing.
  Futures joined by \<open>join_all\<close> run one after the other. Durations are natural numbers of
  nanoseconds, \<open>usize\<close> in the storage limit and \<open>u32\<close> in the chunk format are words.

  \<^bold>\<open>What is shown.\<close> Keys: the distance is a metric, bucket \<open>i\<close> holds exactly the keys at distance
  \<open>2^i\<close> to \<open>2^(i+1)\<close>, texts round-trip. Routing table: an invariant kept by every operation,
  storing and finding, and when the fast search equals the reference search of the tests. Lookups:
  the loop ends whatever the other nodes answer, results are sorted, distinct and exclude the
  node; an operation that looks nodes up waits forever exactly when the nodes that answered, stored one after the
  other, meet a full bucket of the node's own table (\<open>crowded\<close>, and for the operations built on lookups
  \<open>join_stuck\<close>, \<open>upload_stuck\<close>, \<open>session_stuck\<close>, \<open>start_stuck\<close>). Requests: in every interleaving a response reaches only its own request, once. Storage: for every
  sequence of operations it gives the answers of a database that maps chunks to their data and times, with expiry and limits. Handlers: every outcome of every request, and
  that they send only well-formed answers, which is what a node relies on of the others. Client and
  storer together: on one machine a file uploaded to the storer is downloaded unchanged, chunk by chunk; a
  chunk the storer holds is refreshed and not sent again.
  Files: cutting and reassembling is the identity, a successful upload sent every chunk, and a
  successful download is the uploaded file, whatever the storers send, unless one of them forges
  a ciphertext. Listener: no datagram is lost or handled twice. Start and console: outcomes, recognised
  commands and handles. Some theorems describe defects of the code: the lock that a full
  bucket never releases, a storer that is found and lost, responses too large to send, files
  that block a hash, the cached identity that is not used, listeners nobody else can reach,
  equal blocks of a file that share a place in the network but not a ciphertext.

  \<^bold>\<open>Termination and bounds.\<close> No definition uses fuel. The rounds of a lookup are a
  \<open>partial_function (option)\<close>, and the lookup theorems show that they return; the loops over
  files and words are total functions with a measure. The bounds of the code (20 contacts per bucket,
  3 parallel requests, 1024 chunks, 100 queued datagrams, 4 workers) are the source's constants.

  \<^bold>\<open>Hypotheses.\<close> \<open>await_ok\<close>: a delivered response carries the awaited id and 20-byte keys, which the
  request map and the parser ensure. \<open>aead_spec\<close>: the cipher decrypts what it
  encrypted; \<open>unforged\<close>: among the data received in this run, those the cipher accepts under a nonce were
  issued with this nonce by the owner of the key, which is what authenticated encryption promises of every sender who
  does not have the key; \<open>nonce_bound\<close>: it rejects a ciphertext
  under any other nonce. \<open>hex_decode_spec\<close> and
  \<open>handle_ok\<close>, \<open>json_ok\<close>: the codecs read what they write. Each property with a hypothesis has a witness
  that applies it to a concrete environment.

  \<^bold>\<open>Not modelled.\<close> Log lines other than the texts of messages and contacts; the argument
  parser; the texts of error messages, of which only the kind is kept; module lists; the timing
  of background tasks (one turn of each is modelled); white space and letter case outside ASCII;
  interleavings inside one message handler or inside one joined future, other than those of the
  request map. On a failed download the contents of the output file are those of the last flush, although the
  buffered writer may already have written more. Assertions of debug builds are left out.
\<close>

end
